(* ===== verification/Warp_Prelude.thy ===== *)
theory Warp_Prelude
  imports Main "HOL-Library.Word"
begin

text \<open>
  Shared vocabulary of the development: bytes and Go strings, the result type of Go code
  that can fail or panic, checked indexing and slicing, big-endian 16-bit integers, decimal
  printing and parsing of integers, and the generic list lemmas the components use.

  A Go string is a sequence of bytes; it is modelled by \<^typ>\<open>string\<close>, whose characters are
  bytes. A byte slice is a list of \<open>8 word\<close>.
\<close>

unbundle bit_operations_syntax

type_synonym byte = "8 word"
type_synonym bytes = "8 word list"

named_theorems go_simps "unfolding rules for the control flow of the modelled Go code"
named_theorems wire_simps "lengths and digits of encoded wire data"

section \<open>Results of Go functions\<close>

text \<open>
  A Go function with an \<open>error\<close> result returns a value or an error; besides, an
  out-of-range index panics, which nothing in the program recovers from. The third
  constructor makes a panic a value, so that its absence is something to prove.
\<close>

datatype ('e, 'a) gores = Ok 'a | Err 'e | Panic

fun gobind :: "('e, 'a) gores \<Rightarrow> ('a \<Rightarrow> ('e, 'b) gores) \<Rightarrow> ('e, 'b) gores" where
  "gobind (Ok x) f = f x"
| "gobind (Err e) f = Err e"
| "gobind Panic f = Panic"

declare gobind.simps [go_simps]

lemma gobind_Ok_iff: "gobind m f = Ok y \<longleftrightarrow> (\<exists>x. m = Ok x \<and> f x = Ok y)"
  by (cases m) auto

lemma gobind_Panic_iff: "gobind m f = Panic \<longleftrightarrow> m = Panic \<or> (\<exists>x. m = Ok x \<and> f x = Panic)"
  by (cases m) auto

text \<open>Reading \<open>xs[i]\<close> and slicing \<open>xs[a:b]\<close>. A slice expression of Go may reach up to the
  capacity; the modelled code never relies on that, and the model is strict: it panics
  already past the length. Where a theorem says there is no panic, the Go code has none
  either.\<close>

definition idx :: "'a list \<Rightarrow> nat \<Rightarrow> ('e, 'a) gores" where
  "idx xs i = (if i < length xs then Ok (xs ! i) else Panic)"

definition slice :: "'a list \<Rightarrow> nat \<Rightarrow> nat \<Rightarrow> ('e, 'a list) gores" where
  "slice xs a b = (if a \<le> b \<and> b \<le> length xs then Ok (take (b - a) (drop a xs)) else Panic)"

lemma idx_in [simp]: "i < length xs \<Longrightarrow> idx xs i = Ok (xs ! i)"
  by (simp add: idx_def)

lemma idx_out: "length xs \<le> i \<Longrightarrow> idx xs i = Panic"
  by (simp add: idx_def)

lemma slice_in [simp]:
  "a \<le> b \<Longrightarrow> b \<le> length xs \<Longrightarrow> slice xs a b = Ok (take (b - a) (drop a xs))"
  by (simp add: slice_def)

section \<open>Strings and bytes\<close>

definition str_of_bytes :: "bytes \<Rightarrow> string" where
  "str_of_bytes bs = map (\<lambda>b. char_of (unat b)) bs"

definition bytes_of_str :: "string \<Rightarrow> bytes" where
  "bytes_of_str s = map (\<lambda>c. word_of_nat (of_char c)) s"

lemma unat_byte_less: "unat (b :: byte) < 256"
  using unsigned_less [of b, where ?'a = nat] by simp

lemma of_char_less_256 [simp]: "(of_char c :: nat) < 256"
proof -
  have "of_char c mod 256 = (of_char c :: nat)" by (simp add: of_char_mod_256)
  then show ?thesis by (metis mod_less_divisor zero_less_numeral)
qed

lemma unat_of_nat_byte [simp]: "n < 256 \<Longrightarrow> unat (word_of_nat n :: byte) = n"
  by (simp add: unat_of_nat)

lemma str_of_bytes_length [simp, wire_simps]: "length (str_of_bytes bs) = length bs"
  by (simp add: str_of_bytes_def)

lemma bytes_of_str_length [simp, wire_simps]: "length (bytes_of_str s) = length s"
  by (simp add: bytes_of_str_def)

lemma bytes_of_str_of_bytes [simp]: "bytes_of_str (str_of_bytes bs) = bs"
  by (simp add: bytes_of_str_def str_of_bytes_def o_def map_idI unat_byte_less)

lemma str_of_bytes_of_str [simp]: "str_of_bytes (bytes_of_str s) = s"
  by (simp add: bytes_of_str_def str_of_bytes_def o_def map_idI)

lemma str_of_bytes_inject [simp]: "str_of_bytes a = str_of_bytes b \<longleftrightarrow> a = b"
  by (metis bytes_of_str_of_bytes)

lemma bytes_of_str_inject [simp]: "bytes_of_str a = bytes_of_str b \<longleftrightarrow> a = b"
  by (metis str_of_bytes_of_str)

lemma bytes_of_str_Nil [simp]: "bytes_of_str s = [] \<longleftrightarrow> s = []"
  by (simp add: bytes_of_str_def)

section \<open>Big-endian 16-bit integers\<close>

text \<open>\<open>binary.BigEndian.AppendUint16(b, v)\<close> appends \<open>byte(v >> 8), byte(v)\<close>;
  \<open>binary.BigEndian.Uint16(b)\<close> is \<open>uint16(b[1]) | uint16(b[0])<<8\<close>.\<close>

definition be16 :: "16 word \<Rightarrow> bytes" where
  "be16 v = [ucast (drop_bit 8 v), ucast v]"

definition beUint16 :: "byte \<Rightarrow> byte \<Rightarrow> 16 word" where
  "beUint16 hi lo = ucast lo OR push_bit 8 (ucast hi)"

text \<open>The same value computed on Go's 64-bit \<open>int\<close>: \<open>int(hi)<<8 | int(lo)\<close>.\<close>

definition beInt :: "byte \<Rightarrow> byte \<Rightarrow> nat" where
  "beInt hi lo = unat (push_bit 8 (ucast hi :: 64 word) OR ucast lo)"

lemma be16_length [simp, wire_simps]: "length (be16 v) = 2"
  by (simp add: be16_def)

lemma push_or_nat: "y < 256 \<Longrightarrow> (push_bit 8 x OR y :: nat) = 256 * x + y"
proof -
  assume y: "y < 256"
  have "push_bit 8 x AND y = (0 :: nat)"
  proof (rule bit_eqI)
    fix n show "bit (push_bit 8 x AND y) n \<longleftrightarrow> bit (0 :: nat) n"
    proof (cases "n < 8")
      case True
      then show ?thesis by (simp add: bit_simps)
    next
      case False
      then have "(2 :: nat) ^ 8 \<le> 2 ^ n" by (intro power_increasing) auto
      with y have "y < 2 ^ n" by simp
      then have "\<not> bit y n" by (simp add: bit_iff_odd)
      then show ?thesis by (simp add: bit_simps)
    qed
  qed
  then have "push_bit 8 x + y = push_bit 8 x OR y" by (rule disjunctive_add_eq_or)
  then show ?thesis by (simp add: push_bit_eq_mult)
qed

lemma beInt_eq [wire_simps]: "beInt hi lo = 256 * unat hi + unat lo"
proof -
  have "take_bit 64 (push_bit 8 (unat hi)) = push_bit 8 (unat hi)"
    using unat_byte_less [of hi] by (intro take_bit_nat_eq_self) (simp add: push_bit_eq_mult)
  moreover have "take_bit 64 (unat hi) = unat hi" "take_bit 64 (unat lo) = unat lo"
    using unat_byte_less [of hi] unat_byte_less [of lo]
    by (auto intro!: take_bit_nat_eq_self)
  ultimately show ?thesis
    by (simp add: beInt_def unsigned_or_eq unsigned_push_bit_eq unsigned_ucast_eq push_or_nat
        unat_byte_less)
qed

lemma unat_beUint16 [wire_simps]: "unat (beUint16 hi lo) = 256 * unat hi + unat lo"
proof -
  have "take_bit 16 (push_bit 8 (unat hi)) = push_bit 8 (unat hi)"
    using unat_byte_less [of hi] by (intro take_bit_nat_eq_self) (simp add: push_bit_eq_mult)
  moreover have "take_bit 16 (unat hi) = unat hi" "take_bit 16 (unat lo) = unat lo"
    using unat_byte_less [of hi] unat_byte_less [of lo]
    by (auto intro!: take_bit_nat_eq_self)
  ultimately show ?thesis
    by (simp add: beUint16_def unsigned_or_eq unsigned_push_bit_eq unsigned_ucast_eq push_or_nat
        or.commute [of "unat lo"] unat_byte_less)
qed

lemma beInt_less: "beInt hi lo < 65536"
  using unat_byte_less [of hi] unat_byte_less [of lo] by (simp add: beInt_eq)

lemma beInt_beUint16: "beInt hi lo = unat (beUint16 hi lo)"
  by (simp add: beInt_eq unat_beUint16)

lemma be16_unat: "map unat (be16 v) = [unat v div 256, unat v mod 256]"
proof -
  have v: "unat v < 65536" using unsigned_less [of v, where ?'a = nat] by simp
  then have "unat v div 256 < 256" by simp
  moreover have "unat (drop_bit 8 v) = unat v div 256"
    using v by (simp only: unsigned_drop_bit_eq) (simp add: drop_bit_eq_div take_bit_eq_mod)
  ultimately show ?thesis by (simp add: be16_def unsigned_ucast_eq take_bit_eq_mod)
qed

lemma beUint16_be16 [simp]: "beUint16 (be16 v ! 0) (be16 v ! 1) = v"
proof (rule word_unat_eq_iff [THEN iffD2])
  have "unat (be16 v ! 0) = unat v div 256" "unat (be16 v ! 1) = unat v mod 256"
    using be16_unat [of v] by (simp_all add: be16_def)
  then show "unat (beUint16 (be16 v ! 0) (be16 v ! 1)) = unat v"
    by (simp add: unat_beUint16)
qed

lemma be16_beUint16 [simp]: "be16 (beUint16 hi lo) = [hi, lo]"
proof -
  have "map unat (be16 (beUint16 hi lo)) = map unat [hi, lo]"
    using unat_byte_less [of lo] by (simp add: be16_unat unat_beUint16)
  then show ?thesis by (simp add: be16_def word_unat_eq_iff [of _ hi] word_unat_eq_iff [of _ lo])
qed

section \<open>Decimal integers\<close>

text \<open>\<open>strconv.Itoa\<close> (and \<open>fmt.Sprint\<close> of an unsigned integer) on non-negative values, and
  \<open>strconv.Atoi\<close>: an optional sign, at least one digit, nothing else, and a value that fits
  Go's 64-bit \<open>int\<close>; otherwise an error.\<close>

definition digit_char :: "nat \<Rightarrow> char" where
  "digit_char d = char_of (48 + d)"

fun itoa :: "nat \<Rightarrow> string" where
  "itoa n = (if n < 10 then [digit_char n] else itoa (n div 10) @ [digit_char (n mod 10)])"

declare itoa.simps [simp del]

definition is_digit :: "char \<Rightarrow> bool" where
  "is_digit c \<longleftrightarrow> 48 \<le> (of_char c :: nat) \<and> (of_char c :: nat) \<le> 57"

definition digit_val :: "char \<Rightarrow> nat" where
  "digit_val c = of_char c - 48"

definition dec_value :: "string \<Rightarrow> nat" where
  "dec_value s = foldl (\<lambda>v c. 10 * v + digit_val c) 0 s"

definition atoi :: "string \<Rightarrow> int option" where
  "atoi s =
    (let (neg, ds) = (case s of [] \<Rightarrow> (False, [])
                      | c # cs \<Rightarrow> if c = CHR ''-'' then (True, cs)
                                  else if c = CHR ''+'' then (False, cs) else (False, s))
     in if ds = [] \<or> \<not> list_all is_digit ds then None
        else let v = (if neg then - int (dec_value ds) else int (dec_value ds))
             in if v < - (2 ^ 63) \<or> v \<ge> 2 ^ 63 then None else Some v)"

lemma is_digit_digit_char [simp]: "d < 10 \<Longrightarrow> is_digit (digit_char d)"
  by (simp add: is_digit_def digit_char_def take_bit_eq_mod)

lemma digit_val_digit_char [simp]: "d < 10 \<Longrightarrow> digit_val (digit_char d) = d"
  by (simp add: digit_val_def digit_char_def take_bit_eq_mod)

lemma itoa_digits: "list_all is_digit (itoa n)"
  by (induction n rule: itoa.induct) (subst itoa.simps, simp)

lemma itoa_nonempty [simp]: "itoa n \<noteq> []"
  by (subst itoa.simps) simp

lemma dec_value_itoa [simp]: "dec_value (itoa n) = n"
proof (induction n rule: itoa.induct)
  case (1 n)
  show ?case
  proof (cases "n < 10")
    case True
    then show ?thesis by (subst itoa.simps) (simp add: dec_value_def)
  next
    case False
    with 1 have "dec_value (itoa (n div 10)) = n div 10" by simp
    with False show ?thesis by (subst itoa.simps) (simp add: dec_value_def)
  qed
qed

lemma is_digit_not_special:
  assumes "is_digit c"
  shows "c \<noteq> CHR '':''" "c \<noteq> CHR ''[''" "c \<noteq> CHR '']''" "c \<noteq> CHR ''+''" "c \<noteq> CHR ''-''"
    "c \<noteq> CHR ''.''" "c \<noteq> CHR ''%''"
  using assms by (auto simp: is_digit_def)

lemma itoa_set_digit: "c \<in> set (itoa n) \<Longrightarrow> is_digit c"
  using itoa_digits [of n] by (simp add: list_all_iff)

lemma itoa_no_special [simp]:
  "CHR '':'' \<notin> set (itoa n)" "CHR ''['' \<notin> set (itoa n)" "CHR '']'' \<notin> set (itoa n)"
  "CHR ''.'' \<notin> set (itoa n)" "CHR ''%'' \<notin> set (itoa n)"
  using is_digit_not_special itoa_set_digit by blast+

lemma itoa_inject [simp]: "itoa a = itoa b \<longleftrightarrow> a = b"
  by (metis dec_value_itoa)

lemma atoi_digits:
  assumes "ds \<noteq> []" "list_all is_digit ds" "dec_value ds < 2 ^ 63"
  shows "atoi ds = Some (int (dec_value ds))"
proof (cases ds)
  case (Cons c cs)
  with assms have "is_digit c" by simp
  then have "c \<noteq> CHR ''-''" "c \<noteq> CHR ''+''" using is_digit_not_special by blast+
  then have "atoi ds = (if int (dec_value ds) < - (2 ^ 63) \<or> int (dec_value ds) \<ge> 2 ^ 63
                        then None else Some (int (dec_value ds)))"
    using assms(2) by (simp add: atoi_def Cons)
  moreover have "\<not> int (dec_value ds) < - (2 ^ 63)" by simp
  moreover have "\<not> int (dec_value ds) \<ge> 2 ^ 63" using assms(3) by simp
  ultimately show ?thesis by presburger
qed (use assms in simp)

lemma atoi_itoa [simp]: "n < 2 ^ 63 \<Longrightarrow> atoi (itoa n) = Some (int n)"
  using atoi_digits [of "itoa n"] itoa_digits [of n] by simp

section \<open>Searching a byte in a string\<close>

text \<open>\<open>strings.IndexByte\<close> and \<open>strings.LastIndexByte\<close>, with \<^const>\<open>None\<close> for \<open>-1\<close>.\<close>

fun index_byte :: "char \<Rightarrow> string \<Rightarrow> nat option" where
  "index_byte c [] = None"
| "index_byte c (x # xs) = (if x = c then Some 0 else map_option Suc (index_byte c xs))"

fun last_index_byte :: "char \<Rightarrow> string \<Rightarrow> nat option" where
  "last_index_byte c [] = None"
| "last_index_byte c (x # xs) =
     (case last_index_byte c xs of Some i \<Rightarrow> Some (Suc i) | None \<Rightarrow> if x = c then Some 0 else None)"

lemma index_byte_None [simp]: "index_byte c s = None \<longleftrightarrow> c \<notin> set s"
  by (induction s) auto

lemma index_byte_append: "c \<notin> set a \<Longrightarrow> index_byte c (a @ c # b) = Some (length a)"
  by (induction a) auto

lemma last_index_byte_None [simp]: "last_index_byte c s = None \<longleftrightarrow> c \<notin> set s"
  by (induction s) (auto split: option.splits)

lemma last_index_byte_append: "c \<notin> set b \<Longrightarrow> last_index_byte c (a @ c # b) = Some (length a)"
proof (induction a)
  case Nil
  then show ?case by (auto split: option.splits)
qed simp

end
