(* ===== verification/Go_Net.thy ===== *)
theory Go_Net
  imports Warp_Prelude
begin

text \<open>
  The host:port strings of Go's package \<open>net\<close>: \<open>net.JoinHostPort\<close> and
  \<open>net.SplitHostPort\<close>, statement by statement, and the laws that connect them. Every
  target address of the program crosses this pair: the SOCKS5 parsers join, the
  resolvers split. The interface \<open>host_port\<close> states what the clients of the pair rely on.
\<close>

definition joinHostPort :: "string \<Rightarrow> string \<Rightarrow> string" where
  "joinHostPort host port =
     (if index_byte CHR '':'' host \<noteq> None then ''['' @ host @ '']:'' @ port
      else host @ '':'' @ port)"

datatype addr_error =
    MissingPort | MissingCloseBracket | TooManyColons | UnexpectedOpen | UnexpectedClose

text \<open>The end of \<open>SplitHostPort\<close>, shared by its two branches: \<open>j\<close> and \<open>k\<close> are the positions
  before which no opening and no closing bracket can occur, \<open>i\<close> the last colon.\<close>

definition split_finish ::
    "string \<Rightarrow> string \<Rightarrow> nat \<Rightarrow> nat \<Rightarrow> nat \<Rightarrow> addr_error + (string \<times> string)" where
  "split_finish hostport host j k i =
     (if index_byte CHR ''['' (drop j hostport) \<noteq> None then Inl UnexpectedOpen
      else if index_byte CHR '']'' (drop k hostport) \<noteq> None then Inl UnexpectedClose
      else Inr (host, drop (i + 1) hostport))"

definition splitHostPort :: "string \<Rightarrow> addr_error + (string \<times> string)" where
  "splitHostPort hostport =
     (case last_index_byte CHR '':'' hostport of
        None \<Rightarrow> Inl MissingPort
      | Some i \<Rightarrow>
          if hostport ! 0 = CHR ''['' then
            (case index_byte CHR '']'' hostport of
               None \<Rightarrow> Inl MissingCloseBracket
             | Some e \<Rightarrow>
                 if e + 1 = length hostport then Inl MissingPort
                 else if e + 1 = i then
                   split_finish hostport (take (e - 1) (drop 1 hostport)) 1 (e + 1) i
                 else if hostport ! (e + 1) = CHR '':'' then Inl TooManyColons
                 else Inl MissingPort)
          else
            let host = take i hostport in
              if index_byte CHR '':'' host \<noteq> None then Inl TooManyColons
              else split_finish hostport host 0 0 i)"

text \<open>The hosts and ports that survive a round trip: no brackets in the host, neither
  brackets nor a colon in the port.\<close>

definition host_ok :: "string \<Rightarrow> bool" where
  "host_ok h \<longleftrightarrow> CHR ''['' \<notin> set h \<and> CHR '']'' \<notin> set h"

definition port_ok :: "string \<Rightarrow> bool" where
  "port_ok p \<longleftrightarrow> CHR '':'' \<notin> set p \<and> CHR ''['' \<notin> set p \<and> CHR '']'' \<notin> set p"

lemma port_ok_itoa [simp]: "port_ok (itoa n)"
  by (simp add: port_ok_def)

lemma split_join_plain:
  assumes "CHR '':'' \<notin> set h" "host_ok h" "port_ok p"
  shows "splitHostPort (h @ '':'' @ p) = Inr (h, p)"
proof -
  have last: "last_index_byte CHR '':'' (h @ '':'' @ p) = Some (length h)"
    using assms last_index_byte_append [of "CHR '':''" p h] by (simp add: port_ok_def)
  have "(h @ '':'' @ p) ! 0 \<noteq> CHR ''[''"
    using assms by (cases h) (auto simp: host_ok_def)
  with last show ?thesis
    using assms by (simp add: splitHostPort_def split_finish_def host_ok_def port_ok_def)
qed

lemma split_join_bracketed:
  assumes "host_ok h" "port_ok p"
  shows "splitHostPort (''['' @ h @ '']:'' @ p) = Inr (h, p)"
proof -
  let ?s = "CHR ''['' # h @ CHR '']'' # CHR '':'' # p"
  have last: "last_index_byte CHR '':'' ?s = Some (length h + 2)"
    using assms last_index_byte_append [of "CHR '':''" p "CHR ''['' # h @ [CHR '']'']"]
    by (simp add: port_ok_def)
  have close: "index_byte CHR '']'' ?s = Some (length h + 1)"
    using assms index_byte_append [of "CHR '']''" "CHR ''['' # h" "CHR '':'' # p"]
    by (simp add: host_ok_def)
  show ?thesis
    using assms
    by (simp add: splitHostPort_def last close split_finish_def host_ok_def port_ok_def
        del: last_index_byte.simps index_byte.simps)
qed

lemma split_join:
  "host_ok h \<Longrightarrow> port_ok p \<Longrightarrow> splitHostPort (joinHostPort h p) = Inr (h, p)"
  using split_join_plain [of h p] split_join_bracketed [of h p] by (simp add: joinHostPort_def)

text \<open>Conversely a successful split names a host and a port that may be joined again, to
  the input or to its form with canonical brackets.\<close>

lemma split_finish_Inr:
  "split_finish s host j k i = Inr (h, p) \<longleftrightarrow>
     CHR ''['' \<notin> set (drop j s) \<and> CHR '']'' \<notin> set (drop k s) \<and> h = host \<and> p = drop (i + 1) s"
  by (auto simp: split_finish_def)

lemma last_index_byte_Some:
  "last_index_byte c s = Some i \<longleftrightarrow> i < length s \<and> s ! i = c \<and> c \<notin> set (drop (i + 1) s)"
proof (induction s arbitrary: i)
  case (Cons x xs)
  have inside: "c \<in> set xs" if "last_index_byte c xs = Some m" for m
    using that last_index_byte_None [of c xs] by (metis option.distinct(1))
  show ?case
  proof (cases i)
    case 0
    with inside show ?thesis by (auto split: option.splits)
  next
    case (Suc k)
    have "last_index_byte c (x # xs) = Some (Suc k) \<longleftrightarrow> last_index_byte c xs = Some k"
      using inside by (auto split: option.splits)
    with Suc Cons.IH [of k] show ?thesis by simp
  qed
qed simp

lemma index_byte_Some:
  "index_byte c s = Some i \<longleftrightarrow> i < length s \<and> s ! i = c \<and> c \<notin> set (take i s)"
proof (induction s arbitrary: i)
  case (Cons x xs)
  show ?case by (cases i) (auto simp: Cons.IH)
qed simp

text \<open>What a successful split returns can be joined and split again.\<close>

lemma splitHostPort_ok:
  assumes "splitHostPort s = Inr (h, p)"
  shows "host_ok h \<and> port_ok p"
proof -
  obtain i where i: "last_index_byte CHR '':'' s = Some i"
    using assms by (auto simp: splitHostPort_def split: option.splits)
  then have colon: "CHR '':'' \<notin> set (drop (i + 1) s)" and il: "i < length s"
    by (simp_all add: last_index_byte_Some)
  show ?thesis
  proof (cases "s ! 0 = CHR ''[''")
    case True
    obtain e where e: "index_byte CHR '']'' s = Some e" and ei: "e + 1 = i"
      and fin: "split_finish s (take (e - 1) (drop 1 s)) 1 (e + 1) i = Inr (h, p)"
      using assms True unfolding splitHostPort_def i
      by (simp split: option.splits if_splits)
    from fin have f: "CHR ''['' \<notin> set (drop 1 s)" "CHR '']'' \<notin> set (drop (e + 1) s)"
      "h = take (e - 1) (drop 1 s)" "p = drop (i + 1) s"
      by (simp_all add: split_finish_Inr)
    from e have close: "CHR '']'' \<notin> set (take e s)" by (simp add: index_byte_Some)
    have "h = drop 1 (take e s)" using f(3) by (simp add: drop_take)
    then have "set h \<subseteq> set (take e s)" by (simp add: set_drop_subset)
    moreover have "set h \<subseteq> set (drop 1 s)" using f(3) by (simp add: set_take_subset)
    moreover have "set p \<subseteq> set (drop 1 s)" "set p \<subseteq> set (drop (e + 1) s)"
      using f(4) ei set_drop_subset_set_drop [of 1 "i + 1" s]
        set_drop_subset_set_drop [of "e + 1" "i + 1" s] by simp_all
    ultimately have "CHR ''['' \<notin> set h" "CHR '']'' \<notin> set h" "CHR ''['' \<notin> set p"
      "CHR '']'' \<notin> set p"
      using f(1,2) close by blast+
    then show ?thesis using f(4) colon by (simp add: host_ok_def port_ok_def)
  next
    case False
    with assms i have "split_finish s (take i s) 0 0 i = Inr (h, p)"
      by (auto simp: splitHostPort_def Let_def split: if_splits)
    then have f: "CHR ''['' \<notin> set s" "CHR '']'' \<notin> set s" "h = take i s" "p = drop (i + 1) s"
      by (simp_all add: split_finish_Inr)
    then show ?thesis
      using colon by (auto simp: host_ok_def port_ok_def dest: in_set_takeD in_set_dropD)
  qed
qed

section \<open>The interface of host:port strings\<close>

locale host_port =
  fixes join :: "string \<Rightarrow> string \<Rightarrow> string"
    and split :: "string \<Rightarrow> 'e + (string \<times> string)"
    and hok :: "string \<Rightarrow> bool"
    and pok :: "string \<Rightarrow> bool"
  assumes split_of_join: "hok h \<Longrightarrow> pok p \<Longrightarrow> split (join h p) = Inr (h, p)"
    and split_fine: "split s = Inr (h, p) \<Longrightarrow> hok h \<and> pok p"
begin

text \<open>Joining the parts of a target again normalises it: the result splits to the same parts,
  and normalising twice changes nothing.\<close>

lemma rejoin: "split s = Inr (h, p) \<Longrightarrow> split (join h p) = Inr (h, p)"
  using split_of_join split_fine by blast

lemma join_inject:
  assumes "hok h" "pok p" "hok h'" "pok p'"
  shows "join h p = join h' p' \<longleftrightarrow> h = h' \<and> p = p'"
  using split_of_join [OF assms(1,2)] split_of_join [OF assms(3,4)]
  by (metis prod.inject sum.inject(2))

end

interpretation net: host_port joinHostPort splitHostPort host_ok port_ok
  by unfold_locales (use split_join splitHostPort_ok in blast)+

end
