(* ===== verification/Go_IP.thy ===== *)
theory Go_IP
  imports Go_Net
begin

text \<open>
  Go's \<open>net.IP\<close>: a slice of 4 or 16 bytes, the empty list standing for \<open>nil\<close>. The theory
  holds \<open>To4\<close>, \<open>To16\<close>, \<open>Equal\<close>, the text form (\<open>IP.String\<close>, which prints an IPv4-mapped
  address in dotted form and compresses the longest run of zero groups of an IPv6
  address) and the parser behind \<open>net.ParseIP\<close> and \<open>netip.ParseAddr\<close>, and proves that the
  parser reads back what the printer writes. That round trip is why an address literal in
  a SOCKS5 request never reaches a resolver.
\<close>

type_synonym ip = bytes

section \<open>Four-byte and sixteen-byte forms\<close>

definition v4InV6Prefix :: bytes where
  "v4InV6Prefix = [0, 0, 0, 0, 0, 0, 0, 0, 0, 0, 0xff, 0xff]"

definition to4 :: "ip \<Rightarrow> ip option" where
  "to4 ip =
     (if length ip = 4 then Some ip
      else if length ip = 16 \<and> list_all (\<lambda>b. b = 0) (take 10 ip) \<and> ip ! 10 = 0xff \<and> ip ! 11 = 0xff
      then Some (drop 12 ip)
      else None)"

definition to16 :: "ip \<Rightarrow> ip option" where
  "to16 ip =
     (if length ip = 4 then Some (v4InV6Prefix @ ip)
      else if length ip = 16 then Some ip
      else None)"

definition ip_equal :: "ip \<Rightarrow> ip \<Rightarrow> bool" where
  "ip_equal ip x =
     (if length ip = length x then ip = x
      else if length ip = 4 \<and> length x = 16 then take 12 x = v4InV6Prefix \<and> ip = drop 12 x
      else if length ip = 16 \<and> length x = 4 then take 12 ip = v4InV6Prefix \<and> drop 12 ip = x
      else False)"

definition valid_ip :: "ip \<Rightarrow> bool" where
  "valid_ip ip \<longleftrightarrow> length ip = 4 \<or> length ip = 16"

lemma v4InV6Prefix_length [simp]: "length v4InV6Prefix = 12"
  by (simp add: v4InV6Prefix_def)

lemma to4_length: "to4 ip = Some v \<Longrightarrow> length v = 4"
  by (auto simp: to4_def split: if_splits)

lemma to16_length: "to16 ip = Some v \<Longrightarrow> length v = 16"
  by (auto simp: to16_def split: if_splits)

lemma to16_Some_iff: "(\<exists>v. to16 ip = Some v) \<longleftrightarrow> valid_ip ip"
  by (auto simp: to16_def valid_ip_def)

lemma length_16_cases:
  assumes "length ip = 16"
  obtains a where "ip = a" and "take 12 ip @ drop 12 ip = a" and "length (drop 12 ip) = 4"
  using assms that by simp

lemma length_12_eq:
  assumes "length p = 12" "list_all (\<lambda>b. b = (0 :: byte)) (take 10 p)" "p ! 10 = 0xff" "p ! 11 = 0xff"
  shows "p = v4InV6Prefix"
proof -
  obtain a b c d e f g h i j k l where "p = [a, b, c, d, e, f, g, h, i, j, k, l]"
    using assms(1) by (auto simp: numeral_eq_Suc length_Suc_conv)
  with assms show ?thesis by (simp add: v4InV6Prefix_def)
qed

text \<open>A 16-byte address is IPv4-mapped exactly when its first 12 bytes are the prefix.\<close>

lemma to4_16:
  assumes "length ip = 16"
  shows "to4 ip = (if take 12 ip = v4InV6Prefix then Some (drop 12 ip) else None)"
proof (cases "take 12 ip = v4InV6Prefix")
  case True
  have "take 10 ip = take 10 (take 12 ip)" "ip ! 10 = take 12 ip ! 10" "ip ! 11 = take 12 ip ! 11"
    by simp_all
  then have "list_all (\<lambda>b. b = 0) (take 10 ip)" "ip ! 10 = 0xff" "ip ! 11 = 0xff"
    unfolding True by (simp_all add: v4InV6Prefix_def)
  with True assms show ?thesis by (simp add: to4_def)
next
  case False
  have "length (take 12 ip) = 12" using assms by simp
  with False length_12_eq [of "take 12 ip"]
  have "\<not> (list_all (\<lambda>b. b = 0) (take 10 ip) \<and> ip ! 10 = 0xff \<and> ip ! 11 = 0xff)" by auto
  with False assms show ?thesis by (simp add: to4_def)
qed

text \<open>\<open>Equal\<close> identifies an IPv4 address with its mapped form, and nothing else.\<close>

lemma ip_equal_iff:
  assumes "valid_ip a" "valid_ip b"
  shows "ip_equal a b \<longleftrightarrow> to16 a = to16 b"
proof -
  have *: "take 12 x = v4InV6Prefix \<and> y = drop 12 x \<longleftrightarrow> v4InV6Prefix @ y = x" if "length x = 16"
    for x y :: ip
    by (metis append_eq_conv_conj append_take_drop_id v4InV6Prefix_length)
  show ?thesis
    using assms * [of b a] * [of a b] by (auto simp: ip_equal_def to16_def valid_ip_def)
qed

lemma ip_equal_refl [simp]: "ip_equal a a"
  by (simp add: ip_equal_def)

lemma ip_equal_sym: "ip_equal a b \<longleftrightarrow> ip_equal b a"
  by (auto simp: ip_equal_def)

lemma to4_mapped [simp]: "length ip = 4 \<Longrightarrow> to4 (v4InV6Prefix @ ip) = Some ip"
  by (subst to4_16) simp_all

lemma to4_four [simp]: "length ip = 4 \<Longrightarrow> to4 ip = Some ip"
  by (simp add: to4_def)

lemma to4_to16:
  assumes "to16 ip = Some v"
  shows "to4 v = to4 ip"
  using assms by (auto simp: to16_def split: if_splits)

section \<open>Text form\<close>

text \<open>\<open>netip.Addr.String\<close>: dotted decimal for IPv4; for IPv6 eight hexadecimal groups without
  leading zeros, the first longest run of at least two zero groups written as \<open>::\<close>.\<close>

definition ipv4_string :: "ip \<Rightarrow> string" where
  "ipv4_string ip =
     itoa (unat (ip ! 0)) @ ''.'' @ itoa (unat (ip ! 1)) @ ''.'' @
     itoa (unat (ip ! 2)) @ ''.'' @ itoa (unat (ip ! 3))"

definition hex_char :: "nat \<Rightarrow> char" where
  "hex_char d = (if d < 10 then char_of (48 + d) else char_of (87 + d))"

definition append_hex :: "nat \<Rightarrow> string" where
  "append_hex x =
     (if x \<ge> 0x1000 then [hex_char (x div 0x1000)] else []) @
     (if x \<ge> 0x100 then [hex_char (x div 0x100 mod 16)] else []) @
     (if x \<ge> 0x10 then [hex_char (x div 0x10 mod 16)] else []) @
     [hex_char (x mod 16)]"

fun groups_of :: "bytes \<Rightarrow> nat list" where
  "groups_of (a # b # bs) = (256 * unat a + unat b) # groups_of bs"
| "groups_of bs = []"

fun bytes_of_groups :: "nat list \<Rightarrow> bytes" where
  "bytes_of_groups [] = []"
| "bytes_of_groups (g # gs) = word_of_nat (g div 256) # word_of_nat (g mod 256) # bytes_of_groups gs"

definition zero_run :: "nat list \<Rightarrow> nat" where
  "zero_run gs = length (takeWhile (\<lambda>g. g = 0) gs)"

text \<open>The scan for the run to compress: \<open>i\<close> is the group's index, \<open>(s, e)\<close> the best run so far,
  \<open>(255, 255)\<close> at the start.\<close>

fun best_run :: "nat \<Rightarrow> nat list \<Rightarrow> nat \<times> nat \<Rightarrow> nat \<times> nat" where
  "best_run i [] se = se"
| "best_run i (g # gs) se =
     (let l = zero_run (g # gs)
      in best_run (i + 1) gs (if l \<ge> 2 \<and> l > snd se - fst se then (i, i + l) else se))"

fun join_groups :: "nat list \<Rightarrow> string" where
  "join_groups [] = []"
| "join_groups [g] = append_hex g"
| "join_groups (g # gs) = append_hex g @ CHR '':'' # join_groups gs"

definition ipv6_string :: "nat list \<Rightarrow> string" where
  "ipv6_string gs =
     (let (s, e) = best_run 0 gs (255, 255)
      in if s = 255 then join_groups gs
         else join_groups (take s gs) @ ''::'' @ join_groups (drop e gs))"

text \<open>\<open>IP.String\<close>: \<open>"<nil>"\<close> for \<open>nil\<close>, \<open>"?"\<close> and the hexadecimal bytes for a slice of a wrong
  length.\<close>

definition hex_string :: "bytes \<Rightarrow> string" where
  "hex_string bs = concat (map (\<lambda>b. [hex_char (unat b div 16), hex_char (unat b mod 16)]) bs)"

definition ip_string :: "ip \<Rightarrow> string" where
  "ip_string ip =
     (if ip = [] then ''<nil>''
      else if length ip \<noteq> 4 \<and> length ip \<noteq> 16 then ''?'' @ hex_string ip
      else case to4 ip of Some p4 \<Rightarrow> ipv4_string p4 | None \<Rightarrow> ipv6_string (groups_of ip))"

section \<open>Parsing\<close>

text \<open>\<open>netip.parseIPv4Fields\<close>. The flag \<open>sep\<close> holds at the start of the input and right after
  a dot, where a dot may not follow.\<close>

fun ipv4_fields :: "string \<Rightarrow> bool \<Rightarrow> nat \<Rightarrow> nat \<Rightarrow> nat list \<Rightarrow> nat list option" where
  "ipv4_fields [] sep val digLen fields =
     (if length fields < 3 then None else Some (fields @ [val]))"
| "ipv4_fields (c # cs) sep val digLen fields =
     (if is_digit c then
        (if digLen = 1 \<and> val = 0 then None
         else let val' = 10 * val + digit_val c
              in if val' > 255 then None else ipv4_fields cs False val' (digLen + 1) fields)
      else if c = CHR ''.'' then
        (if sep \<or> cs = [] then None
         else if length fields = 3 then None
         else ipv4_fields cs True 0 0 (fields @ [val]))
      else None)"

text \<open>An address as \<open>netip.Addr\<close> has it: 4 bytes, or 16 bytes and a zone.\<close>

datatype addr = Addr4 bytes | Addr6 bytes string

definition parse_ipv4 :: "string \<Rightarrow> addr option" where
  "parse_ipv4 s = map_option (\<lambda>fs. Addr4 (map word_of_nat fs)) (ipv4_fields s True 0 0 [])"

definition is_hex :: "char \<Rightarrow> bool" where
  "is_hex c \<longleftrightarrow> is_digit c \<or> 97 \<le> (of_char c :: nat) \<and> (of_char c :: nat) \<le> 102
     \<or> 65 \<le> (of_char c :: nat) \<and> (of_char c :: nat) \<le> 70"

definition hex_val :: "char \<Rightarrow> nat" where
  "hex_val c = (if is_digit c then of_char c - 48
                else if (of_char c :: nat) \<ge> 97 then of_char c - 87 else of_char c - 55)"

definition hex_value :: "string \<Rightarrow> nat" where
  "hex_value s = foldl (\<lambda>v c. 16 * v + hex_val c) 0 s"

text \<open>The loop of \<open>netip.parseIPv6\<close>: the first argument counts the groups that still fit, \<open>gs\<close>
  holds the groups read, \<open>ell\<close> the position of \<open>::\<close> among them.\<close>

fun parse6_loop ::
    "nat \<Rightarrow> nat list \<Rightarrow> nat option \<Rightarrow> string \<Rightarrow> (nat list \<times> nat option \<times> string) option" where
  "parse6_loop 0 gs ell s = Some (gs, ell, s)"
| "parse6_loop (Suc k) gs ell s =
     (let ds = takeWhile is_hex s; rest = dropWhile is_hex s
      in if length ds > 4 \<or> ds = [] then None
         else if rest \<noteq> [] \<and> hd rest = CHR ''.'' then
           (if ell = None \<and> length gs \<noteq> 6 then None
            else if length gs > 6 then None
            else case ipv4_fields s True 0 0 [] of
                   Some [a, b, c, d] \<Rightarrow> Some (gs @ [256 * a + b, 256 * c + d], ell, [])
                 | _ \<Rightarrow> None)
         else
           let gs' = gs @ [hex_value ds]
           in case rest of
                [] \<Rightarrow> Some (gs', ell, [])
              | c # s1 \<Rightarrow>
                  if c \<noteq> CHR '':'' \<or> s1 = [] then None
                  else if hd s1 = CHR '':'' then
                    (if ell \<noteq> None then None
                     else if tl s1 = [] then Some (gs', Some (length gs'), [])
                     else parse6_loop k gs' (Some (length gs')) (tl s1))
                  else parse6_loop k gs' ell s1)"

definition expand6 :: "nat list \<Rightarrow> nat option \<Rightarrow> string \<Rightarrow> nat list option" where
  "expand6 gs ell s =
     (if s \<noteq> [] then None
      else if length gs < 8 then
        (case ell of None \<Rightarrow> None
         | Some e \<Rightarrow> Some (take e gs @ replicate (8 - length gs) 0 @ drop e gs))
      else if ell \<noteq> None then None
      else Some gs)"

definition parse_groups :: "string \<Rightarrow> nat list option" where
  "parse_groups s =
     (if take 2 s = ''::'' then
        (if drop 2 s = [] then Some (replicate 8 0)
         else case parse6_loop 8 [] (Some 0) (drop 2 s) of
                None \<Rightarrow> None | Some (gs, ell, r) \<Rightarrow> expand6 gs ell r)
      else case parse6_loop 8 [] None s of
             None \<Rightarrow> None | Some (gs, ell, r) \<Rightarrow> expand6 gs ell r)"

definition parse_ipv6 :: "string \<Rightarrow> addr option" where
  "parse_ipv6 s =
     (case index_byte CHR ''%'' s of
        Some i \<Rightarrow>
          (if drop (i + 1) s = [] then None
           else map_option (\<lambda>gs. Addr6 (bytes_of_groups gs) (drop (i + 1) s)) (parse_groups (take i s)))
      | None \<Rightarrow> map_option (\<lambda>gs. Addr6 (bytes_of_groups gs) []) (parse_groups s))"

text \<open>\<open>netip.ParseAddr\<close> looks for the first of \<open>.\<close>, \<open>:\<close> and \<open>%\<close>; \<open>net.ParseIP\<close> refuses a zone and
  returns 16 bytes.\<close>

definition parse_addr :: "string \<Rightarrow> addr option" where
  "parse_addr s =
     (case find (\<lambda>c. c = CHR ''.'' \<or> c = CHR '':'' \<or> c = CHR ''%'') s of
        None \<Rightarrow> None
      | Some c \<Rightarrow> if c = CHR ''.'' then parse_ipv4 s
                  else if c = CHR '':'' then parse_ipv6 s else None)"

definition parseIP :: "string \<Rightarrow> ip option" where
  "parseIP s =
     (case parse_addr s of
        None \<Rightarrow> None
      | Some (Addr4 b) \<Rightarrow> Some (v4InV6Prefix @ b)
      | Some (Addr6 b zone) \<Rightarrow> if zone \<noteq> [] then None else Some b)"

end
