(* ===== verification/Go_IP_Text.thy ===== *)
theory Go_IP_Text
  imports Go_IP
begin

text \<open>
  The parser of \<open>Go_IP\<close> reads back every address the printer writes:
  \<open>parseIP (ip_string ip)\<close> is the 16-byte form of \<open>ip\<close>. The proof follows the text: a
  decimal field, four fields, a hexadecimal group, a run of groups, the compressed run.
\<close>

section \<open>Dotted decimal\<close>

lemma foldl_digits_ge: "v \<le> foldl (\<lambda>v c. 10 * v + digit_val c) v ds"
proof (induction ds arbitrary: v)
  case (Cons d ds)
  have "v \<le> 10 * v + digit_val d" by simp
  also have "\<dots> \<le> foldl (\<lambda>v c. 10 * v + digit_val c) (10 * v + digit_val d) ds" by (rule Cons.IH)
  finally show ?case by simp
qed simp

text \<open>Digits extend a field whose value is positive, as long as the value stays in a byte.\<close>

lemma ipv4_fields_digits:
  assumes "v > 0" "list_all is_digit ds" "foldl (\<lambda>v c. 10 * v + digit_val c) v ds \<le> 255" "ds \<noteq> []"
  shows "ipv4_fields (ds @ rest) sep v k fs =
         ipv4_fields rest False (foldl (\<lambda>v c. 10 * v + digit_val c) v ds) (k + length ds) fs"
  using assms
proof (induction ds arbitrary: v k sep)
  case (Cons d ds)
  let ?v = "10 * v + digit_val d"
  have "?v \<le> 255" using foldl_digits_ge [of ?v ds] Cons.prems(3) by simp
  with Cons.prems have step: "ipv4_fields ((d # ds) @ rest) sep v k fs =
      ipv4_fields (ds @ rest) False ?v (k + 1) fs"
    by simp
  show ?case
  proof (cases "ds = []")
    case True
    with step show ?thesis by simp
  next
    case False
    with Cons.prems Cons.IH [of ?v False "k + 1"] step show ?thesis by simp
  qed
qed simp

lemma itoa_head:
  assumes "itoa n = c # cs" "cs \<noteq> []"
  shows "digit_val c > 0"
  using assms
proof (induction n arbitrary: cs rule: itoa.induct)
  case (1 n)
  have n: "\<not> n < 10"
  proof
    assume "n < 10"
    with 1(2,3) show False by (simp add: itoa.simps [of n])
  qed
  with 1(2) have eq: "itoa (n div 10) @ [digit_char (n mod 10)] = c # cs"
    by (simp add: itoa.simps [of n])
  then obtain ds where ds: "itoa (n div 10) = c # ds"
    by (metis append_eq_Cons_conv itoa_nonempty)
  show ?case
  proof (cases "ds = []")
    case False
    with 1(1) n ds show ?thesis by blast
  next
    case True
    have small: "n div 10 < 10"
    proof (rule ccontr)
      assume "\<not> n div 10 < 10"
      then have "itoa (n div 10) = itoa (n div 10 div 10) @ [digit_char (n div 10 mod 10)]"
        by (simp add: itoa.simps [of "n div 10"])
      with ds True have "itoa (n div 10 div 10) @ [digit_char (n div 10 mod 10)] = [c]" by simp
      then show False by (cases "itoa (n div 10 div 10)") auto
    qed
    with ds True have "c = digit_char (n div 10)" by (simp add: itoa.simps [of "n div 10"])
    with small n show ?thesis by simp
  qed
qed

lemma ipv4_fields_itoa:
  assumes "n \<le> 255"
  shows "\<exists>k. ipv4_fields (itoa n @ rest) sep 0 0 fs = ipv4_fields rest False n k fs"
proof -
  obtain c cs where i: "itoa n = c # cs" by (metis itoa_nonempty neq_Nil_conv)
  have d: "is_digit c" "list_all is_digit cs" using itoa_digits [of n] i by auto
  have val: "foldl (\<lambda>v c. 10 * v + digit_val c) (digit_val c) cs = n"
    using dec_value_itoa [of n] i by (simp add: dec_value_def)
  have "digit_val c \<le> 9" using d(1) by (auto simp: digit_val_def is_digit_def)
  with d(1) have step: "ipv4_fields (itoa n @ rest) sep 0 0 fs =
      ipv4_fields (cs @ rest) False (digit_val c) 1 fs"
    by (simp add: i)
  show ?thesis
  proof (cases "cs = []")
    case True
    with step val show ?thesis by auto
  next
    case False
    then have "digit_val c > 0" using itoa_head i by blast
    from ipv4_fields_digits [OF this d(2) _ False] step val assms show ?thesis by auto
  qed
qed

lemma ipv4_fields_dot:
  assumes "rest \<noteq> []" "length fs < 3"
  shows "ipv4_fields (CHR ''.'' # rest) False n k fs = ipv4_fields rest True 0 0 (fs @ [n])"
  using assms by (simp add: is_digit_def)

lemma ipv4_fields_four:
  assumes "a \<le> 255" "b \<le> 255" "c \<le> 255" "d \<le> 255"
  shows "ipv4_fields (itoa a @ ''.'' @ itoa b @ ''.'' @ itoa c @ ''.'' @ itoa d) True 0 0 [] =
         Some [a, b, c, d]"
proof -
  obtain ka where ka: "ipv4_fields (itoa a @ ''.'' @ itoa b @ ''.'' @ itoa c @ ''.'' @ itoa d) True 0 0 [] =
      ipv4_fields (''.'' @ itoa b @ ''.'' @ itoa c @ ''.'' @ itoa d) False a ka []"
    using ipv4_fields_itoa [OF assms(1)] by blast
  obtain kb where kb: "ipv4_fields (itoa b @ ''.'' @ itoa c @ ''.'' @ itoa d) True 0 0 [a] =
      ipv4_fields (''.'' @ itoa c @ ''.'' @ itoa d) False b kb [a]"
    using ipv4_fields_itoa [OF assms(2)] by blast
  obtain kc where kc: "ipv4_fields (itoa c @ ''.'' @ itoa d) True 0 0 [a, b] =
      ipv4_fields (''.'' @ itoa d) False c kc [a, b]"
    using ipv4_fields_itoa [OF assms(3)] by blast
  obtain kd where kd: "ipv4_fields (itoa d @ []) True 0 0 [a, b, c] =
      ipv4_fields [] False d kd [a, b, c]"
    using ipv4_fields_itoa [OF assms(4)] by blast
  have "ipv4_fields (itoa d) True 0 0 [a, b, c] = Some [a, b, c, d]" using kd by simp
  then have "ipv4_fields (itoa c @ ''.'' @ itoa d) True 0 0 [a, b] = Some [a, b, c, d]"
    using kc ipv4_fields_dot [of "itoa d" "[a, b]" c kc] by simp
  then have "ipv4_fields (itoa b @ ''.'' @ itoa c @ ''.'' @ itoa d) True 0 0 [a] = Some [a, b, c, d]"
    using kb ipv4_fields_dot [of "itoa c @ ''.'' @ itoa d" "[a]" b kb] by simp
  then show ?thesis
    using ka ipv4_fields_dot [of "itoa b @ ''.'' @ itoa c @ ''.'' @ itoa d" "[]" a ka] by simp
qed

lemma find_append_none: "(\<And>x. x \<in> set xs \<Longrightarrow> \<not> P x) \<Longrightarrow> find P (xs @ ys) = find P ys"
  by (induction xs) auto

lemma byte_le_255: "unat (b :: byte) \<le> 255"
  using unat_byte_less [of b] by simp

lemma parse_addr_ipv4_string:
  assumes "length ip = 4"
  shows "parse_addr (ipv4_string ip) = Some (Addr4 ip)"
proof -
  obtain a b c d where ip: "ip = [a, b, c, d]"
    using assms by (auto simp: numeral_eq_Suc length_Suc_conv)
  have "find (\<lambda>c. c = CHR ''.'' \<or> c = CHR '':'' \<or> c = CHR ''%'') (ipv4_string ip) = Some CHR ''.''"
    unfolding ipv4_string_def
    by (subst find_append_none) (use itoa_set_digit is_digit_not_special in \<open>fastforce+\<close>)
  moreover have "ipv4_fields (ipv4_string ip) True 0 0 [] = Some [unat a, unat b, unat c, unat d]"
    unfolding ipv4_string_def ip using ipv4_fields_four byte_le_255 by simp
  ultimately show ?thesis by (simp add: parse_addr_def parse_ipv4_def ip)
qed

section \<open>Hexadecimal groups\<close>

lemma hex_char_hex [simp]: "d < 16 \<Longrightarrow> is_hex (hex_char d)"
  by (auto simp: is_hex_def hex_char_def is_digit_def take_bit_eq_mod)

lemma hex_val_hex_char [simp]: "d < 16 \<Longrightarrow> hex_val (hex_char d) = d"
  by (auto simp: hex_val_def hex_char_def is_digit_def take_bit_eq_mod)

lemma is_hex_not_special:
  "is_hex c \<Longrightarrow> c \<noteq> CHR '':'' \<and> c \<noteq> CHR ''.'' \<and> c \<noteq> CHR ''%'' \<and> c \<noteq> CHR ''['' \<and> c \<noteq> CHR '']''"
  by (auto simp: is_hex_def is_digit_def)

lemma not_is_hex_special [simp]: "\<not> is_hex CHR '':''" "\<not> is_hex CHR ''.''"
  by (auto simp: is_hex_def is_digit_def)

lemma append_hex_digits: "x < 65536 \<Longrightarrow> list_all is_hex (append_hex x)"
  by (auto simp: append_hex_def)

lemma append_hex_nonempty [simp]: "append_hex x \<noteq> []"
  by (simp add: append_hex_def)

lemma append_hex_length: "length (append_hex x) \<le> 4"
  by (simp add: append_hex_def)

lemma append_hex_value:
  assumes "x < 65536"
  shows "hex_value (append_hex x) = x"
proof -
  consider "x < 16" | "16 \<le> x" "x < 256" | "256 \<le> x" "x < 4096" | "4096 \<le> x" by linarith
  then show ?thesis
  proof cases
    case 2
    then have "x div 16 < 16" by simp
    with 2 show ?thesis by (simp add: append_hex_def hex_value_def)
  next
    case 3
    then have a: "x div 256 < 16" by simp
    have "x div 16 div 16 = x div 256" by (simp add: div_mult2_eq [symmetric])
    then have "16 * (x div 256) + x div 16 mod 16 = x div 16" by (metis mult_div_mod_eq)
    with 3 a show ?thesis by (simp add: append_hex_def hex_value_def)
  next
    case 4
    with assms have a: "x div 4096 < 16" by simp
    have e: "x div 16 div 16 = x div 256" "x div 256 div 16 = x div 4096"
      by (simp_all add: div_mult2_eq [symmetric])
    have "16 * (x div 4096) + x div 256 mod 16 = x div 256" by (metis e(2) mult_div_mod_eq)
    moreover have "16 * (x div 256) + x div 16 mod 16 = x div 16" by (metis e(1) mult_div_mod_eq)
    ultimately have "16 * (16 * (16 * (x div 4096) + x div 256 mod 16) + x div 16 mod 16) + x mod 16 = x"
      by simp
    with 4 a show ?thesis by (simp add: append_hex_def hex_value_def)
  qed (simp add: append_hex_def hex_value_def)
qed

lemma takeWhile_group:
  assumes "x < 65536" "rest = [] \<or> \<not> is_hex (hd rest)"
  shows "takeWhile is_hex (append_hex x @ rest) = append_hex x"
    and "dropWhile is_hex (append_hex x @ rest) = rest"
proof -
  have all: "\<And>c. c \<in> set (append_hex x) \<Longrightarrow> is_hex c"
    using append_hex_digits [OF assms(1)] by (simp add: list_all_iff)
  have "takeWhile is_hex rest = []" "dropWhile is_hex rest = rest"
    using assms(2) by (cases rest; simp)+
  with all show "takeWhile is_hex (append_hex x @ rest) = append_hex x"
    "dropWhile is_hex (append_hex x @ rest) = rest"
    by (simp_all add: takeWhile_append2 dropWhile_append2)
qed

text \<open>One round of the loop on a printed group, for each thing that may follow it.\<close>

lemma parse6_group_end:
  assumes "x < 65536"
  shows "parse6_loop (Suc k) gs ell (append_hex x) = Some (gs @ [x], ell, [])"
proof -
  have tw: "takeWhile is_hex (append_hex x) = append_hex x" "dropWhile is_hex (append_hex x) = []"
    using takeWhile_group [OF assms, of "[]"] by (simp_all only: append_Nil2 simp_thms)
  then show ?thesis
    using append_hex_length [of x]
    by (subst parse6_loop.simps(2)) (simp add: Let_def append_hex_value [OF assms] tw
      del: takeWhile_eq_all_conv dropWhile_eq_Nil_conv)
qed

lemma parse6_group_colon:
  assumes "x < 65536" "rest \<noteq> []" "hd rest \<noteq> CHR '':''"
  shows "parse6_loop (Suc k) gs ell (append_hex x @ CHR '':'' # rest) =
         parse6_loop k (gs @ [x]) ell rest"
  using append_hex_length [of x] assms(2,3)
  by (subst parse6_loop.simps(2)) (simp add: Let_def append_hex_value [OF assms(1)]
    takeWhile_group [OF assms(1), of "CHR '':'' # rest"])

lemma parse6_group_ellipsis:
  assumes "x < 65536"
  shows "parse6_loop (Suc k) gs None (append_hex x @ ''::'' @ rest) =
         (if rest = [] then Some (gs @ [x], Some (length gs + 1), [])
          else parse6_loop k (gs @ [x]) (Some (length gs + 1)) rest)"
  using append_hex_length [of x]
  by (subst parse6_loop.simps(2)) (simp add: Let_def append_hex_value [OF assms]
    takeWhile_group [OF assms, of "CHR '':'' # CHR '':'' # rest"])

lemma hd_append_hex: "x < 65536 \<Longrightarrow> is_hex (hd (append_hex x))"
  using append_hex_digits [of x] by (cases "append_hex x") auto

lemma hd_join_groups:
  assumes "gs \<noteq> []" "list_all (\<lambda>g. g < 65536) gs"
  shows "join_groups gs \<noteq> []" "is_hex (hd (join_groups gs))"
proof -
  obtain g gs' where g: "gs = g # gs'" using assms(1) by (cases gs) auto
  then have h: "is_hex (hd (append_hex g))" using assms(2) hd_append_hex by simp
  show "join_groups gs \<noteq> []" "is_hex (hd (join_groups gs))"
    using h by (cases gs'; simp add: g)+
qed

section \<open>Runs of groups\<close>

lemma parse6_join:
  assumes "gs \<noteq> []" "list_all (\<lambda>g. g < 65536) gs" "length gs \<le> k"
  shows "parse6_loop k acc ell (join_groups gs) = Some (acc @ gs, ell, [])"
  using assms
proof (induction gs arbitrary: k acc rule: join_groups.induct)
  case (2 g)
  then obtain m where "k = Suc m" by (cases k) auto
  with 2 show ?case by (simp add: parse6_group_end del: parse6_loop.simps)
next
  case (3 g h gs)
  then obtain m where k: "k = Suc m" by (cases k) auto
  have tail: "h # gs \<noteq> []" "list_all (\<lambda>g. g < 65536) (h # gs)" "length (h # gs) \<le> m"
    using 3(3,4) k by simp_all
  have "hd (join_groups (h # gs)) \<noteq> CHR '':''" "join_groups (h # gs) \<noteq> []"
    using hd_join_groups [OF tail(1,2)] is_hex_not_special by auto
  with 3 k have "parse6_loop k acc ell (join_groups (g # h # gs)) =
      parse6_loop m (acc @ [g]) ell (join_groups (h # gs))"
    by (simp add: parse6_group_colon del: parse6_loop.simps)
  with 3(1) [OF tail, of "acc @ [g]"] show ?case by simp
qed simp

lemma parse6_join_ellipsis:
  assumes "gs \<noteq> []" "list_all (\<lambda>g. g < 65536) gs" "length gs \<le> k"
  shows "parse6_loop k acc None (join_groups gs @ ''::'' @ rest) =
         (if rest = [] then Some (acc @ gs, Some (length (acc @ gs)), [])
          else parse6_loop (k - length gs) (acc @ gs) (Some (length (acc @ gs))) rest)"
  using assms
proof (induction gs arbitrary: k acc rule: join_groups.induct)
  case (2 g)
  then obtain m where "k = Suc m" by (cases k) auto
  with 2 show ?case
    using parse6_group_ellipsis [of g m acc rest] by (simp del: parse6_loop.simps)
next
  case (3 g h gs)
  then obtain m where k: "k = Suc m" by (cases k) auto
  have tail: "h # gs \<noteq> []" "list_all (\<lambda>g. g < 65536) (h # gs)" "length (h # gs) \<le> m"
    using 3(3,4) k by simp_all
  have "hd (join_groups (h # gs)) \<noteq> CHR '':''" "join_groups (h # gs) \<noteq> []"
    using hd_join_groups [OF tail(1,2)] is_hex_not_special by auto
  with 3 k have "parse6_loop k acc None (join_groups (g # h # gs) @ ''::'' @ rest) =
      parse6_loop m (acc @ [g]) None (join_groups (h # gs) @ ''::'' @ rest)"
    using parse6_group_colon [of g "join_groups (h # gs) @ ''::'' @ rest" m acc None]
    by (simp del: parse6_loop.simps)
  with 3(1) [OF tail, of "acc @ [g]"] k show ?case by (simp del: parse6_loop.simps)
qed simp

section \<open>The compressed run\<close>

lemma zero_run_zero: "i < zero_run gs \<Longrightarrow> gs ! i = 0"
proof -
  assume i: "i < zero_run gs"
  then have "takeWhile (\<lambda>g. g = 0) gs ! i \<in> set (takeWhile (\<lambda>g. g = 0) gs)"
    by (simp add: zero_run_def)
  then have "takeWhile (\<lambda>g. g = 0) gs ! i = 0" by (rule set_takeWhileD [THEN conjunct2])
  then show ?thesis using i by (simp add: takeWhile_nth zero_run_def)
qed

lemma zero_run_le: "zero_run gs \<le> length gs"
  by (simp add: zero_run_def length_takeWhile_le)

definition run_ok :: "nat list \<Rightarrow> nat \<times> nat \<Rightarrow> bool" where
  "run_ok gs se \<longleftrightarrow> se = (255, 255) \<or>
     (fst se + 2 \<le> snd se \<and> snd se \<le> length gs \<and> (\<forall>i. fst se \<le> i \<and> i < snd se \<longrightarrow> gs ! i = 0))"

lemma best_run_ok:
  assumes "run_ok all se" "drop i all = gs" "i + length gs = length all"
  shows "run_ok all (best_run i gs se)"
  using assms
proof (induction gs arbitrary: i se)
  case (Cons g gs)
  let ?l = "zero_run (g # gs)"
  let ?se = "if ?l \<ge> 2 \<and> ?l > snd se - fst se then (i, i + ?l) else se"
  have "run_ok all ?se"
  proof (cases "?l \<ge> 2 \<and> ?l > snd se - fst se")
    case True
    have "all ! j = 0" if "i \<le> j" "j < i + ?l" for j
    proof -
      have "(g # gs) ! (j - i) = 0" using that by (intro zero_run_zero) auto
      then have "drop i all ! (j - i) = 0" using Cons.prems(2) by simp
      then show ?thesis using that zero_run_le [of "g # gs"] Cons.prems(3) by simp
    qed
    with True zero_run_le [of "g # gs"] Cons.prems(3) show ?thesis by (simp add: run_ok_def)
  next
    case False
    show ?thesis using Cons.prems(1) by (simp only: False if_False)
  qed
  moreover have "drop (i + 1) all = gs" using Cons.prems(2) by (metis Suc_eq_plus1 drop_Suc tl_drop list.sel(3))
  ultimately show ?case
    using Cons.IH [of ?se "i + 1"] Cons.prems(3) by (simp add: Let_def)
qed simp

lemma run_replace:
  assumes "fst se + 2 \<le> snd se" "snd se \<le> length gs"
    "\<forall>i. fst se \<le> i \<and> i < snd se \<longrightarrow> gs ! i = (0 :: nat)"
  shows "take (fst se) gs @ replicate (snd se - fst se) 0 @ drop (snd se) gs = gs"
proof (rule nth_equalityI)
  fix i
  assume "i < length (take (fst se) gs @ replicate (snd se - fst se) 0 @ drop (snd se) gs)"
  then show "(take (fst se) gs @ replicate (snd se - fst se) 0 @ drop (snd se) gs) ! i = gs ! i"
    using assms by (auto simp: nth_append min_def)
qed (use assms in simp)

text \<open>Printing eight groups and parsing them again gives the groups back.\<close>

lemma parse_groups_ipv6_string:
  assumes len: "length gs = 8" and small: "list_all (\<lambda>g. g < 65536) gs"
  shows "parse_groups (ipv6_string gs) = Some gs"
proof -
  obtain s e where se: "best_run 0 gs (255, 255) = (s, e)" by fastforce
  have "run_ok gs (s, e)"
    using best_run_ok [of gs "(255, 255)" 0 gs] by (simp add: run_ok_def flip: se)
  then consider "(s, e) = (255, 255)"
    | "s + 2 \<le> e" "e \<le> 8" "\<forall>i. s \<le> i \<and> i < e \<longrightarrow> gs ! i = 0"
    using len by (auto simp: run_ok_def)
  then show ?thesis
  proof cases
    case 1
    then have str: "ipv6_string gs = join_groups gs" by (simp add: ipv6_string_def se)
    have ne: "gs \<noteq> []" using len by auto
    have "hd (join_groups gs) \<noteq> CHR '':''" using hd_join_groups [OF ne small] is_hex_not_special by auto
    then have "take 2 (join_groups gs) \<noteq> ''::''" by (cases "join_groups gs") auto
    then show ?thesis
      using parse6_join [OF ne small, of 8 "[]" None] len
      by (simp add: parse_groups_def str expand6_def del: parse6_loop.simps)
  next
    case 2
    then have str: "ipv6_string gs = join_groups (take s gs) @ ''::'' @ join_groups (drop e gs)"
      by (simp add: ipv6_string_def se)
    have same: "take s gs @ replicate (e - s) 0 @ drop e gs = gs"
      using run_replace [of "(s, e)" gs] 2 len by simp
    have smalls: "list_all (\<lambda>g. g < 65536) (take s gs)" "list_all (\<lambda>g. g < 65536) (drop e gs)"
      using small by (auto simp: list_all_iff dest: in_set_takeD in_set_dropD)
    have tail: "parse6_loop k acc ell (join_groups (drop e gs)) = Some (acc @ drop e gs, ell, [])"
      if "drop e gs \<noteq> []" "8 - e \<le> k" for k acc ell
      using parse6_join [OF that(1) smalls(2), of k acc ell] that(2) len by simp
    have tail_ne: "join_groups (drop e gs) \<noteq> []" if "drop e gs \<noteq> []"
      using hd_join_groups [OF that smalls(2)] by simp
    have expand: "expand6 (take s gs @ drop e gs) (Some s) [] = Some gs"
    proof -
      have "8 - length (take s gs @ drop e gs) = e - s" "length (take s gs @ drop e gs) < 8"
        using 2 len by simp_all
      moreover have "take s (take s gs @ drop e gs) = take s gs"
        "drop s (take s gs @ drop e gs) = drop e gs" using 2 len by simp_all
      ultimately show ?thesis using same unfolding expand6_def by (simp only: option.case if_True simp_thms) simp
    qed
    show ?thesis
    proof (cases "s = 0")
      case True
      then have t: "take 2 (ipv6_string gs) = ''::''" "drop 2 (ipv6_string gs) = join_groups (drop e gs)"
        by (simp_all add: str)
      show ?thesis
      proof (cases "drop e gs = []")
        case True
        then have "replicate 8 0 = gs" using same \<open>s = 0\<close> 2 len by simp
        then show ?thesis using t True by (simp add: parse_groups_def)
      next
        case False
        then show ?thesis
          using t tail [of 8 "[]" "Some 0"] tail_ne expand \<open>s = 0\<close>
          by (simp add: parse_groups_def del: parse6_loop.simps)
      qed
    next
      case False
      then have ne: "take s gs \<noteq> []" and ls: "length (take s gs) = s" using len 2 by auto
      have "hd (join_groups (take s gs)) \<noteq> CHR '':''" "join_groups (take s gs) \<noteq> []"
        using hd_join_groups [OF ne smalls(1)] is_hex_not_special by auto
      then have t: "take 2 (ipv6_string gs) \<noteq> ''::''"
        by (cases "join_groups (take s gs)") (auto simp: str)
      have "parse6_loop 8 [] None (ipv6_string gs) = Some (take s gs @ drop e gs, Some s, [])"
        using parse6_join_ellipsis [OF ne smalls(1), of 8 "[]" "join_groups (drop e gs)"] ls 2
          tail [of "8 - s" "take s gs" "Some s"] tail_ne
        by (cases "drop e gs = []") (simp_all add: str del: parse6_loop.simps)
      with t expand show ?thesis by (simp add: parse_groups_def del: parse6_loop.simps)
    qed
  qed
qed

section \<open>Addresses\<close>

lemma groups_of_length: "even (length bs) \<Longrightarrow> length (groups_of bs) = length bs div 2"
  by (induction bs rule: groups_of.induct) auto

lemma groups_of_small: "list_all (\<lambda>g. g < 65536) (groups_of bs)"
proof (induction bs rule: groups_of.induct)
  case (1 a b bs)
  then show ?case using byte_le_255 [of a] byte_le_255 [of b] by simp
qed simp_all

lemma bytes_of_groups_of: "even (length bs) \<Longrightarrow> bytes_of_groups (groups_of bs) = bs"
proof (induction bs rule: groups_of.induct)
  case (1 a b bs)
  then show ?case using unat_byte_less [of b] by simp
qed simp_all

lemma join_groups_chars:
  assumes "list_all (\<lambda>g. g < 65536) gs" "c \<in> set (join_groups gs)"
  shows "is_hex c \<or> c = CHR '':''"
  using assms
proof (induction gs rule: join_groups.induct)
  case (2 g)
  then show ?case using append_hex_digits [of g] by (auto simp: list_all_iff)
next
  case (3 g h gs)
  then show ?case using append_hex_digits [of g] by (auto simp: list_all_iff)
qed simp

lemma ipv6_string_chars:
  assumes "list_all (\<lambda>g. g < 65536) gs" "c \<in> set (ipv6_string gs)"
  shows "is_hex c \<or> c = CHR '':''"
proof -
  obtain s e where "best_run 0 gs (255, 255) = (s, e)" by fastforce
  moreover have "list_all (\<lambda>g. g < 65536) (take s gs)" "list_all (\<lambda>g. g < 65536) (drop e gs)"
    using assms(1) by (auto simp: list_all_iff dest: in_set_takeD in_set_dropD)
  moreover have "c \<in> set (join_groups gs) \<or> c \<in> set (join_groups (take s gs))
      \<or> c = CHR '':'' \<or> c \<in> set (join_groups (drop e gs))"
    using assms(2) calculation(1) by (auto simp: ipv6_string_def split: if_splits)
  ultimately show ?thesis using assms(1) join_groups_chars by blast
qed

lemma find_first:
  assumes "x \<in> set xs" "P x" "\<forall>y \<in> set xs. P y \<longrightarrow> y = x"
  shows "find P xs = Some x"
  using assms
proof (induction xs)
  case (Cons a xs)
  show ?case
  proof (cases "P a")
    case True
    with Cons.prems(3) have "a = x" by simp
    with True show ?thesis by simp
  next
    case False
    with Cons.prems(1,2) have "x \<in> set xs" by auto
    moreover have "\<forall>y \<in> set xs. P y \<longrightarrow> y = x" using Cons.prems(3) by (meson list.set_intros(2))
    ultimately have "find P xs = Some x" using Cons.IH Cons.prems(2) by blast
    with False show ?thesis by (simp only: find.simps if_False)
  qed
qed simp

lemma colon_in_join: "length gs \<ge> 2 \<Longrightarrow> CHR '':'' \<in> set (join_groups gs)"
  by (cases gs rule: join_groups.cases) simp_all

lemma parse_addr_ipv6_string:
  assumes "length ip = 16"
  shows "parse_addr (ipv6_string (groups_of ip)) = Some (Addr6 ip [])"
proof -
  let ?gs = "groups_of ip" and ?s = "ipv6_string (groups_of ip)"
  have gs: "length ?gs = 8" "list_all (\<lambda>g. g < 65536) ?gs"
    using assms groups_of_length [of ip] groups_of_small by simp_all
  have chars: "is_hex c \<or> c = CHR '':''" if "c \<in> set ?s" for c
    using ipv6_string_chars [OF gs(2) that] .
  obtain s e where "best_run 0 ?gs (255, 255) = (s, e)" by fastforce
  then have "CHR '':'' \<in> set ?s"
    using colon_in_join [of ?gs] gs(1) by (simp add: ipv6_string_def)
  then have "find (\<lambda>c. c = CHR ''.'' \<or> c = CHR '':'' \<or> c = CHR ''%'') ?s = Some CHR '':''"
    using chars is_hex_not_special by (intro find_first) auto
  moreover have "CHR ''%'' \<notin> set ?s" using chars is_hex_not_special by auto
  then have zone: "index_byte CHR ''%'' ?s = None" by simp
  ultimately show ?thesis
    using parse_groups_ipv6_string [OF gs] bytes_of_groups_of [of ip] assms
    by (simp add: parse_addr_def parse_ipv6_def zone del: index_byte_None)
qed

theorem parseIP_ip_string:
  assumes "valid_ip ip"
  shows "parseIP (ip_string ip) = to16 ip"
proof (cases "to4 ip")
  case None
  then have "length ip = 16" using assms by (auto simp: valid_ip_def)
  then show ?thesis
    using None parse_addr_ipv6_string [of ip] by (auto simp: ip_string_def parseIP_def to16_def)
next
  case (Some v)
  then have "length v = 4" by (rule to4_length)
  moreover have "v4InV6Prefix @ v = the (to16 ip)"
    using assms Some to4_16 [of ip]
    by (auto simp: valid_ip_def to16_def split: if_splits) (metis append_take_drop_id)
  ultimately show ?thesis
    using Some assms parse_addr_ipv4_string [of v]
    by (auto simp: ip_string_def parseIP_def to16_def valid_ip_def)
qed

lemma ip_string_host_ok:
  assumes "valid_ip ip"
  shows "host_ok (ip_string ip)"
proof (cases "to4 ip")
  case None
  then have "length ip = 16" using assms by (auto simp: valid_ip_def)
  then have "ip_string ip = ipv6_string (groups_of ip)" using None by (auto simp: ip_string_def)
  moreover have "is_hex c \<or> c = CHR '':''" if "c \<in> set (ipv6_string (groups_of ip))" for c
    using ipv6_string_chars [OF groups_of_small that] .
  ultimately show ?thesis using is_hex_not_special by (auto simp: host_ok_def)
next
  case (Some v)
  then have "ip_string ip = ipv4_string v" using assms by (auto simp: ip_string_def valid_ip_def)
  then show ?thesis by (simp add: host_ok_def ipv4_string_def)
qed

text \<open>Two addresses print alike exactly when \<open>Equal\<close> identifies them.\<close>

lemma ip_string_inject:
  assumes "valid_ip a" "valid_ip b"
  shows "ip_string a = ip_string b \<longleftrightarrow> ip_equal a b"
proof
  assume "ip_string a = ip_string b"
  then show "ip_equal a b"
    using assms parseIP_ip_string [of a] parseIP_ip_string [of b] by (simp add: ip_equal_iff)
next
  assume "ip_equal a b"
  then have eq: "to16 a = to16 b" using assms by (simp add: ip_equal_iff)
  obtain v where v: "to16 a = Some v" using assms(1) to16_Some_iff by blast
  have t: "to4 a = to4 b" using eq v to4_to16 [of a v] to4_to16 [of b v] by simp
  show "ip_string a = ip_string b"
  proof (cases "to4 a")
    case (Some w)
    with t have "to4 b = Some w" by simp
    with Some have "ip_string a = ipv4_string w" "ip_string b = ipv4_string w"
      using assms by (auto simp: ip_string_def valid_ip_def)
    then show ?thesis by simp
  next
    case None
    with t assms have "length a = 16" "length b = 16" by (auto simp: valid_ip_def)
    with eq have "a = b" by (simp add: to16_def)
    then show ?thesis by simp
  qed
qed

end
