(* ===== verification/Socks_Wire.thy ===== *)
theory Socks_Wire
  imports Go_IP_Text
begin

text \<open>
  The SOCKS5 wire formats (RFC 1928): the request parser of the H3 backend
  (\<open>parseSOCKS5Addr\<close>), the UDP request and reply frames both backends share
  (\<open>parseUDPRequest\<close>, \<open>appendUDPReply\<close>), and the replies written to a client
  (\<open>sendSocks5Err\<close>, \<open>sendSocks5Success\<close>, \<open>sendSocks5Bound\<close>). The grammar they implement is the
  encoder \<open>enc_addr\<close>; the lemmas show that each parser accepts exactly the encoded requests.
\<close>

section \<open>The address grammar\<close>

datatype socks_addr = V4 bytes | Domain bytes | V6 bytes

fun wf_addr :: "socks_addr \<Rightarrow> bool" where
  "wf_addr (V4 a) \<longleftrightarrow> length a = 4"
| "wf_addr (Domain d) \<longleftrightarrow> length d < 256"
| "wf_addr (V6 a) \<longleftrightarrow> length a = 16"

fun empty_domain :: "socks_addr \<Rightarrow> bool" where
  "empty_domain (Domain d) \<longleftrightarrow> d = []"
| "empty_domain _ \<longleftrightarrow> False"

fun enc_addr :: "socks_addr \<Rightarrow> bytes" where
  "enc_addr (V4 a) = 0x01 # a"
| "enc_addr (Domain d) = 0x03 # word_of_nat (length d) # d"
| "enc_addr (V6 a) = 0x04 # a"

fun host_of :: "socks_addr \<Rightarrow> string" where
  "host_of (V4 a) = ip_string a"
| "host_of (Domain d) = str_of_bytes d"
| "host_of (V6 a) = ip_string a"

definition target_of :: "socks_addr \<Rightarrow> 16 word \<Rightarrow> string" where
  "target_of a port = joinHostPort (host_of a) (itoa (unat port))"

section \<open>The request parser of the H3 backend\<close>

datatype socks_error =
    DataTooShort | V4TooShort | DomainTooShort | V6TooShort | UnknownAddrType byte | PortZero

definition parseSOCKS5Addr :: "bytes \<Rightarrow> (socks_error, string \<times> string) gores" where
  "parseSOCKS5Addr data =
     (if length data < 4 then Err DataTooShort
      else
        gobind (idx data 3) (\<lambda>addrType.
        gobind
          (if addrType = 0x01 then
             (if length data < 10 then Err V4TooShort
              else
                gobind (slice data 4 8) (\<lambda>a.
                gobind (idx data 8) (\<lambda>p0.
                gobind (idx data 9) (\<lambda>p1. Ok (ip_string a, beInt p0 p1)))))
           else if addrType = 0x03 then
             gobind (idx data 4) (\<lambda>l.
               let addrLen = unat l in
               if length data < 5 + addrLen + 2 then Err DomainTooShort
               else
                 gobind (slice data 5 (5 + addrLen)) (\<lambda>d.
                 gobind (idx data (5 + addrLen)) (\<lambda>p0.
                 gobind (idx data (5 + addrLen + 1)) (\<lambda>p1. Ok (str_of_bytes d, beInt p0 p1)))))
           else if addrType = 0x04 then
             (if length data < 22 then Err V6TooShort
              else
                gobind (slice data 4 20) (\<lambda>a.
                gobind (idx data 20) (\<lambda>p0.
                gobind (idx data 21) (\<lambda>p1. Ok (ip_string a, beInt p0 p1)))))
           else Err (UnknownAddrType addrType))
          (\<lambda>(host, port).
             if port = 0 then Err PortZero
             else Ok (joinHostPort host (itoa port), host))))"

section \<open>UDP frames\<close>

datatype udp_error =
    DatagramTooShort nat | Fragmented byte | V4Truncated | LengthTruncated | EmptyDomain
  | DomainTruncated | V6Truncated | UnknownType byte | DstPortZero

definition parseUDPRequest :: "bytes \<Rightarrow> (udp_error, string \<times> bytes) gores" where
  "parseUDPRequest buf =
     (if length buf < 4 then Err (DatagramTooShort (length buf))
      else
        gobind (idx buf 2) (\<lambda>frag.
        if frag \<noteq> 0x00 then Err (Fragmented frag)
        else
        gobind (idx buf 3) (\<lambda>atyp.
        gobind
          (if atyp = 0x01 then
             (if length buf < 4 + 4 + 2 then Err V4Truncated
              else gobind (slice buf 4 (4 + 4)) (\<lambda>a. Ok (ip_string a, 4 + 4)))
           else if atyp = 0x03 then
             (if length buf < 4 + 1 then Err LengthTruncated
              else
                gobind (idx buf 4) (\<lambda>lb.
                  let l = unat lb; off = 4 + 1 in
                  if l = 0 then Err EmptyDomain
                  else if length buf < off + l + 2 then Err DomainTruncated
                  else gobind (slice buf off (off + l)) (\<lambda>d. Ok (str_of_bytes d, off + l))))
           else if atyp = 0x04 then
             (if length buf < 4 + 16 + 2 then Err V6Truncated
              else gobind (slice buf 4 (4 + 16)) (\<lambda>a. Ok (ip_string a, 4 + 16)))
           else Err (UnknownType atyp))
          (\<lambda>(host, off).
             gobind (slice buf off (off + 2)) (\<lambda>pb.
             gobind (idx pb 0) (\<lambda>p0.
             gobind (idx pb 1) (\<lambda>p1.
               let port = beUint16 p0 p1; off = off + 2 in
               if port = 0 then Err DstPortZero
               else gobind (slice buf off (length buf)) (\<lambda>payload.
                 Ok (joinHostPort host (itoa (unat port)), payload)))))))))"

text \<open>A \<open>net.UDPAddr\<close>.\<close>

record udp_addr =
  u_ip :: ip
  u_port :: int
  u_zone :: string

definition appendUDPReply :: "bytes \<Rightarrow> udp_addr \<Rightarrow> bytes \<Rightarrow> ip + bytes" where
  "appendUDPReply dst src payload =
     (let dst = dst @ [0x00, 0x00, 0x00] in
      case to4 (u_ip src) of
        Some v4 \<Rightarrow> Inr (dst @ [0x01] @ v4 @ be16 (word_of_int (u_port src)) @ payload)
      | None \<Rightarrow>
          (case to16 (u_ip src) of
             Some v6 \<Rightarrow> Inr (dst @ [0x04] @ v6 @ be16 (word_of_int (u_port src)) @ payload)
           | None \<Rightarrow> Inl (u_ip src)))"

section \<open>Replies\<close>

definition sendSocks5Err :: "byte \<Rightarrow> bytes" where
  "sendSocks5Err code = [0x05, code, 0x00, 0x01, 0x00, 0x00, 0x00, 0x00, 0x00, 0x00]"

definition sendSocks5Success :: bytes where
  "sendSocks5Success = [0x05, 0x00, 0x00, 0x01, 0x00, 0x00, 0x00, 0x00, 0x00, 0x00]"

text \<open>The bytes of the reply with a real bound address; \<^const>\<open>Inl\<close> is the error of an unusable
  address, in which case nothing is written.\<close>

definition sendSocks5Bound :: "ip \<Rightarrow> int \<Rightarrow> ip + bytes" where
  "sendSocks5Bound ip port =
     (case to4 ip of
        Some v4 \<Rightarrow> Inr ([0x05, 0x00, 0x00] @ [0x01] @ v4 @ be16 (word_of_int port))
      | None \<Rightarrow>
          (case to16 ip of
             Some v6 \<Rightarrow> Inr ([0x05, 0x00, 0x00] @ [0x04] @ v6 @ be16 (word_of_int port))
           | None \<Rightarrow> Inl ip))"

section \<open>What the parsers accept\<close>

lemma four_bytes:
  assumes "\<not> length data < 4"
  obtains a b c d xs where "data = a # b # c # d # xs"
  using assms by (auto simp: numeral_eq_Suc not_less Suc_le_length_iff)

lemma split_port:
  assumes "n + 2 \<le> length xs"
  shows "xs = take n xs @ be16 (beUint16 (xs ! n) (xs ! (n + 1))) @ drop (n + 2) xs"
proof -
  have "drop n xs = xs ! n # xs ! (n + 1) # drop (n + 2) xs"
    using assms by (simp add: Cons_nth_drop_Suc)
  then show ?thesis using append_take_drop_id [of n xs] by simp
qed

text \<open>The tail of a request after the address type, for the address type of \<open>a\<close>: the rest of
  the address, the port and anything that follows.\<close>

lemma parseSOCKS5Addr_V4:
  "parseSOCKS5Addr (v # c # r # 0x01 # xs) =
     (if length xs < 6 then Err V4TooShort
      else let port = beUint16 (xs ! 4) (xs ! 5)
           in if port = 0 then Err PortZero
              else Ok (target_of (V4 (take 4 xs)) port, ip_string (take 4 xs)))"
  by (simp add: parseSOCKS5Addr_def target_of_def Let_def beInt_beUint16 unat_eq_zero)

lemma parseSOCKS5Addr_V6:
  "parseSOCKS5Addr (v # c # r # 0x04 # xs) =
     (if length xs < 18 then Err V6TooShort
      else let port = beUint16 (xs ! 16) (xs ! 17)
           in if port = 0 then Err PortZero
              else Ok (target_of (V6 (take 16 xs)) port, ip_string (take 16 xs)))"
  by (simp add: parseSOCKS5Addr_def target_of_def Let_def beInt_beUint16 unat_eq_zero)

lemma parseSOCKS5Addr_Domain:
  "parseSOCKS5Addr (v # c # r # 0x03 # l # xs) =
     (if length xs < unat l + 2 then Err DomainTooShort
      else let port = beUint16 (xs ! unat l) (xs ! (unat l + 1))
           in if port = 0 then Err PortZero
              else Ok (target_of (Domain (take (unat l) xs)) port, str_of_bytes (take (unat l) xs)))"
  by (simp add: parseSOCKS5Addr_def target_of_def Let_def beInt_beUint16 unat_eq_zero)

lemma parseSOCKS5Addr_no_length: "parseSOCKS5Addr [v, c, r, 0x03] = Panic"
  by (simp add: parseSOCKS5Addr_def idx_out)

lemma parseSOCKS5Addr_other:
  "t \<noteq> 0x01 \<Longrightarrow> t \<noteq> 0x03 \<Longrightarrow> t \<noteq> 0x04 \<Longrightarrow>
   parseSOCKS5Addr (v # c # r # t # xs) = Err (UnknownAddrType t)"
  by (simp add: parseSOCKS5Addr_def)

lemma parseSOCKS5Addr_short: "length data < 4 \<Longrightarrow> parseSOCKS5Addr data = Err DataTooShort"
  by (simp add: parseSOCKS5Addr_def)

lemmas parseSOCKS5Addr_cases =
  parseSOCKS5Addr_V4 parseSOCKS5Addr_V6 parseSOCKS5Addr_Domain parseSOCKS5Addr_no_length
  parseSOCKS5Addr_other parseSOCKS5Addr_short

lemma port_at:
  assumes "length a = n"
  shows "beUint16 ((a @ be16 p @ rest) ! n) ((a @ be16 p @ rest) ! (n + 1)) = p"
  using assms beUint16_be16 [of p] by (simp add: nth_append)

text \<open>Soundness and completeness against the grammar.\<close>

lemma parseSOCKS5Addr_encoded:
  assumes "wf_addr a" "port \<noteq> 0"
  shows "parseSOCKS5Addr ([v, c, r] @ enc_addr a @ be16 port @ rest) = Ok (target_of a port, host_of a)"
proof (cases a)
  case (V4 b)
  with assms port_at [of b 4 port rest] show ?thesis
    by (simp add: parseSOCKS5Addr_V4 Let_def)
next
  case (Domain d)
  with assms have "length d < 256" by simp
  then have "unat (word_of_nat (length d) :: byte) = length d" by simp
  with Domain assms port_at [of d "length d" port rest] show ?thesis
    by (simp add: parseSOCKS5Addr_Domain Let_def)
next
  case (V6 b)
  with assms port_at [of b 16 port rest] show ?thesis
    by (simp add: parseSOCKS5Addr_V6 Let_def)
qed

lemma parseSOCKS5Addr_Ok:
  assumes "parseSOCKS5Addr data = Ok (t, h)"
  shows "\<exists>v c r a port rest. data = [v, c, r] @ enc_addr a @ be16 port @ rest \<and> wf_addr a \<and>
           port \<noteq> 0 \<and> t = target_of a port \<and> h = host_of a"
proof -
  have "\<not> length data < 4" using assms by (auto simp: parseSOCKS5Addr_short)
  then obtain v c r k xs where data: "data = v # c # r # k # xs" by (rule four_bytes)
  have k: "k = 0x01 \<or> k = 0x03 \<or> k = 0x04"
    using assms parseSOCKS5Addr_other [of k v c r xs] by (auto simp: data)
  then consider "k = 0x01" | "k = 0x04" | l ys where "k = 0x03" "xs = l # ys"
    using assms by (cases xs) (auto simp: data parseSOCKS5Addr_no_length)
  then show ?thesis
  proof cases
    case 1
    with assms data have len: "\<not> length xs < 6" by (auto simp: parseSOCKS5Addr_V4)
    let ?p = "beUint16 (xs ! 4) (xs ! 5)"
    have "data = [v, c, r] @ enc_addr (V4 (take 4 xs)) @ be16 ?p @ drop 6 xs"
      using split_port [of 4 xs] len 1 data by simp
    moreover have "?p \<noteq> 0" "t = target_of (V4 (take 4 xs)) ?p" "h = host_of (V4 (take 4 xs))"
      using assms 1 len by (auto simp: data parseSOCKS5Addr_V4 Let_def split: if_splits)
    moreover have "wf_addr (V4 (take 4 xs))" using len by simp
    ultimately show ?thesis by blast
  next
    case 2
    with assms data have len: "\<not> length xs < 18" by (auto simp: parseSOCKS5Addr_V6)
    let ?p = "beUint16 (xs ! 16) (xs ! 17)"
    have "data = [v, c, r] @ enc_addr (V6 (take 16 xs)) @ be16 ?p @ drop 18 xs"
      using split_port [of 16 xs] len 2 data by simp
    moreover have "?p \<noteq> 0" "t = target_of (V6 (take 16 xs)) ?p" "h = host_of (V6 (take 16 xs))"
      using assms 2 len by (auto simp: data parseSOCKS5Addr_V6 Let_def split: if_splits)
    moreover have "wf_addr (V6 (take 16 xs))" using len by simp
    ultimately show ?thesis by blast
  next
    case (3 l ys)
    with assms data have len: "\<not> length ys < unat l + 2" by (auto simp: parseSOCKS5Addr_Domain)
    let ?n = "unat l" and ?p = "beUint16 (ys ! unat l) (ys ! (unat l + 1))"
    let ?a = "Domain (take ?n ys)"
    have "data = [v, c, r] @ enc_addr ?a @ be16 ?p @ drop (?n + 2) ys"
      using split_port [of ?n ys] len 3 data by simp
    moreover have "?p \<noteq> 0" "t = target_of ?a ?p" "h = host_of ?a"
      using assms 3 len by (auto simp: data parseSOCKS5Addr_Domain Let_def split: if_splits)
    moreover have "wf_addr ?a" using len unat_byte_less [of l] by simp
    ultimately show ?thesis by blast
  qed
qed

lemma parseSOCKS5Addr_Panic_iff:
  "parseSOCKS5Addr data = Panic \<longleftrightarrow> length data = 4 \<and> data ! 3 = 0x03"
proof (cases "length data < 4")
  case False
  then obtain v c r k xs where "data = v # c # r # k # xs" by (rule four_bytes)
  then show ?thesis
    by (cases "k = 0x01 \<or> k = 0x04 \<or> k = 0x03"; cases xs)
      (auto simp: parseSOCKS5Addr_cases Let_def split: if_splits)
qed (simp add: parseSOCKS5Addr_short)

section \<open>UDP requests\<close>

lemma parseUDPRequest_short:
  "length buf < 4 \<Longrightarrow> parseUDPRequest buf = Err (DatagramTooShort (length buf))"
  by (simp add: parseUDPRequest_def)

lemma parseUDPRequest_frag:
  "f \<noteq> 0 \<Longrightarrow> parseUDPRequest (r1 # r2 # f # t # xs) = Err (Fragmented f)"
  by (simp add: parseUDPRequest_def)

lemma parseUDPRequest_V4:
  "parseUDPRequest (r1 # r2 # 0x00 # 0x01 # xs) =
     (if length xs < 6 then Err V4Truncated
      else let port = beUint16 (xs ! 4) (xs ! 5)
           in if port = 0 then Err DstPortZero else Ok (target_of (V4 (take 4 xs)) port, drop 6 xs))"
  by (simp add: parseUDPRequest_def target_of_def Let_def)

lemma parseUDPRequest_V6:
  "parseUDPRequest (r1 # r2 # 0x00 # 0x04 # xs) =
     (if length xs < 18 then Err V6Truncated
      else let port = beUint16 (xs ! 16) (xs ! 17)
           in if port = 0 then Err DstPortZero else Ok (target_of (V6 (take 16 xs)) port, drop 18 xs))"
  by (simp add: parseUDPRequest_def target_of_def Let_def)

lemma parseUDPRequest_no_length: "parseUDPRequest [r1, r2, 0x00, 0x03] = Err LengthTruncated"
  by (simp add: parseUDPRequest_def)

lemma parseUDPRequest_Domain:
  "parseUDPRequest (r1 # r2 # 0x00 # 0x03 # l # xs) =
     (if l = 0 then Err EmptyDomain
      else if length xs < unat l + 2 then Err DomainTruncated
      else let port = beUint16 (xs ! unat l) (xs ! (unat l + 1))
           in if port = 0 then Err DstPortZero
              else Ok (target_of (Domain (take (unat l) xs)) port, drop (unat l + 2) xs))"
proof -
  have "drop (7 + unat l) (r1 # r2 # 0x00 # 0x03 # l # xs) = drop (unat l + 2) xs"
    by (simp add: numeral_eq_Suc)
  then show ?thesis by (simp add: parseUDPRequest_def target_of_def Let_def unat_eq_zero)
qed

lemma parseUDPRequest_other:
  "t \<noteq> 0x01 \<Longrightarrow> t \<noteq> 0x03 \<Longrightarrow> t \<noteq> 0x04 \<Longrightarrow>
   parseUDPRequest (r1 # r2 # 0x00 # t # xs) = Err (UnknownType t)"
  by (simp add: parseUDPRequest_def)

lemmas parseUDPRequest_cases =
  parseUDPRequest_V4 parseUDPRequest_V6 parseUDPRequest_Domain parseUDPRequest_no_length
  parseUDPRequest_other parseUDPRequest_short parseUDPRequest_frag

lemma parseUDPRequest_encoded:
  assumes "wf_addr a" "\<not> empty_domain a" "port \<noteq> 0"
  shows "parseUDPRequest ([r1, r2, 0x00] @ enc_addr a @ be16 port @ payload) =
         Ok (target_of a port, payload)"
proof (cases a)
  case (V4 b)
  with assms port_at [of b 4 port payload] show ?thesis
    by (simp add: parseUDPRequest_V4 Let_def)
next
  case (Domain d)
  with assms have d: "length d < 256" "d \<noteq> []" by simp_all
  then have u: "unat (word_of_nat (length d) :: byte) = length d" by simp
  with d have "(word_of_nat (length d) :: byte) \<noteq> 0"
    by (metis length_0_conv unsigned_0)
  with Domain d u assms port_at [of d "length d" port payload] show ?thesis
    by (simp add: parseUDPRequest_Domain Let_def)
next
  case (V6 b)
  with assms port_at [of b 16 port payload] show ?thesis
    by (simp add: parseUDPRequest_V6 Let_def)
qed

lemma parseUDPRequest_Ok:
  assumes "parseUDPRequest buf = Ok (t, payload)"
  shows "\<exists>r1 r2 a port. buf = [r1, r2, 0x00] @ enc_addr a @ be16 port @ payload \<and> wf_addr a \<and>
           \<not> empty_domain a \<and> port \<noteq> 0 \<and> t = target_of a port"
proof -
  have "\<not> length buf < 4" using assms by (auto simp: parseUDPRequest_short)
  then obtain r1 r2 f k xs where "buf = r1 # r2 # f # k # xs" by (rule four_bytes)
  moreover from this have "f = 0" using assms parseUDPRequest_frag [of f r1 r2 k xs] by auto
  ultimately have buf: "buf = r1 # r2 # 0x00 # k # xs" by simp
  have k: "k = 0x01 \<or> k = 0x03 \<or> k = 0x04"
    using assms parseUDPRequest_other [of k r1 r2 xs] by (auto simp: buf)
  then consider "k = 0x01" | "k = 0x04" | l ys where "k = 0x03" "xs = l # ys"
    using assms by (cases xs) (auto simp: buf parseUDPRequest_no_length)
  then show ?thesis
  proof cases
    case 1
    with assms buf have len: "\<not> length xs < 6" by (auto simp: parseUDPRequest_V4)
    let ?p = "beUint16 (xs ! 4) (xs ! 5)"
    have "?p \<noteq> 0" "t = target_of (V4 (take 4 xs)) ?p" "payload = drop 6 xs"
      using assms 1 len by (auto simp: buf parseUDPRequest_V4 Let_def split: if_splits)
    moreover have "buf = [r1, r2, 0x00] @ enc_addr (V4 (take 4 xs)) @ be16 ?p @ drop 6 xs"
      using split_port [of 4 xs] len 1 buf by simp
    moreover have "wf_addr (V4 (take 4 xs))" "\<not> empty_domain (V4 (take 4 xs))" using len by simp_all
    ultimately show ?thesis by blast
  next
    case 2
    with assms buf have len: "\<not> length xs < 18" by (auto simp: parseUDPRequest_V6)
    let ?p = "beUint16 (xs ! 16) (xs ! 17)"
    have "?p \<noteq> 0" "t = target_of (V6 (take 16 xs)) ?p" "payload = drop 18 xs"
      using assms 2 len by (auto simp: buf parseUDPRequest_V6 Let_def split: if_splits)
    moreover have "buf = [r1, r2, 0x00] @ enc_addr (V6 (take 16 xs)) @ be16 ?p @ drop 18 xs"
      using split_port [of 16 xs] len 2 buf by simp
    moreover have "wf_addr (V6 (take 16 xs))" "\<not> empty_domain (V6 (take 16 xs))" using len by simp_all
    ultimately show ?thesis by blast
  next
    case (3 l ys)
    with assms buf have len: "\<not> length ys < unat l + 2" and l: "l \<noteq> 0"
      by (auto simp: parseUDPRequest_Domain split: if_splits)
    let ?n = "unat l" and ?p = "beUint16 (ys ! unat l) (ys ! (unat l + 1))"
    let ?a = "Domain (take ?n ys)"
    have "?p \<noteq> 0" "t = target_of ?a ?p" "payload = drop (?n + 2) ys"
      using assms 3 len l by (auto simp: buf parseUDPRequest_Domain Let_def split: if_splits)
    moreover have "buf = [r1, r2, 0x00] @ enc_addr ?a @ be16 ?p @ drop (?n + 2) ys"
      using split_port [of ?n ys] len 3 buf by simp
    moreover have "wf_addr ?a" using len unat_byte_less [of l] by simp
    moreover have "\<not> empty_domain ?a" using len l by (auto simp: unat_eq_zero)
    ultimately show ?thesis by blast
  qed
qed

lemma parseUDPRequest_no_panic: "parseUDPRequest buf \<noteq> Panic"
proof (cases "length buf < 4")
  case False
  then obtain r1 r2 f k xs where "buf = r1 # r2 # f # k # xs" by (rule four_bytes)
  then show ?thesis
    by (cases "f = 0"; cases "k = 0x01 \<or> k = 0x04 \<or> k = 0x03"; cases xs)
      (auto simp: parseUDPRequest_cases Let_def split: if_splits)
qed (simp add: parseUDPRequest_short)

section \<open>UDP replies\<close>

text \<open>The address fields of a frame that carries address \<open>ip\<close>: the shorter form wins.\<close>

definition addr_of_ip :: "ip \<Rightarrow> socks_addr" where
  "addr_of_ip ip = (case to4 ip of Some v \<Rightarrow> V4 v | None \<Rightarrow> V6 ip)"

lemma wf_addr_of_ip: "valid_ip ip \<Longrightarrow> wf_addr (addr_of_ip ip)"
  by (auto simp: addr_of_ip_def valid_ip_def to4_length split: option.splits)

lemma not_empty_addr_of_ip: "\<not> empty_domain (addr_of_ip ip)"
  by (simp add: addr_of_ip_def split: option.splits)

lemma host_addr_of_ip:
  assumes "valid_ip ip"
  shows "host_of (addr_of_ip ip) = ip_string ip"
proof (cases "to4 ip")
  case (Some v)
  then have "length v = 4" by (rule to4_length)
  with Some assms show ?thesis by (auto simp: addr_of_ip_def ip_string_def valid_ip_def)
qed (simp add: addr_of_ip_def)

lemma invalid_ip: "\<not> valid_ip ip \<Longrightarrow> to4 ip = None \<and> to16 ip = None"
  by (simp add: valid_ip_def to4_def to16_def)

lemma appendUDPReply_eq:
  "appendUDPReply dst src payload =
     (if valid_ip (u_ip src)
      then Inr (dst @ [0x00, 0x00, 0x00] @ enc_addr (addr_of_ip (u_ip src)) @
                be16 (word_of_int (u_port src)) @ payload)
      else Inl (u_ip src))"
proof (cases "to4 (u_ip src)")
  case None
  then show ?thesis
    using invalid_ip [of "u_ip src"]
    by (auto simp: appendUDPReply_def Let_def addr_of_ip_def to16_def valid_ip_def)
next
  case (Some v)
  then have "valid_ip (u_ip src)" using invalid_ip by fastforce
  with Some show ?thesis by (simp add: appendUDPReply_def Let_def addr_of_ip_def)
qed

lemma sendSocks5Bound_eq:
  "sendSocks5Bound ip port =
     (if valid_ip ip
      then Inr ([0x05, 0x00, 0x00] @ enc_addr (addr_of_ip ip) @ be16 (word_of_int port))
      else Inl ip)"
proof (cases "to4 ip")
  case None
  then show ?thesis
    using invalid_ip [of ip] by (auto simp: sendSocks5Bound_def addr_of_ip_def to16_def valid_ip_def)
next
  case (Some v)
  then have "valid_ip ip" using invalid_ip by fastforce
  with Some show ?thesis by (simp add: sendSocks5Bound_def addr_of_ip_def)
qed

lemma word16_of_port:
  assumes "0 < p" "p < 65536"
  shows "unat (word_of_int p :: 16 word) = nat p" and "(word_of_int p :: 16 word) \<noteq> 0"
proof -
  have "take_bit 16 p = p" using assms by (intro take_bit_int_eq_self) simp_all
  then show *: "unat (word_of_int p :: 16 word) = nat p" by (simp add: unsigned_of_int)
  show "(word_of_int p :: 16 word) \<noteq> 0"
  proof
    assume "(word_of_int p :: 16 word) = 0"
    with * assms show False by simp
  qed
qed

text \<open>A reply frame, read as a request, names its source and carries its payload.\<close>

lemma reply_reads_as_request:
  assumes "valid_ip (u_ip src)" "0 < u_port src" "u_port src < 65536"
  shows "appendUDPReply [] src payload = Inr frame \<Longrightarrow>
         parseUDPRequest frame =
           Ok (joinHostPort (ip_string (u_ip src)) (itoa (nat (u_port src))), payload)"
  using assms word16_of_port [of "u_port src"]
    parseUDPRequest_encoded [OF wf_addr_of_ip not_empty_addr_of_ip, of "u_ip src"
      "word_of_int (u_port src)" 0 0 payload]
  by (auto simp: appendUDPReply_eq target_of_def host_addr_of_ip)

section \<open>Properties\<close>

text \<open>\<open>parseSOCKS5Addr\<close> accepts exactly the requests of the grammar with a nonzero port, whatever
  follows them in the buffer, and returns their target and host; it panics on exactly one
  kind of input, a request of four bytes whose address type is a domain.\<close>

theorem parseSOCKS5Addr_iff:
  "(parseSOCKS5Addr data = Ok (t, h) \<longleftrightarrow>
      (\<exists>v c r a port rest. data = [v, c, r] @ enc_addr a @ be16 port @ rest \<and> wf_addr a \<and>
         port \<noteq> 0 \<and> t = target_of a port \<and> h = host_of a)) \<and>
   (parseSOCKS5Addr data = Panic \<longleftrightarrow> length data = 4 \<and> data ! 3 = 0x03)"
proof
  show "parseSOCKS5Addr data = Ok (t, h) \<longleftrightarrow>
      (\<exists>v c r a port rest. data = [v, c, r] @ enc_addr a @ be16 port @ rest \<and> wf_addr a \<and>
         port \<noteq> 0 \<and> t = target_of a port \<and> h = host_of a)"
    by (rule iffI, erule parseSOCKS5Addr_Ok, elim exE conjE)
      (simp only: parseSOCKS5Addr_encoded not_False_eq_True)
qed (rule parseSOCKS5Addr_Panic_iff)

text \<open>\<open>parseUDPRequest\<close> accepts exactly the unfragmented datagrams of the grammar with a nonempty
  address and a nonzero port, returns their target and the rest as payload, and never panics.\<close>

theorem parseUDPRequest_iff:
  "(parseUDPRequest buf = Ok (t, payload) \<longleftrightarrow>
      (\<exists>r1 r2 a port. buf = [r1, r2, 0x00] @ enc_addr a @ be16 port @ payload \<and> wf_addr a \<and>
         \<not> empty_domain a \<and> port \<noteq> 0 \<and> t = target_of a port)) \<and>
   parseUDPRequest buf \<noteq> Panic"
proof
  show "parseUDPRequest buf = Ok (t, payload) \<longleftrightarrow>
      (\<exists>r1 r2 a port. buf = [r1, r2, 0x00] @ enc_addr a @ be16 port @ payload \<and> wf_addr a \<and>
         \<not> empty_domain a \<and> port \<noteq> 0 \<and> t = target_of a port)"
    by (rule iffI, erule parseUDPRequest_Ok, elim exE conjE)
      (simp only: parseUDPRequest_encoded not_False_eq_True)
qed (rule parseUDPRequest_no_panic)

end
