(* ===== verification/Net_Conn.thy ===== *)
theory Net_Conn
  imports Socks_Wire
begin

text \<open>
  The client side of a handler: a \<open>net.Conn\<close> as an input script and a log. The input is the
  list of segments in the order they arrive, so that what a single \<open>Read\<close> returns and what
  \<open>io.ReadFull\<close> returns can be told apart; the log records every call that has an effect, in
  order. The interface \<open>byte_source\<close> states that \<open>io.ReadFull\<close> depends on the byte stream
  only, not on how it was cut into segments.
\<close>

section \<open>The connection\<close>

datatype io_error = EOF | UnexpectedEOF | IOFail nat

text \<open>What a handler does, besides reading: deadlines, writes to the client, and the calls into
  the rest of the program. \<open>Sent\<close> is a successful write, \<open>SendFailed\<close> a failed one.\<close>

datatype action =
    SetDeadline | ClearDeadline | Sent bytes | SendFailed bytes | CloseConn
  | Dial string | CloseRemote | UDPAssociate
  | Resolve string | OpenStream | Connect string string string | CancelRead | CloseStream
  | Relay string

record conn =
  c_in :: "bytes list"
  c_end :: io_error
  c_wok :: "nat \<Rightarrow> bool"
  c_tries :: nat
  c_log :: "action list"

definition log :: "action \<Rightarrow> conn \<Rightarrow> conn" where
  "log a c = c\<lparr>c_log := c_log c @ [a]\<rparr>"

text \<open>\<open>conn.Read(buf)\<close> with a buffer of \<open>n\<close> bytes returns bytes of the next segment, at most \<open>n\<close>;
  at the end of the input it returns the connection's final error.\<close>

definition conn_read :: "nat \<Rightarrow> conn \<Rightarrow> (io_error + bytes) \<times> conn" where
  "conn_read n c =
     (case c_in c of
        [] \<Rightarrow> (Inl (c_end c), c)
      | s # ss \<Rightarrow>
          if length s \<le> n then (Inr s, c\<lparr>c_in := ss\<rparr>)
          else (Inr (take n s), c\<lparr>c_in := drop n s # ss\<rparr>))"

text \<open>\<open>conn.Write(bs)\<close>: the \<open>k\<close>th attempt succeeds as the connection's script \<open>c_wok\<close> says.\<close>

definition conn_write :: "bytes \<Rightarrow> conn \<Rightarrow> (io_error + unit) \<times> conn" where
  "conn_write bs c =
     (if c_wok c (c_tries c)
      then (Inr (), log (Sent bs) (c\<lparr>c_tries := Suc (c_tries c)\<rparr>))
      else (Inl (IOFail 0), log (SendFailed bs) (c\<lparr>c_tries := Suc (c_tries c)\<rparr>)))"

text \<open>\<open>io.ReadFull\<close>: read until \<open>n\<close> bytes have arrived; end of file in the middle is
  \<open>UnexpectedEOF\<close>. The number of waiting segments decreases with every round.\<close>

function read_full_from :: "bytes \<Rightarrow> nat \<Rightarrow> conn \<Rightarrow> (io_error + bytes) \<times> conn" where
  "read_full_from got n c =
     (if n \<le> length got then (Inr got, c)
      else case conn_read (n - length got) c of
             (Inl e, c') \<Rightarrow> (Inl (if got \<noteq> [] \<and> e = EOF then UnexpectedEOF else e), c')
           | (Inr bs, c') \<Rightarrow> read_full_from (got @ bs) n c')"
  by pat_completeness auto
termination
  by (relation "measures [\<lambda>(got, n, c). length (c_in c), \<lambda>(got, n, c). n - length got]")
    (auto simp: conn_read_def split: list.splits if_splits)

declare read_full_from.simps [simp del]

definition read_full :: "nat \<Rightarrow> conn \<Rightarrow> (io_error + bytes) \<times> conn" where
  "read_full n c = read_full_from [] n c"

section \<open>The byte stream\<close>

definition stream :: "conn \<Rightarrow> bytes" where
  "stream c = concat (c_in c)"

text \<open>Two connections that differ only in where their input is cut.\<close>

definition same_stream :: "conn \<Rightarrow> conn \<Rightarrow> bool" where
  "same_stream c d \<longleftrightarrow> stream c = stream d \<and> c\<lparr>c_in := []\<rparr> = d\<lparr>c_in := []\<rparr>"

lemma same_stream_refl [simp]: "same_stream c c"
  by (simp add: same_stream_def)

lemma conn_read_Inr:
  assumes "conn_read n c = (Inr bs, c')"
  shows "stream c = bs @ stream c' \<and> c'\<lparr>c_in := []\<rparr> = c\<lparr>c_in := []\<rparr> \<and> length bs \<le> n"
  using assms
  by (auto simp: conn_read_def stream_def split: list.splits if_splits)

lemma conn_read_Inl:
  "conn_read n c = (Inl e, c') \<Longrightarrow> e = c_end c \<and> c' = c \<and> c_in c = []"
  by (auto simp: conn_read_def split: list.splits if_splits)

lemma read_full_from_enough:
  assumes "length got \<le> n" "n \<le> length got + length (stream c)"
  shows "\<exists>c'. read_full_from got n c = (Inr (got @ take (n - length got) (stream c)), c') \<and>
              stream c' = drop (n - length got) (stream c) \<and> c'\<lparr>c_in := []\<rparr> = c\<lparr>c_in := []\<rparr>"
  using assms
proof (induction got n c rule: read_full_from.induct)
  case (1 got n c)
  show ?case
  proof (cases "n \<le> length got")
    case True
    with 1(2) show ?thesis by (simp add: read_full_from.simps [of got n c])
  next
    case False
    show ?thesis
    proof (cases "conn_read (n - length got) c")
      case (Pair r c')
      show ?thesis
      proof (cases r)
        case (Inl e)
        with Pair have "c_in c = []" using conn_read_Inl by blast
        with 1(3) False show ?thesis by (simp add: stream_def)
      next
        case (Inr bs)
        with Pair have rd: "conn_read (n - length got) c = (Inr bs, c')" by simp
        then have s: "stream c = bs @ stream c'" "c'\<lparr>c_in := []\<rparr> = c\<lparr>c_in := []\<rparr>"
          "length bs \<le> n - length got"
          using conn_read_Inr by blast+
        have "length (got @ bs) \<le> n" "n \<le> length (got @ bs) + length (stream c')"
          using s 1(2,3) False by simp_all
        from 1(1) [OF False rd [symmetric] refl this] obtain d where
          d: "read_full_from (got @ bs) n c' =
               (Inr ((got @ bs) @ take (n - length (got @ bs)) (stream c')), d)"
            "stream d = drop (n - length (got @ bs)) (stream c')" "d\<lparr>c_in := []\<rparr> = c'\<lparr>c_in := []\<rparr>"
          by blast
        then show ?thesis
          using s False rd by (subst read_full_from.simps) simp
      qed
    qed
  qed
qed

lemma read_full_from_short:
  assumes "length got + length (stream c) < n"
  shows "\<exists>c'. read_full_from got n c =
           (Inl (if got @ stream c \<noteq> [] \<and> c_end c = EOF then UnexpectedEOF else c_end c), c') \<and>
           stream c' = [] \<and> c'\<lparr>c_in := []\<rparr> = c\<lparr>c_in := []\<rparr>"
  using assms
proof (induction got n c rule: read_full_from.induct)
  case (1 got n c)
  then have False': "\<not> n \<le> length got" by simp
  show ?case
  proof (cases "conn_read (n - length got) c")
    case (Pair r c')
    show ?thesis
    proof (cases r)
      case (Inl e)
      with Pair have "conn_read (n - length got) c = (Inl e, c')" by simp
      moreover from this have "e = c_end c" "c' = c" "c_in c = []" using conn_read_Inl by blast+
      ultimately show ?thesis
        using False' by (subst read_full_from.simps) (simp add: stream_def)
    next
      case (Inr bs)
      with Pair have rd: "conn_read (n - length got) c = (Inr bs, c')" by simp
      then have s: "stream c = bs @ stream c'" "c'\<lparr>c_in := []\<rparr> = c\<lparr>c_in := []\<rparr>"
        using conn_read_Inr by blast+
      then have e: "c_end c' = c_end c" by (metis conn.select_convs(2) conn.surjective conn.update_convs(1))
      have "length (got @ bs) + length (stream c') < n" using s 1(2) by simp
      from 1(1) [OF False' rd [symmetric] refl this] s rd False' e show ?thesis
        by (subst read_full_from.simps) auto
    qed
  qed
qed

lemma read_full_enough:
  assumes "n \<le> length (stream c)"
  shows "\<exists>c'. read_full n c = (Inr (take n (stream c)), c') \<and> stream c' = drop n (stream c) \<and>
              c'\<lparr>c_in := []\<rparr> = c\<lparr>c_in := []\<rparr>"
  using read_full_from_enough [of "[]" n c] assms by (simp add: read_full_def)

lemma read_full_short:
  assumes "length (stream c) < n"
  shows "\<exists>c'. read_full n c =
           (Inl (if stream c \<noteq> [] \<and> c_end c = EOF then UnexpectedEOF else c_end c), c') \<and>
           stream c' = [] \<and> c'\<lparr>c_in := []\<rparr> = c\<lparr>c_in := []\<rparr>"
  using read_full_from_short [of "[]" c n] assms by (simp add: read_full_def)

section \<open>The interface of a byte source\<close>

text \<open>What the handlers rely on: a read of \<open>n\<close> bytes is determined by the stream and takes
  exactly its first \<open>n\<close> bytes, or empties it and fails with an error determined by the stream
  and by the rest of the connection (\<open>frame\<close>).\<close>

locale byte_source =
  fixes readN :: "nat \<Rightarrow> 'c \<Rightarrow> ('e + bytes) \<times> 'c"
    and strm :: "'c \<Rightarrow> bytes"
    and frame :: "'c \<Rightarrow> 'f"
    and err :: "'f \<Rightarrow> bytes \<Rightarrow> 'e"
  assumes read_enough: "n \<le> length (strm c) \<Longrightarrow>
      \<exists>c'. readN n c = (Inr (take n (strm c)), c') \<and> strm c' = drop n (strm c) \<and> frame c' = frame c"
    and read_short: "length (strm c) < n \<Longrightarrow>
      \<exists>c'. readN n c = (Inl (err (frame c) (strm c)), c') \<and> strm c' = [] \<and> frame c' = frame c"
begin

lemma read_Inr:
  assumes "readN n c = (Inr bs, c')"
  shows "length bs = n \<and> strm c = bs @ strm c' \<and> frame c' = frame c"
proof -
  have le: "n \<le> length (strm c)"
  proof (rule ccontr)
    assume "\<not> n \<le> length (strm c)"
    then show False using read_short [of c n] assms by auto
  qed
  then show ?thesis using read_enough [OF le] assms by auto
qed

lemma read_prefix:
  assumes "strm c = xs @ ys"
  shows "\<exists>c'. readN (length xs) c = (Inr xs, c') \<and> strm c' = ys \<and> frame c' = frame c"
  using read_enough [of "length xs" c] assms by simp

lemma read_congruent:
  assumes "strm c = strm d" "frame c = frame d"
  shows "fst (readN n c) = fst (readN n d) \<and> strm (snd (readN n c)) = strm (snd (readN n d)) \<and>
         frame (snd (readN n c)) = frame (snd (readN n d))"
proof (cases "n \<le> length (strm c)")
  case True
  then show ?thesis using read_enough [of n c] read_enough [of n d] assms by auto
next
  case False
  then show ?thesis using read_short [of c n] read_short [of d n] assms by auto
qed

end

definition read_err :: "conn \<Rightarrow> bytes \<Rightarrow> io_error" where
  "read_err f s = (if s \<noteq> [] \<and> c_end f = EOF then UnexpectedEOF else c_end f)"

interpretation src: byte_source read_full stream "\<lambda>c. c\<lparr>c_in := []\<rparr>" read_err
proof unfold_locales
  fix n c
  assume "n \<le> length (stream c)"
  then show "\<exists>c'. read_full n c = (Inr (take n (stream c)), c') \<and> stream c' = drop n (stream c) \<and>
      c'\<lparr>c_in := []\<rparr> = c\<lparr>c_in := []\<rparr>"
    by (rule read_full_enough)
next
  fix n c
  assume short: "length (stream c) < n"
  have e: "read_err (c\<lparr>c_in := []\<rparr>) (stream c) =
      (if stream c \<noteq> [] \<and> c_end c = EOF then UnexpectedEOF else c_end c)"
    by (simp add: read_err_def)
  show "\<exists>c'. read_full n c = (Inl (read_err (c\<lparr>c_in := []\<rparr>) (stream c)), c') \<and> stream c' = [] \<and>
      c'\<lparr>c_in := []\<rparr> = c\<lparr>c_in := []\<rparr>"
    unfolding e using short by (rule read_full_short)
qed

lemma same_stream_iff:
  "same_stream c d \<longleftrightarrow> stream c = stream d \<and> c_end c = c_end d \<and> c_wok c = c_wok d \<and>
     c_tries c = c_tries d \<and> c_log c = c_log d"
  by (cases c; cases d) (auto simp: same_stream_def)

lemma frame_iff:
  fixes c d :: conn
  shows "c\<lparr>c_in := []\<rparr> = d\<lparr>c_in := []\<rparr> \<longleftrightarrow>
     c_end c = c_end d \<and> c_wok c = c_wok d \<and> c_tries c = c_tries d \<and> c_log c = c_log d"
  by (cases c; cases d) auto

section \<open>Sequences of connection operations\<close>

text \<open>A function of the program that reads and writes a connection and may return an error.\<close>

type_synonym ('e, 'a) connop = "conn \<Rightarrow> ('e + 'a) \<times> conn"

definition opbind :: "('e, 'a) connop \<Rightarrow> ('a \<Rightarrow> ('e, 'b) connop) \<Rightarrow> ('e, 'b) connop" where
  "opbind m f c = (case m c of (Inl e, c') \<Rightarrow> (Inl e, c') | (Inr x, c') \<Rightarrow> f x c')"

definition opret :: "'a \<Rightarrow> ('e, 'a) connop" where
  "opret x c = (Inr x, c)"

definition opfail :: "'e \<Rightarrow> ('e, 'a) connop" where
  "opfail e c = (Inl e, c)"

text \<open>Running an operation with its error mapped, and running it for its effect alone, as
  Go's \<open>_, _ = conn.Write(...)\<close> does.\<close>

definition oplift :: "('f \<Rightarrow> 'e) \<Rightarrow> ('f, 'a) connop \<Rightarrow> ('e, 'a) connop" where
  "oplift f m c = (case m c of (Inl e, c') \<Rightarrow> (Inl (f e), c') | (Inr x, c') \<Rightarrow> (Inr x, c'))"

definition opignore :: "('f, 'a) connop \<Rightarrow> ('e, unit) connop" where
  "opignore m c = (Inr (), snd (m c))"

definition opmod :: "(conn \<Rightarrow> conn) \<Rightarrow> ('e, unit) connop" where
  "opmod f c = (Inr (), f c)"

text \<open>An operation that does not depend on how its input is cut into segments.\<close>

definition seg_free :: "('e, 'a) connop \<Rightarrow> bool" where
  "seg_free m \<longleftrightarrow> (\<forall>c d. same_stream c d \<longrightarrow>
     fst (m c) = fst (m d) \<and> same_stream (snd (m c)) (snd (m d)))"

named_theorems seg_intros "operations that do not depend on segmentation"

lemma seg_free_read_full [seg_intros]: "seg_free (read_full n)"
  unfolding seg_free_def same_stream_def using src.read_congruent by blast

lemma seg_free_conn_write [seg_intros]: "seg_free (conn_write bs)"
proof -
  have "fst (conn_write bs c) = fst (conn_write bs d) \<and>
        same_stream (snd (conn_write bs c)) (snd (conn_write bs d))" if "same_stream c d" for c d
    using that by (cases "c_wok d (c_tries d)")
      (simp_all add: same_stream_iff conn_write_def log_def stream_def)
  then show ?thesis by (simp add: seg_free_def)
qed

lemma seg_free_opret [seg_intros]: "seg_free (opret x)"
  by (simp add: seg_free_def opret_def)

lemma seg_free_opfail [seg_intros]: "seg_free (opfail e)"
  by (simp add: seg_free_def opfail_def)

lemma seg_free_opbind [seg_intros]:
  assumes "seg_free m" "\<And>x. seg_free (f x)"
  shows "seg_free (opbind m f)"
proof -
  have "fst (opbind m f c) = fst (opbind m f d) \<and>
        same_stream (snd (opbind m f c)) (snd (opbind m f d))" if cd: "same_stream c d" for c d
  proof -
    obtain r c' where c: "m c = (r, c')" by fastforce
    obtain r' d' where d: "m d = (r', d')" by fastforce
    have m: "m c = (r, c')" "m d = (r, d')" "same_stream c' d'"
      using assms(1) [unfolded seg_free_def, rule_format, OF cd] c d by simp_all
    show ?thesis
    proof (cases r)
      case (Inl e)
      with m show ?thesis by (simp add: opbind_def)
    next
      case (Inr x)
      with m assms(2) [of x] show ?thesis by (simp add: opbind_def seg_free_def)
    qed
  qed
  then show ?thesis by (simp add: seg_free_def)
qed

lemma seg_free_oplift [seg_intros]:
  assumes "seg_free m"
  shows "seg_free (oplift f m)"
proof -
  have "fst (oplift f m c) = fst (oplift f m d) \<and>
        same_stream (snd (oplift f m c)) (snd (oplift f m d))" if cd: "same_stream c d" for c d
  proof -
    have "fst (m c) = fst (m d)" "same_stream (snd (m c)) (snd (m d))"
      using assms cd by (auto simp: seg_free_def)
    then show ?thesis
      by (cases "m c"; cases "m d") (auto simp: oplift_def split: sum.splits)
  qed
  then show ?thesis by (simp add: seg_free_def)
qed

lemma seg_free_opignore [seg_intros]: "seg_free m \<Longrightarrow> seg_free (opignore m)"
  by (auto simp: seg_free_def opignore_def)

lemma seg_free_log [seg_intros]: "seg_free (opmod (log a))"
  by (simp add: seg_free_def same_stream_iff opmod_def log_def stream_def)

lemma seg_free_if [seg_intros]:
  "seg_free a \<Longrightarrow> seg_free b \<Longrightarrow> seg_free (if P then a else b)"
  by simp

end
