(* ===== verification/Socks_H2.thy ===== *)
theory Socks_H2
  imports Net_Conn
begin

text \<open>
  The SOCKS5 front end of the HTTP/2 backend (\<open>tunnel/h2_socks.go\<close>): method negotiation with
  optional username/password authentication, the request reader, and the handler that turns
  a CONNECT request into a dial through the userspace stack. Every read goes through
  \<open>io.ReadFull\<close>, so the whole exchange is a function of the client's byte stream.
\<close>

section \<open>Configuration and errors\<close>

record socks_config =
  Username :: string
  Password :: string
  AllowUDP :: bool

definition require_auth :: "socks_config \<Rightarrow> bool" where
  "require_auth cfg \<longleftrightarrow> Username cfg \<noteq> [] \<and> Password cfg \<noteq> []"

datatype sock_error =
    IO io_error
  | BadMethodNegotiation | NoAcceptableMethod | BadAuthRequest | BadCredentials
  | BadRequestHeader | EmptyTargetDomain | UnknownAtyp byte

text \<open>\<open>subtle.ConstantTimeCompare\<close>: 1 for equal slices, 0 otherwise, without an early exit.\<close>

definition constantTimeCompare :: "bytes \<Rightarrow> bytes \<Rightarrow> 64 word" where
  "constantTimeCompare x y =
     (if length x \<noteq> length y then 0
      else if foldl (\<lambda>v (a, b). v OR (a XOR b)) 0 (zip x y) = 0 then 1 else 0)"

lemma foldl_or_zero:
  fixes v :: byte
  assumes "length x = length y"
  shows "foldl (\<lambda>v (a, b). v OR (a XOR b)) v (zip x y) = 0 \<longleftrightarrow> v = 0 \<and> x = y"
  using assms
proof (induction x y arbitrary: v rule: list_induct2)
  case (Cons a x b y)
  have "v OR (a XOR b) = 0 \<longleftrightarrow> v = 0 \<and> a = b"
    by (simp add: bit_eq_iff bit_simps) blast
  with Cons show ?case by auto
qed simp

lemma constantTimeCompare_eq [simp]: "constantTimeCompare x y = (if x = y then 1 else 0)"
  by (auto simp: constantTimeCompare_def foldl_or_zero)

section \<open>Negotiation\<close>

abbreviation readFull :: "nat \<Rightarrow> (sock_error, bytes) connop" where
  "readFull n \<equiv> oplift IO (read_full n)"

abbreviation writeConn :: "bytes \<Rightarrow> (sock_error, unit) connop" where
  "writeConn bs \<equiv> oplift IO (conn_write bs)"

abbreviation writeIgnored :: "bytes \<Rightarrow> (sock_error, unit) connop" where
  "writeIgnored bs \<equiv> opignore (conn_write bs)"

text \<open>The username/password exchange (RFC 1929), the second half of \<open>negotiateSOCKS5\<close>.\<close>

definition negotiate_auth :: "socks_config \<Rightarrow> (sock_error, unit) connop" where
  "negotiate_auth cfg =
     opbind (readFull 2) (\<lambda>header.
     if header ! 0 \<noteq> 0x01 \<or> header ! 1 = 0 then
       opbind (writeIgnored [0x01, 0x01]) (\<lambda>_. opfail BadAuthRequest)
     else
     opbind (readFull (unat (header ! 1))) (\<lambda>username.
     opbind (readFull 1) (\<lambda>passwordLength.
     opbind (readFull (unat (passwordLength ! 0))) (\<lambda>password.
     let userOK = constantTimeCompare username (bytes_of_str (Username cfg));
         passOK = constantTimeCompare password (bytes_of_str (Password cfg))
     in
     if (userOK AND passOK) \<noteq> 1 then
       opbind (writeIgnored [0x01, 0x01]) (\<lambda>_. opfail BadCredentials)
     else writeConn [0x01, 0x00]))))"

definition negotiateSOCKS5 :: "socks_config \<Rightarrow> (sock_error, unit) connop" where
  "negotiateSOCKS5 cfg =
     opbind (readFull 2) (\<lambda>header.
     if header ! 0 \<noteq> 0x05 \<or> header ! 1 = 0 then opfail BadMethodNegotiation
     else
     opbind (readFull (unat (header ! 1))) (\<lambda>methods.
     let requireAuth = Username cfg \<noteq> [] \<and> Password cfg \<noteq> [];
         selected = (if requireAuth then 0x02 else 0x00)
     in
     if selected \<notin> set methods then
       opbind (writeIgnored [0x05, 0xff]) (\<lambda>_. opfail NoAcceptableMethod)
     else
     opbind (writeConn [0x05, selected]) (\<lambda>_.
     if \<not> requireAuth then opret () else negotiate_auth cfg)))"

text \<open>The part of \<open>readSOCKS5Request\<close> that depends on the address type.\<close>

definition read_host :: "byte \<Rightarrow> (sock_error, string) connop" where
  "read_host atyp =
     (if atyp = 0x01 then opbind (readFull 4) (\<lambda>value. opret (ip_string value))
      else if atyp = 0x03 then
        opbind (readFull 1) (\<lambda>len.
        if len ! 0 = 0 then opfail EmptyTargetDomain
        else opbind (readFull (unat (len ! 0))) (\<lambda>value. opret (str_of_bytes value)))
      else if atyp = 0x04 then opbind (readFull 16) (\<lambda>value. opret (ip_string value))
      else opfail (UnknownAtyp atyp))"

definition readSOCKS5Request :: "(sock_error, byte \<times> string) connop" where
  "readSOCKS5Request =
     opbind (readFull 4) (\<lambda>header.
     if header ! 0 \<noteq> 0x05 \<or> header ! 2 \<noteq> 0x00 then opfail BadRequestHeader
     else opbind (read_host (header ! 3)) (\<lambda>host.
     opbind (readFull 2) (\<lambda>portBytes.
     opret (header ! 1, joinHostPort host (itoa (beInt (portBytes ! 0) (portBytes ! 1)))))))"

definition writeSocks5Success :: "(sock_error, unit) connop" where
  "writeSocks5Success =
     writeConn [0x05, 0x00, 0x00, 0x01, 0x00, 0x00, 0x00, 0x00, 0x00, 0x00]"

text \<open>An error of \<open>tunNet.DialContext\<close>, as far as \<open>errors.As\<close> and \<open>errors.Is\<close> look at it.\<close>

record dial_error =
  is_dns_error :: bool
  is_deadline :: bool

definition socks5ReplyForError :: "dial_error \<Rightarrow> byte" where
  "socks5ReplyForError err =
     (if is_dns_error err then 0x04 else if is_deadline err then 0x04 else 0x05)"

section \<open>The handler\<close>

text \<open>\<open>HandleSOCKS5\<close> of \<open>H2Client\<close>. \<open>dial\<close> is \<open>tunNet.DialContext\<close> under its 25-second
  budget. The log ends with the deferred \<open>conn.Close\<close>; \<open>Relay\<close> stands for the two copy loops,
  after which both ends are closed.\<close>

definition h2_reply :: "byte \<Rightarrow> conn \<Rightarrow> conn" where
  "h2_reply code c = snd (conn_write (sendSocks5Err code) c)"

definition h2_connect :: "(string \<Rightarrow> dial_error option) \<Rightarrow> string \<Rightarrow> conn \<Rightarrow> conn" where
  "h2_connect dial targetAddr c =
     (case splitHostPort targetAddr of
        Inl _ \<Rightarrow> h2_reply 0x08 c
      | Inr (_, port) \<Rightarrow>
          if port = ''0'' then h2_reply 0x08 c
          else
            let c = log (Dial targetAddr) (log ClearDeadline c) in
            case dial targetAddr of
              Some err \<Rightarrow> h2_reply (socks5ReplyForError err) c
            | None \<Rightarrow>
                (case writeSocks5Success c of
                   (Inl _, c) \<Rightarrow> log CloseRemote c
                 | (Inr _, c) \<Rightarrow>
                     log CloseRemote (log CloseRemote (log CloseConn (log (Relay targetAddr) c)))))"

definition h2_handleSOCKS5 ::
    "socks_config \<Rightarrow> (string \<Rightarrow> dial_error option) \<Rightarrow> conn \<Rightarrow> conn" where
  "h2_handleSOCKS5 cfg dial c0 =
     log CloseConn
       (case negotiateSOCKS5 cfg (log SetDeadline c0) of
          (Inl _, c) \<Rightarrow> c
        | (Inr _, c) \<Rightarrow>
            (case readSOCKS5Request c of
               (Inl _, c) \<Rightarrow> h2_reply 0x08 c
             | (Inr (command, targetAddr), c) \<Rightarrow>
                 if command = 0x01 then h2_connect dial targetAddr c
                 else if command = 0x03 then
                   (if \<not> AllowUDP cfg then h2_reply 0x07 c
                    else log UDPAssociate (log ClearDeadline c))
                 else h2_reply 0x07 c))"

section \<open>Reading the stream\<close>

lemma opbind_Inr:
  "opbind m f c = (Inr y, c') \<longleftrightarrow> (\<exists>x d. m c = (Inr x, d) \<and> f x d = (Inr y, c'))"
  by (auto simp: opbind_def split: prod.splits sum.splits)

lemma readFull_Inr:
  "readFull n c = (Inr bs, c') \<Longrightarrow>
     length bs = n \<and> stream c = bs @ stream c' \<and> c'\<lparr>c_in := []\<rparr> = c\<lparr>c_in := []\<rparr>"
  using src.read_Inr [of n c bs c'] by (auto simp: oplift_def split: prod.splits sum.splits)

lemma readFull_stream: "readFull n c = (Inr bs, c') \<Longrightarrow> stream c = bs @ stream c'"
  using readFull_Inr by blast

lemma readFull_frame:
  "readFull n c = (Inr bs, c') \<Longrightarrow> c_log c' = c_log c \<and> c_wok c' = c_wok c \<and> c_tries c' = c_tries c"
  using readFull_Inr [of n c bs c'] by (simp add: frame_iff)

lemma writeConn_stream:
  "writeConn bs c = (Inr u, c') \<Longrightarrow> stream c' = stream c \<and> c_log c' = c_log c @ [Sent bs]"
  by (auto simp: oplift_def conn_write_def stream_def log_def split: if_splits)

lemma readFull_prefix:
  assumes "stream c = xs @ ys"
  shows "\<exists>c'. readFull (length xs) c = (Inr xs, c') \<and> stream c' = ys \<and>
              c'\<lparr>c_in := []\<rparr> = c\<lparr>c_in := []\<rparr>"
  using src.read_prefix [OF assms] by (auto simp: oplift_def)

lemma writeConn_Inr:
  "writeConn bs c = (Inr u, c') \<longleftrightarrow>
     c_wok c (c_tries c) \<and> c' = log (Sent bs) (c\<lparr>c_tries := Suc (c_tries c)\<rparr>)"
  by (auto simp: oplift_def conn_write_def)

lemma stream_log [simp]: "stream (log a c) = stream c"
  by (simp add: stream_def log_def)

lemma stream_tries [simp]: "stream (c\<lparr>c_tries := k\<rparr>) = stream c"
  by (simp add: stream_def)

lemma c_log_log [simp]: "c_log (log a c) = c_log c @ [a]"
  by (simp add: log_def)

lemma log_fields [simp]:
  "c_end (log a c) = c_end c" "c_wok (log a c) = c_wok c" "c_tries (log a c) = c_tries c"
  "c_in (log a c) = c_in c"
  by (simp_all add: log_def)

lemma list2: "length xs = 2 \<Longrightarrow> xs = [xs ! 0, xs ! 1]"
  by (auto simp: numeral_eq_Suc length_Suc_conv)

lemma list1: "length xs = 1 \<Longrightarrow> xs = [xs ! 0]"
  by (auto simp: length_Suc_conv)

lemma list4: "length xs = 4 \<Longrightarrow> xs = [xs ! 0, xs ! 1, xs ! 2, xs ! 3]"
  by (auto simp: numeral_eq_Suc length_Suc_conv)

section \<open>The grammar of a negotiation\<close>

definition greeting :: "bytes \<Rightarrow> bytes" where
  "greeting methods = [0x05, word_of_nat (length methods)] @ methods"

definition auth_request :: "bytes \<Rightarrow> bytes \<Rightarrow> bytes" where
  "auth_request user pass =
     [0x01, word_of_nat (length user)] @ user @ [word_of_nat (length pass)] @ pass"

text \<open>The bytes a client sends to be let in under a configuration, and what it is answered.\<close>

definition negotiation :: "socks_config \<Rightarrow> bytes \<Rightarrow> bytes" where
  "negotiation cfg methods =
     greeting methods @
     (if require_auth cfg
      then auth_request (bytes_of_str (Username cfg)) (bytes_of_str (Password cfg)) else [])"

definition negotiable :: "socks_config \<Rightarrow> bytes \<Rightarrow> bool" where
  "negotiable cfg methods \<longleftrightarrow> methods \<noteq> [] \<and> length methods < 256 \<and>
     (if require_auth cfg
      then 0x02 \<in> set methods \<and> length (Username cfg) < 256 \<and> length (Password cfg) < 256
      else 0x00 \<in> set methods)"

definition answers :: "socks_config \<Rightarrow> action list" where
  "answers cfg =
     (if require_auth cfg then [Sent [0x05, 0x02], Sent [0x01, 0x00]] else [Sent [0x05, 0x00]])"

lemma counted_prefix:
  assumes "length xs = unat n"
  shows "word_of_nat (length xs) = (n :: byte) \<and> length xs < 256"
  using assms unat_byte_less [of n] by simp

text \<open>Headers of two bytes and of one byte, given by what they count.\<close>

lemma header2:
  fixes h :: bytes
  assumes "length h = 2" "h ! 0 = k" "length xs = unat (h ! 1)"
  shows "h = [k, word_of_nat (length xs)] \<and> length xs < 256"
  using list2 [OF assms(1)] assms(2) counted_prefix [OF assms(3)] by metis

lemma header1:
  fixes h :: bytes
  assumes "length h = 1" "length xs = unat (h ! 0)"
  shows "h = [word_of_nat (length xs)] \<and> length xs < 256"
  using list1 [OF assms(1)] counted_prefix [OF assms(2)] by metis

lemma negotiate_auth_sound:
  assumes "negotiate_auth cfg c = (Inr u, c')"
  shows "length (Username cfg) < 256 \<and> length (Password cfg) < 256 \<and>
         stream c = auth_request (bytes_of_str (Username cfg)) (bytes_of_str (Password cfg)) @ stream c' \<and>
         c_log c' = c_log c @ [Sent [0x01, 0x00]]"
proof -
  obtain a c4 us c5 pl c6 ps c7 where
    a: "readFull 2 c = (Inr a, c4)" "a ! 0 = 0x01" and
    us: "readFull (unat (a ! 1)) c4 = (Inr us, c5)" and
    pl: "readFull 1 c5 = (Inr pl, c6)" and
    ps: "readFull (unat (pl ! 0)) c6 = (Inr ps, c7)" and
    ok: "us = bytes_of_str (Username cfg)" "ps = bytes_of_str (Password cfg)" and
    w: "writeConn [0x01, 0x00] c7 = (Inr u, c')"
    using assms unfolding negotiate_auth_def Let_def
    by (auto simp: opbind_Inr opfail_def split: if_splits)
  have "a = [0x01, word_of_nat (length us)] \<and> length us < 256"
    using header2 a(2) readFull_Inr [OF a(1)] readFull_Inr [OF us] by blast
  moreover have "pl = [word_of_nat (length ps)] \<and> length ps < 256"
    using header1 readFull_Inr [OF pl] readFull_Inr [OF ps] by blast
  ultimately have "stream c = auth_request us ps @ stream c'" "length us < 256" "length ps < 256"
    "c_log c' = c_log c @ [Sent [0x01, 0x00]]"
    using readFull_stream [OF a(1)] readFull_stream [OF us] readFull_stream [OF pl]
      readFull_stream [OF ps] readFull_frame [OF a(1)] readFull_frame [OF us]
      readFull_frame [OF pl] readFull_frame [OF ps] writeConn_stream [OF w]
    by (simp_all add: auth_request_def)
  with ok show ?thesis by simp
qed

lemma negotiateSOCKS5_sound:
  assumes "negotiateSOCKS5 cfg c = (Inr u, c')"
  shows "\<exists>methods. negotiable cfg methods \<and> stream c = negotiation cfg methods @ stream c' \<and>
           c_log c' = c_log c @ answers cfg"
proof -
  let ?auth = "Username cfg \<noteq> [] \<and> Password cfg \<noteq> []"
  let ?sel = "if ?auth then 0x02 else 0x00 :: byte"
  obtain h c1 ms c2 c3 where
    h: "readFull 2 c = (Inr h, c1)" "h ! 0 = 0x05" "h ! 1 \<noteq> 0" and
    ms: "readFull (unat (h ! 1)) c1 = (Inr ms, c2)" "?sel \<in> set ms" and
    w: "writeConn [0x05, ?sel] c2 = (Inr (), c3)" and
    rest: "(if \<not> ?auth then opret () else negotiate_auth cfg) c3 = (Inr u, c')"
    using assms unfolding negotiateSOCKS5_def Let_def
    by (auto simp: opbind_Inr opfail_def split: if_splits)
  note rm = readFull_Inr [OF ms(1)]
  have hs: "h = [0x05, word_of_nat (length ms)]" "length ms < 256"
    using header2 [of h "0x05" ms] readFull_Inr [OF h(1)] h(2) rm by blast+
  have "length ms \<noteq> 0" using rm h(3) by (metis unat_eq_zero)
  then have ne: "ms \<noteq> []" by simp
  have s: "stream c = greeting ms @ stream c3" "c_log c3 = c_log c @ [Sent [0x05, ?sel]]"
    using readFull_stream [OF h(1)] readFull_stream [OF ms(1)] readFull_frame [OF h(1)]
      readFull_frame [OF ms(1)] writeConn_stream [OF w] hs(1) by (simp_all add: greeting_def)
  show ?thesis
  proof (cases ?auth)
    case False
    with rest have "c' = c3" by (simp add: opret_def)
    with False s hs ne ms show ?thesis
      by (auto simp: negotiable_def negotiation_def answers_def require_auth_def intro!: exI [of _ ms])
  next
    case True
    with rest have "negotiate_auth cfg c3 = (Inr u, c')" by simp
    from negotiate_auth_sound [OF this] True s hs ne ms show ?thesis
      by (auto simp: negotiable_def negotiation_def answers_def require_auth_def intro!: exI [of _ ms])
  qed
qed

lemma opbind_step: "m c = (Inr x, d) \<Longrightarrow> opbind m f c = f x d"
  by (simp add: opbind_def)

lemma readFull_complete:
  assumes "stream c = xs @ ys" "length xs = n"
  obtains c' where "readFull n c = (Inr xs, c')" "stream c' = ys" "c_log c' = c_log c"
    "c_wok c' = c_wok c" "c_tries c' = c_tries c"
proof -
  obtain c' where "readFull n c = (Inr xs, c')" "stream c' = ys" "c'\<lparr>c_in := []\<rparr> = c\<lparr>c_in := []\<rparr>"
    using readFull_prefix [OF assms(1)] assms(2) by blast
  then show ?thesis using that by (simp add: frame_iff)
qed

lemma writeConn_complete:
  assumes "c_wok c = (\<lambda>_. True)"
  obtains c' where "writeConn bs c = (Inr (), c')" "stream c' = stream c"
    "c_log c' = c_log c @ [Sent bs]" "c_wok c' = c_wok c"
proof -
  let ?d = "log (Sent bs) (c\<lparr>c_tries := Suc (c_tries c)\<rparr>)"
  have "writeConn bs c = (Inr (), ?d)" using assms by (simp add: writeConn_Inr)
  then show ?thesis by (rule that) simp_all
qed

lemma negotiate_auth_complete:
  assumes "Username cfg \<noteq> []" "length (Username cfg) < 256" "length (Password cfg) < 256"
    and "stream c = auth_request (bytes_of_str (Username cfg)) (bytes_of_str (Password cfg)) @ rest"
    and "c_wok c = (\<lambda>_. True)"
  obtains c' where "negotiate_auth cfg c = (Inr (), c')" "stream c' = rest"
    "c_log c' = c_log c @ [Sent [0x01, 0x00]]" "c_wok c' = (\<lambda>_. True)"
proof -
  let ?u = "bytes_of_str (Username cfg)" and ?p = "bytes_of_str (Password cfg)"
  let ?a = "[0x01, word_of_nat (length ?u)] :: bytes" and ?l = "[word_of_nat (length ?p)] :: bytes"
  have cu: "unat (word_of_nat (length ?u) :: byte) = length ?u"
    "unat (word_of_nat (length ?p) :: byte) = length ?p"
    using assms(2,3) by (simp_all only: unat_of_nat_byte bytes_of_str_length)
  have "?u \<noteq> []" using assms(1) by simp
  then have nu: "(word_of_nat (length ?u) :: byte) \<noteq> 0" using cu(1) by (metis length_0_conv unsigned_0)
  have "stream c = ?a @ (?u @ ?l @ ?p @ rest)" using assms(4) by (simp add: auth_request_def)
  from readFull_complete [OF this, of 2] obtain c4 where
    4: "readFull 2 c = (Inr ?a, c4)" "stream c4 = ?u @ ?l @ ?p @ rest" "c_log c4 = c_log c"
      "c_wok c4 = c_wok c"
    by (metis length_Cons list.size(3) numeral_2_eq_2)
  from readFull_complete [OF 4(2) refl] obtain c5 where
    5: "readFull (length ?u) c4 = (Inr ?u, c5)" "stream c5 = ?l @ ?p @ rest" "c_log c5 = c_log c4"
      "c_wok c5 = c_wok c4"
    by blast
  from readFull_complete [OF 5(2), of 1] obtain c6 where
    6: "readFull 1 c5 = (Inr ?l, c6)" "stream c6 = ?p @ rest" "c_log c6 = c_log c5"
      "c_wok c6 = c_wok c5"
    by (metis One_nat_def length_Cons list.size(3))
  from readFull_complete [OF 6(2) refl] obtain c7 where
    7: "readFull (length ?p) c6 = (Inr ?p, c7)" "stream c7 = rest" "c_log c7 = c_log c6"
      "c_wok c7 = c_wok c6"
    by blast
  have "c_wok c7 = (\<lambda>_. True)" using 4 5 6 7 assms(5) by simp
  from writeConn_complete [OF this] obtain c8 where
    8: "writeConn [0x01, 0x00] c7 = (Inr (), c8)" "stream c8 = stream c7"
      "c_log c8 = c_log c7 @ [Sent [0x01, 0x00]]" "c_wok c8 = c_wok c7"
    by blast
  have "negotiate_auth cfg c = (Inr (), c8)"
    unfolding negotiate_auth_def Let_def
    using 4(1) 5(1) 6(1) 7(1) 8(1) cu nu by (simp add: opbind_step del: unat_of_nat_byte)
  then show thesis using that [of c8] 4 5 6 7 8 assms(5) by simp
qed

lemma negotiateSOCKS5_complete:
  assumes "negotiable cfg ms" "stream c = negotiation cfg ms @ rest" "c_wok c = (\<lambda>_. True)"
  obtains c' where "negotiateSOCKS5 cfg c = (Inr (), c')" "stream c' = rest"
    "c_log c' = c_log c @ answers cfg" "c_wok c' = (\<lambda>_. True)"
proof -
  let ?h = "[0x05, word_of_nat (length ms)] :: bytes"
  let ?auth = "Username cfg \<noteq> [] \<and> Password cfg \<noteq> []"
  let ?sel = "if ?auth then 0x02 else 0x00 :: byte"
  let ?tail = "if ?auth
    then auth_request (bytes_of_str (Username cfg)) (bytes_of_str (Password cfg)) @ rest else rest"
  have ms: "length ms < 256" "ms \<noteq> []" "?sel \<in> set ms"
    using assms(1) by (auto simp: negotiable_def require_auth_def split: if_splits)
  have cnt: "unat (word_of_nat (length ms) :: byte) = length ms" using ms(1) by simp
  then have nz: "(word_of_nat (length ms) :: byte) \<noteq> 0" using ms(2) by (metis length_0_conv unsigned_0)
  have "stream c = ?h @ (ms @ ?tail)"
    using assms(2) by (simp add: negotiation_def greeting_def require_auth_def)
  from readFull_complete [OF this, of 2] obtain c1 where
    1: "readFull 2 c = (Inr ?h, c1)" "stream c1 = ms @ ?tail" "c_log c1 = c_log c" "c_wok c1 = c_wok c"
    by (metis length_Cons list.size(3) numeral_2_eq_2)
  from readFull_complete [OF 1(2) refl] obtain c2 where
    2: "readFull (length ms) c1 = (Inr ms, c2)" "stream c2 = ?tail" "c_log c2 = c_log c1" "c_wok c2 = c_wok c1"
    by blast
  have "c_wok c2 = (\<lambda>_. True)" using 1 2 assms(3) by simp
  from writeConn_complete [OF this] obtain c3 where
    3: "writeConn [0x05, ?sel] c2 = (Inr (), c3)" "stream c3 = stream c2"
      "c_log c3 = c_log c2 @ [Sent [0x05, ?sel]]" "c_wok c3 = c_wok c2"
    by blast
  have run: "negotiateSOCKS5 cfg c = (if \<not> ?auth then opret () else negotiate_auth cfg) c3"
    unfolding negotiateSOCKS5_def Let_def
    using ms 1(1) 2(1) 3(1) cnt nz by (simp add: opbind_step)
  show thesis
  proof (cases ?auth)
    case False
    with run have "negotiateSOCKS5 cfg c = (Inr (), c3)" by (simp add: opret_def)
    then show thesis
      using that [of c3] 1 2 3 False assms(3) by (simp add: answers_def require_auth_def)
  next
    case True
    have "length (Username cfg) < 256" "length (Password cfg) < 256"
      "stream c3 = auth_request (bytes_of_str (Username cfg)) (bytes_of_str (Password cfg)) @ rest"
      "c_wok c3 = (\<lambda>_. True)"
      using assms(1,3) True 1 2 3 by (simp_all add: negotiable_def require_auth_def)
    from negotiate_auth_complete [OF _ this] True obtain c8 where
      "negotiate_auth cfg c3 = (Inr (), c8)" "stream c8 = rest"
      "c_log c8 = c_log c3 @ [Sent [0x01, 0x00]]" "c_wok c8 = (\<lambda>_. True)"
      by blast
    then show thesis
      using that [of c8] run True 1 2 3 by (simp add: answers_def require_auth_def)
  qed
qed

section \<open>The grammar of a request\<close>

definition request :: "byte \<Rightarrow> socks_addr \<Rightarrow> 16 word \<Rightarrow> bytes" where
  "request cmd a port = [0x05, cmd, 0x00] @ enc_addr a @ be16 port"

lemma read_host_sound:
  assumes "read_host t c = (Inr host, c')"
  shows "\<exists>a. wf_addr a \<and> \<not> empty_domain a \<and> host = host_of a \<and> t # stream c = enc_addr a @ stream c' \<and>
             c_log c' = c_log c \<and> c_wok c' = c_wok c"
proof -
  consider "t = 0x01" | "t = 0x03" | "t = 0x04"
    using assms by (auto simp: read_host_def opfail_def split: if_splits)
  then show ?thesis
  proof cases
    case 1
    with assms obtain v where v: "readFull 4 c = (Inr v, c')" "host = ip_string v"
      by (auto simp: read_host_def opbind_Inr opret_def)
    with 1 readFull_Inr [OF v(1)] show ?thesis
      by (intro exI [of _ "V4 v"]) (simp add: frame_iff)
  next
    case 3
    with assms obtain v where v: "readFull 16 c = (Inr v, c')" "host = ip_string v"
      by (auto simp: read_host_def opbind_Inr opret_def)
    with 3 readFull_Inr [OF v(1)] show ?thesis
      by (intro exI [of _ "V6 v"]) (simp add: frame_iff)
  next
    case 2
    with assms obtain l c1 v where v: "readFull 1 c = (Inr l, c1)" "l ! 0 \<noteq> 0"
      "readFull (unat (l ! 0)) c1 = (Inr v, c')" "host = str_of_bytes v"
      by (auto simp: read_host_def opbind_Inr opret_def opfail_def split: if_splits)
    have l: "l = [word_of_nat (length v)]" "length v < 256"
      using header1 readFull_Inr [OF v(1)] readFull_Inr [OF v(3)] by blast+
    have "length v \<noteq> 0" using readFull_Inr [OF v(3)] v(2) by (metis unat_eq_zero)
    with 2 l v(4) readFull_stream [OF v(1)] readFull_stream [OF v(3)]
      readFull_frame [OF v(1)] readFull_frame [OF v(3)] show ?thesis
      by (intro exI [of _ "Domain v"]) simp
  qed
qed

lemma read_host_complete:
  assumes "wf_addr a" "\<not> empty_domain a" "t # stream c = enc_addr a @ rest"
  obtains c' where "read_host t c = (Inr (host_of a), c')" "stream c' = rest" "c_log c' = c_log c"
    "c_wok c' = c_wok c"
proof (cases a)
  case (V4 v)
  with assms have "stream c = v @ rest" "length v = 4" "t = 0x01" by simp_all
  with V4 that show thesis
    by (elim readFull_complete) (auto simp: read_host_def opbind_step opret_def)
next
  case (V6 v)
  with assms have "stream c = v @ rest" "length v = 16" "t = 0x04" by simp_all
  with V6 that show thesis
    by (elim readFull_complete) (auto simp: read_host_def opbind_step opret_def)
next
  case (Domain d)
  with assms have d: "length d < 256" "d \<noteq> []" "t = 0x03"
    "stream c = [word_of_nat (length d)] @ d @ rest" by simp_all
  have cnt: "unat (word_of_nat (length d) :: byte) = length d" using d(1) by simp
  then have nz: "(word_of_nat (length d) :: byte) \<noteq> 0" using d(2) by (metis length_0_conv unsigned_0)
  from readFull_complete [OF d(4), of 1] obtain c1 where
    1: "readFull 1 c = (Inr [word_of_nat (length d)], c1)" "stream c1 = d @ rest" "c_log c1 = c_log c"
      "c_wok c1 = c_wok c"
    by (metis One_nat_def length_Cons list.size(3))
  from readFull_complete [OF 1(2) refl] obtain c2 where
    2: "readFull (length d) c1 = (Inr d, c2)" "stream c2 = rest" "c_log c2 = c_log c1" "c_wok c2 = c_wok c1"
    by blast
  have "read_host t c = (Inr (host_of a), c2)"
    using Domain d(3) 1(1) 2(1) cnt nz by (simp add: read_host_def opbind_step opret_def)
  with 1 2 that show thesis by simp
qed

lemma readSOCKS5Request_sound:
  assumes "readSOCKS5Request c = (Inr (cmd, t), c')"
  shows "\<exists>a port. wf_addr a \<and> \<not> empty_domain a \<and> t = target_of a port \<and>
           stream c = request cmd a port @ stream c' \<and> c_log c' = c_log c \<and> c_wok c' = c_wok c"
proof -
  obtain h c1 host c2 p where
    h: "readFull 4 c = (Inr h, c1)" "h ! 0 = 0x05" "h ! 2 = 0x00" "h ! 1 = cmd" and
    host: "read_host (h ! 3) c1 = (Inr host, c2)" and
    p: "readFull 2 c2 = (Inr p, c')" "t = joinHostPort host (itoa (beInt (p ! 0) (p ! 1)))"
    using assms unfolding readSOCKS5Request_def
    by (auto simp: opbind_Inr opret_def opfail_def split: if_splits)
  from read_host_sound [OF host] obtain a where
    a: "wf_addr a" "\<not> empty_domain a" "host = host_of a" "h ! 3 # stream c1 = enc_addr a @ stream c2"
      "c_log c2 = c_log c1" "c_wok c2 = c_wok c1"
    by blast
  have "length h = 4" using readFull_Inr [OF h(1)] by blast
  from list4 [OF this] have hs: "h = [0x05, cmd, 0x00, h ! 3]" unfolding h(2-4) .
  have "stream c = h @ stream c1" by (rule readFull_stream [OF h(1)])
  also have "\<dots> = [0x05, cmd, 0x00, h ! 3] @ stream c1" by (subst hs) (rule refl)
  also have "\<dots> = [0x05, cmd, 0x00] @ enc_addr a @ stream c2" using a(4) by simp
  finally have "stream c = [0x05, cmd, 0x00] @ enc_addr a @ stream c2" .
  moreover have "stream c2 = be16 (beUint16 (p ! 0) (p ! 1)) @ stream c'"
    unfolding be16_beUint16
    using readFull_stream [OF p(1)] list2 [OF conjunct1 [OF readFull_Inr [OF p(1)]]] by argo
  moreover have "t = target_of a (beUint16 (p ! 0) (p ! 1))"
    using p(2) a(3) by (simp add: target_of_def beInt_beUint16)
  moreover have "c_log c' = c_log c" "c_wok c' = c_wok c"
    using readFull_frame [OF h(1)] readFull_frame [OF p(1)] a(5,6) by simp_all
  ultimately show ?thesis
    using a(1,2) by (intro exI [of _ a] exI [of _ "beUint16 (p ! 0) (p ! 1)"]) (simp add: request_def)
qed

lemma readSOCKS5Request_complete:
  assumes "wf_addr a" "\<not> empty_domain a" "stream c = request cmd a port @ rest"
  obtains c' where "readSOCKS5Request c = (Inr (cmd, target_of a port), c')" "stream c' = rest"
    "c_log c' = c_log c" "c_wok c' = c_wok c"
proof -
  obtain t bs where enc: "enc_addr a = t # bs" by (cases a) auto
  let ?h = "[0x05, cmd, 0x00, t]"
  have "stream c = ?h @ (bs @ be16 port @ rest)" "length ?h = 4"
    using assms(3) enc by (simp_all add: request_def)
  from readFull_complete [OF this] obtain c1 where
    1: "readFull 4 c = (Inr ?h, c1)" "stream c1 = bs @ be16 port @ rest" "c_log c1 = c_log c"
      "c_wok c1 = c_wok c"
    by blast
  have "t # stream c1 = enc_addr a @ be16 port @ rest" using 1(2) enc by simp
  from read_host_complete [OF assms(1,2) this] obtain c2 where
    2: "read_host t c1 = (Inr (host_of a), c2)" "stream c2 = be16 port @ rest" "c_log c2 = c_log c1"
      "c_wok c2 = c_wok c1"
    by blast
  from readFull_complete [OF 2(2), of 2] obtain c3 where
    3: "readFull 2 c2 = (Inr (be16 port), c3)" "stream c3 = rest" "c_log c3 = c_log c2"
      "c_wok c3 = c_wok c2"
    by (metis be16_length)
  have "beInt (be16 port ! 0) (be16 port ! 1) = unat port"
    by (simp only: beInt_beUint16 beUint16_be16)
  then have "readSOCKS5Request c = (Inr (cmd, target_of a port), c3)"
    unfolding readSOCKS5Request_def
    using 1(1) 2(1) 3(1) by (simp add: opbind_step opret_def target_of_def)
  then show thesis using that [of c3] 1 2 3 by simp
qed

section \<open>Independence of segmentation\<close>

lemma seg_free_negotiate_auth [seg_intros]: "seg_free (negotiate_auth cfg)"
  unfolding negotiate_auth_def Let_def by (intro seg_intros)

lemma seg_free_negotiateSOCKS5: "seg_free (negotiateSOCKS5 cfg)"
  unfolding negotiateSOCKS5_def Let_def by (intro seg_intros)

lemma seg_free_read_host [seg_intros]: "seg_free (read_host t)"
  unfolding read_host_def by (intro seg_intros)

lemma seg_free_readSOCKS5Request: "seg_free readSOCKS5Request"
  unfolding readSOCKS5Request_def by (intro seg_intros)

lemma seg_freeD:
  assumes "seg_free m" "same_stream c d" "m c = (r, c')" "m d = (r', d')"
  shows "r' = r \<and> same_stream c' d'"
  using assms unfolding seg_free_def by (metis fst_conv snd_conv)

lemma same_stream_log [simp]: "same_stream (log a c) (log a d) \<longleftrightarrow> same_stream c d"
  by (auto simp: same_stream_iff)

lemma same_stream_reply: "same_stream c d \<Longrightarrow> same_stream (h2_reply b c) (h2_reply b d)"
  using seg_free_conn_write unfolding h2_reply_def seg_free_def by blast

lemma same_stream_connect:
  assumes "same_stream c d"
  shows "same_stream (h2_connect dial t c) (h2_connect dial t d)"
proof -
  have w: "fst (writeSocks5Success x) = fst (writeSocks5Success y) \<and>
    same_stream (snd (writeSocks5Success x)) (snd (writeSocks5Success y))" if "same_stream x y" for x y
    using seg_free_oplift [OF seg_free_conn_write] that
    unfolding writeSocks5Success_def seg_free_def by blast
  let ?c = "log (Dial t) (log ClearDeadline c)" and ?d = "log (Dial t) (log ClearDeadline d)"
  have "same_stream ?c ?d" using assms by simp
  from w [OF this] same_stream_reply [OF this] same_stream_reply [OF assms] show ?thesis
    by (cases "writeSocks5Success ?c"; cases "writeSocks5Success ?d")
      (auto simp: h2_connect_def Let_def split: sum.splits option.splits)
qed

lemma same_stream_handleSOCKS5:
  assumes "same_stream c d"
  shows "same_stream (h2_handleSOCKS5 cfg dial c) (h2_handleSOCKS5 cfg dial d)"
proof -
  let ?c = "log SetDeadline c" and ?d = "log SetDeadline d"
  obtain r c1 where c1: "negotiateSOCKS5 cfg ?c = (r, c1)" by fastforce
  obtain r' d1 where "negotiateSOCKS5 cfg ?d = (r', d1)" by fastforce
  with seg_freeD [OF seg_free_negotiateSOCKS5 _ c1 this] assms
  have d1: "negotiateSOCKS5 cfg ?d = (r, d1)" "same_stream c1 d1" by simp_all
  show ?thesis
  proof (cases r)
    case (Inl e)
    with c1 d1 show ?thesis by (simp add: h2_handleSOCKS5_def)
  next
    case (Inr u)
    obtain q c2 where c2: "readSOCKS5Request c1 = (q, c2)" by fastforce
    obtain q' d2 where "readSOCKS5Request d1 = (q', d2)" by fastforce
    with seg_freeD [OF seg_free_readSOCKS5Request d1(2) c2 this]
    have d2: "readSOCKS5Request d1 = (q, d2)" "same_stream c2 d2" by simp_all
    from Inr c1 d1 c2 d2 same_stream_connect [OF d2(2)] same_stream_reply [OF d2(2)] show ?thesis
      by (auto simp: h2_handleSOCKS5_def split: sum.splits)
  qed
qed

section \<open>What the exchange before a request may do\<close>

text \<open>An operation that only writes to the client, and leaves the script of its writes alone.\<close>

fun is_reply :: "action \<Rightarrow> bool" where
  "is_reply (Sent _) = True"
| "is_reply (SendFailed _) = True"
| "is_reply _ = False"

definition replies_only :: "('e, 'a) connop \<Rightarrow> bool" where
  "replies_only m \<longleftrightarrow> (\<forall>c. \<exists>as. c_log (snd (m c)) = c_log c @ as \<and> list_all is_reply as)"

named_theorems reply_intros "operations that do nothing but reply to the client"

lemma replies_only_conn_write [reply_intros]: "replies_only (conn_write bs)"
  by (auto simp: replies_only_def conn_write_def log_def)

lemma read_full_log: "c_log (snd (read_full n c)) = c_log c"
  using read_full_enough [of n c] read_full_short [of c n]
  by (cases "n \<le> length (stream c)") (auto simp: frame_iff not_le)

lemma replies_only_read_full [reply_intros]: "replies_only (read_full n)"
  by (simp add: replies_only_def read_full_log)

lemma replies_only_opret [reply_intros]: "replies_only (opret x)"
  by (simp add: replies_only_def opret_def)

lemma replies_only_opfail [reply_intros]: "replies_only (opfail e)"
  by (simp add: replies_only_def opfail_def)

lemma replies_only_opbind [reply_intros]:
  assumes "replies_only m" "\<And>x. replies_only (f x)"
  shows "replies_only (opbind m f)"
proof -
  have "\<exists>as. c_log (snd (opbind m f c)) = c_log c @ as \<and> list_all is_reply as" for c
  proof -
    obtain r c' where m: "m c = (r, c')" by fastforce
    obtain as where as: "c_log c' = c_log c @ as" "list_all is_reply as"
      using assms(1) m unfolding replies_only_def by (metis snd_conv)
    show ?thesis
    proof (cases r)
      case (Inl e)
      with m as show ?thesis by (auto simp: opbind_def)
    next
      case (Inr x)
      obtain bs where "c_log (snd (f x c')) = c_log c' @ bs" "list_all is_reply bs"
        using assms(2) [of x] unfolding replies_only_def by blast
      with Inr m as show ?thesis by (intro exI [of _ "as @ bs"]) (simp add: opbind_def)
    qed
  qed
  then show ?thesis by (simp add: replies_only_def)
qed

lemma replies_only_oplift [reply_intros]: "replies_only m \<Longrightarrow> replies_only (oplift f m)"
proof -
  have "snd (oplift f m c) = snd (m c)" for c
    by (auto simp: oplift_def split: prod.splits sum.splits)
  then show "replies_only m \<Longrightarrow> ?thesis" by (simp add: replies_only_def)
qed

lemma replies_only_opignore [reply_intros]: "replies_only m \<Longrightarrow> replies_only (opignore m)"
  by (simp add: replies_only_def opignore_def)

lemma replies_only_if [reply_intros]:
  "replies_only a \<Longrightarrow> replies_only b \<Longrightarrow> replies_only (if P then a else b)"
  by simp

lemma replies_only_negotiate_auth [reply_intros]: "replies_only (negotiate_auth cfg)"
  unfolding negotiate_auth_def Let_def by (intro reply_intros)

lemma replies_only_negotiateSOCKS5: "replies_only (negotiateSOCKS5 cfg)"
  unfolding negotiateSOCKS5_def Let_def by (intro reply_intros)

lemma replies_only_read_host [reply_intros]: "replies_only (read_host t)"
  unfolding read_host_def by (intro reply_intros)

lemma replies_only_readSOCKS5Request: "replies_only readSOCKS5Request"
  unfolding readSOCKS5Request_def by (intro reply_intros)

lemma replies_onlyE:
  assumes "replies_only m" "m c = (r, c')"
  obtains as where "c_log c' = c_log c @ as" "list_all is_reply as"
  using assms unfolding replies_only_def by (metis snd_conv)

section \<open>The handler's log\<close>

lemma h2_reply_log:
  obtains a where "c_log (h2_reply b c) = c_log c @ [a]" "is_reply a"
  by (cases "c_wok c (c_tries c)") (auto simp: h2_reply_def conn_write_def log_def)

lemma h2_connect_log:
  obtains (refused) a where "c_log (h2_connect dial t c) = c_log c @ [a]" "is_reply a"
  | (failed) a host port err where "splitHostPort t = Inr (host, port)" "port \<noteq> ''0''" "dial t = Some err"
      "c_log (h2_connect dial t c) = c_log c @ [ClearDeadline, Dial t, a]" "is_reply a"
  | (broken) bs host port where "splitHostPort t = Inr (host, port)" "port \<noteq> ''0''" "dial t = None"
      "c_log (h2_connect dial t c) = c_log c @ [ClearDeadline, Dial t, SendFailed bs, CloseRemote]"
  | (relayed) bs host port where "splitHostPort t = Inr (host, port)" "port \<noteq> ''0''" "dial t = None"
      "c_log (h2_connect dial t c) = c_log c @
         [ClearDeadline, Dial t, Sent bs, Relay t, CloseConn, CloseRemote, CloseRemote]"
proof (cases "splitHostPort t")
  case (Inl e)
  obtain a where "c_log (h2_reply 0x08 c) = c_log c @ [a]" "is_reply a" by (rule h2_reply_log)
  with Inl refused show thesis by (simp add: h2_connect_def)
next
  case (Inr hp)
  obtain host port where hp: "splitHostPort t = Inr (host, port)" using Inr by (cases hp) simp
  let ?c = "log (Dial t) (log ClearDeadline c)"
  show thesis
  proof (cases "port = ''0''")
    case True
    obtain a where "c_log (h2_reply 0x08 c) = c_log c @ [a]" "is_reply a" by (rule h2_reply_log)
    with True hp refused show thesis by (simp add: h2_connect_def)
  next
    case False
    show thesis
    proof (cases "dial t")
      case (Some err)
      obtain a where "c_log (h2_reply (socks5ReplyForError err) ?c) = c_log ?c @ [a]" "is_reply a"
        by (rule h2_reply_log)
      with Some hp False failed show thesis by (simp add: h2_connect_def Let_def)
    next
      case None
      show thesis
      proof (cases "c_wok c (c_tries c)")
        case True
        with None hp False relayed show thesis
          by (simp add: h2_connect_def writeSocks5Success_def oplift_def conn_write_def log_def)
      next
        case False
        with None hp \<open>port \<noteq> ''0''\<close> broken show thesis
          by (simp add: h2_connect_def writeSocks5Success_def oplift_def conn_write_def log_def)
      qed
    qed
  qed
qed

text \<open>The three ways a conversation can go: turned away in the negotiation, turned away after
  it, or admitted; in the last two the client sent exactly a negotiation and a request.\<close>

lemma h2_handleSOCKS5_cases:
  obtains (rejected) as where "list_all is_reply as"
      "c_log (h2_handleSOCKS5 cfg dial c) = c_log c @ SetDeadline # as @ [CloseConn]"
  | (connect) ms a port t c1 where "negotiable cfg ms" "wf_addr a" "\<not> empty_domain a" "t = target_of a port"
      "stream c = negotiation cfg ms @ request 0x01 a port @ stream c1"
      "c_log c1 = c_log c @ SetDeadline # answers cfg"
      "h2_handleSOCKS5 cfg dial c = log CloseConn (h2_connect dial t c1)"
  | (udp) ms a port rest where "AllowUDP cfg" "negotiable cfg ms" "wf_addr a" "\<not> empty_domain a"
      "stream c = negotiation cfg ms @ request 0x03 a port @ rest"
      "c_log (h2_handleSOCKS5 cfg dial c) = c_log c @ SetDeadline # answers cfg @
         [ClearDeadline, UDPAssociate, CloseConn]"
proof -
  let ?c = "log SetDeadline c"
  obtain r c1 where 1: "negotiateSOCKS5 cfg ?c = (r, c1)" by fastforce
  obtain as where as: "c_log c1 = c_log ?c @ as" "list_all is_reply as"
    using replies_only_negotiateSOCKS5 1 by (rule replies_onlyE)
  obtain q c2 where 2: "readSOCKS5Request c1 = (q, c2)" by fastforce
  obtain bs where bs: "c_log c2 = c_log c1 @ bs" "list_all is_reply bs"
    using replies_only_readSOCKS5Request 2 by (rule replies_onlyE)
  have reply: thesis if "h2_handleSOCKS5 cfg dial c = log CloseConn (h2_reply b c2)" for b
  proof -
    obtain a where "c_log (h2_reply b c2) = c_log c2 @ [a]" "is_reply a" by (rule h2_reply_log)
    then show thesis using that rejected [of "as @ bs @ [a]"] as bs by simp
  qed
  show thesis
  proof (cases r)
    case (Inl e)
    with 1 rejected [of as] as show thesis by (simp add: h2_handleSOCKS5_def)
  next
    case r: (Inr u)
    with 1 negotiateSOCKS5_sound obtain ms where
      ms: "negotiable cfg ms" "stream c = negotiation cfg ms @ stream c1"
        "c_log c1 = c_log c @ SetDeadline # answers cfg"
      by fastforce
    show thesis
    proof (cases q)
      case (Inl e)
      with r 1 2 reply show thesis by (simp add: h2_handleSOCKS5_def)
    next
      case (Inr ct)
      then obtain cmd t where q: "q = Inr (cmd, t)" by (cases ct) simp
      from readSOCKS5Request_sound 2 q obtain a port where
        a: "wf_addr a" "\<not> empty_domain a" "t = target_of a port"
          "stream c1 = request cmd a port @ stream c2" "c_log c2 = c_log c1"
        by blast
      consider "cmd = 0x01" | "cmd = 0x03" "AllowUDP cfg"
        | "h2_handleSOCKS5 cfg dial c = log CloseConn (h2_reply 0x07 c2)"
        using r 1 2 q by (fastforce simp: h2_handleSOCKS5_def)
      then show thesis
      proof cases
        case 1
        with connect [of ms a t port c2] r \<open>negotiateSOCKS5 cfg ?c = (r, c1)\<close> 2 q ms a show thesis
          by (simp add: h2_handleSOCKS5_def)
      next
        case 2
        with udp [of ms a port "stream c2"] r \<open>negotiateSOCKS5 cfg ?c = (r, c1)\<close>
          \<open>readSOCKS5Request c1 = (q, c2)\<close> q ms a show thesis
          by (simp add: h2_handleSOCKS5_def)
      next
        case 3
        then show thesis by (rule reply)
      qed
    qed
  qed
qed

section \<open>Properties\<close>

lemma splitHostPort_target:
  "host_ok (host_of a) \<Longrightarrow> splitHostPort (target_of a port) = Inr (host_of a, itoa (unat port))"
  by (simp add: target_of_def net.split_of_join)

lemma itoa_unat_zero [simp]: "itoa (unat (port :: 16 word)) = ''0'' \<longleftrightarrow> port = 0"
proof
  assume "itoa (unat port) = ''0''"
  then have "atoi (itoa (unat port)) = atoi ''0''" by simp
  moreover have "atoi ''0'' = Some 0" by code_simp
  moreover have "unat port < 2 ^ 63" using unsigned_less [of port, where ?'a = nat] by simp
  ultimately show "port = 0" using atoi_itoa by (simp add: uint_0_iff)
next
  have "itoa 0 = ''0''" by code_simp
  then show "port = 0 \<Longrightarrow> itoa (unat port) = ''0''" by simp
qed

text \<open>C31: \<open>negotiateSOCKS5\<close> succeeds on exactly the byte streams that start with a greeting
  offering the method the configuration asks for, followed, when credentials are configured,
  by a username/password request that carries exactly these credentials.\<close>

theorem negotiateSOCKS5_iff:
  assumes "c_wok c = (\<lambda>_. True)"
  shows "(\<exists>c'. negotiateSOCKS5 cfg c = (Inr (), c')) \<longleftrightarrow>
         (\<exists>methods rest. negotiable cfg methods \<and> stream c = negotiation cfg methods @ rest)"
proof
  show "\<exists>c'. negotiateSOCKS5 cfg c = (Inr (), c') \<Longrightarrow>
    \<exists>methods rest. negotiable cfg methods \<and> stream c = negotiation cfg methods @ rest"
    using negotiateSOCKS5_sound by blast
next
  assume "\<exists>methods rest. negotiable cfg methods \<and> stream c = negotiation cfg methods @ rest"
  then show "\<exists>c'. negotiateSOCKS5 cfg c = (Inr (), c')"
    using assms by (elim exE conjE) (rule negotiateSOCKS5_complete, auto)
qed

definition quiet_conn :: "bytes list \<Rightarrow> conn" where
  "quiet_conn segs = \<lparr>c_in = segs, c_end = EOF, c_wok = (\<lambda>_. True), c_tries = 0, c_log = []\<rparr>"

lemma quiet_conn_fields [simp]:
  "c_wok (quiet_conn segs) = (\<lambda>_. True)" "c_log (quiet_conn segs) = []"
  "stream (quiet_conn segs) = concat segs"
  by (simp_all add: quiet_conn_def stream_def)

theorem negotiateSOCKS5_iff_witness:
  "\<exists>c'. negotiateSOCKS5 \<lparr>Username = ''u'', Password = ''p'', AllowUDP = True\<rparr>
          (quiet_conn [[5, 2, 0], [2, 1, 1], [117, 1], [112, 5]]) = (Inr (), c')"
  unfolding negotiateSOCKS5_iff [OF quiet_conn_fields(1)]
  by (intro exI [of _ "[0, 2]"] exI [of _ "[5]"])
    (simp add: negotiable_def negotiation_def require_auth_def greeting_def auth_request_def bytes_of_str_def)

text \<open>C32: \<open>readSOCKS5Request\<close> returns a command and a target on exactly the streams that start with
  the encoding of a request for them: version 5, a zero reserved byte, an address that is not
  an empty domain, and a big-endian port.\<close>

theorem readSOCKS5Request_iff:
  "(\<exists>c'. readSOCKS5Request c = (Inr (cmd, t), c') \<and> stream c' = rest) \<longleftrightarrow>
   (\<exists>a port. wf_addr a \<and> \<not> empty_domain a \<and> t = target_of a port \<and> stream c = request cmd a port @ rest)"
proof
  assume "\<exists>c'. readSOCKS5Request c = (Inr (cmd, t), c') \<and> stream c' = rest"
  then show "\<exists>a port. wf_addr a \<and> \<not> empty_domain a \<and> t = target_of a port \<and>
      stream c = request cmd a port @ rest"
    using readSOCKS5Request_sound by blast
next
  assume "\<exists>a port. wf_addr a \<and> \<not> empty_domain a \<and> t = target_of a port \<and>
      stream c = request cmd a port @ rest"
  then show "\<exists>c'. readSOCKS5Request c = (Inr (cmd, t), c') \<and> stream c' = rest"
    by (elim exE conjE) (rule readSOCKS5Request_complete, auto)
qed

text \<open>C29: the HTTP/2 handler's behaviour is a function of the client's byte stream: two connections
  that deliver the same bytes in different segments get the same replies and cause the same
  dials, in the same order.\<close>

theorem h2_segmentation_independent:
  assumes "concat segs = concat segs'"
  shows "c_log (h2_handleSOCKS5 cfg dial (quiet_conn segs)) =
         c_log (h2_handleSOCKS5 cfg dial (quiet_conn segs'))"
proof -
  have "same_stream (quiet_conn segs) (quiet_conn segs')"
    using assms by (simp add: same_stream_iff quiet_conn_def stream_def)
  then show ?thesis using same_stream_handleSOCKS5 by (simp add: same_stream_iff)
qed

theorem h2_segmentation_independent_witness:
  "c_log (h2_handleSOCKS5 \<lparr>Username = [], Password = [], AllowUDP = False\<rparr> (\<lambda>_. None)
     (quiet_conn [[5, 1], [0, 5], [1, 0, 1, 10, 0, 0], [1, 0, 80]])) =
   c_log (h2_handleSOCKS5 \<lparr>Username = [], Password = [], AllowUDP = False\<rparr> (\<lambda>_. None)
     (quiet_conn [[5, 1, 0, 5, 1, 0, 1, 10, 0, 0, 1, 0, 80]]))"
  by (rule h2_segmentation_independent) simp

lemma is_reply_simps [simp]:
  "list_all is_reply as \<Longrightarrow> Dial t \<notin> set as" "list_all is_reply as \<Longrightarrow> UDPAssociate \<notin> set as"
  "list_all is_reply as \<Longrightarrow> Relay t \<notin> set as"
  by (auto simp: list_all_iff)

lemma answers_replies [simp]: "list_all is_reply (answers cfg)"
  by (simp add: answers_def)

text \<open>C1: the HTTP/2 handler dials a target only for a client that negotiated as the configuration
  asks, its credentials included, and that then sent a CONNECT request for this very target.\<close>

theorem h2_dials_only_admitted:
  assumes "Dial t \<in> set (c_log (h2_handleSOCKS5 cfg dial (quiet_conn segs)))"
  shows "\<exists>methods a port rest. negotiable cfg methods \<and> wf_addr a \<and> \<not> empty_domain a \<and>
           t = target_of a port \<and> concat segs = negotiation cfg methods @ request 0x01 a port @ rest"
proof (cases rule: h2_handleSOCKS5_cases [of cfg dial "quiet_conn segs"])
  case (rejected as)
  with assms show ?thesis by simp
next
  case (udp ms a port rest)
  with assms show ?thesis by simp
next
  case (connect ms a port u c1)
  have "t = u"
    using assms connect by (cases rule: h2_connect_log [of dial u c1]) auto
  with connect show ?thesis by fastforce
qed

theorem h2_dials_only_admitted_witness:
  "\<exists>methods a port rest. negotiable \<lparr>Username = [], Password = [], AllowUDP = False\<rparr> methods \<and>
     wf_addr a \<and> \<not> empty_domain a \<and> ''10.0.0.1:80'' = target_of a port \<and>
     concat [[5, 1, 0], [5, 1, 0, 1, 10, 0, 0, 1, 0, 80]] =
       negotiation \<lparr>Username = [], Password = [], AllowUDP = False\<rparr> methods @ request 0x01 a port @ rest"
  by (rule h2_dials_only_admitted [where dial = "\<lambda>_. None"]) code_simp

text \<open>The HTTP/2 handler starts a UDP association only when the configuration allows it, and
  only for a client that negotiated as asked and sent a UDP ASSOCIATE request.\<close>

theorem h2_udp_only_admitted:
  assumes "UDPAssociate \<in> set (c_log (h2_handleSOCKS5 cfg dial (quiet_conn segs)))"
  shows "AllowUDP cfg \<and> (\<exists>methods a port rest. negotiable cfg methods \<and> wf_addr a \<and> \<not> empty_domain a \<and>
           concat segs = negotiation cfg methods @ request 0x03 a port @ rest)"
proof (cases rule: h2_handleSOCKS5_cases [of cfg dial "quiet_conn segs"])
  case (rejected as)
  with assms show ?thesis by simp
next
  case (udp ms a port rest)
  then show ?thesis by fastforce
next
  case (connect ms a port u c1)
  then show ?thesis
    using assms connect by (cases rule: h2_connect_log [of dial u c1]) auto
qed

theorem h2_udp_only_admitted_witness:
  "AllowUDP \<lparr>Username = ''a'', Password = ''b'', AllowUDP = True\<rparr> \<and>
   (\<exists>methods a port rest. negotiable \<lparr>Username = ''a'', Password = ''b'', AllowUDP = True\<rparr> methods \<and>
     wf_addr a \<and> \<not> empty_domain a \<and>
     concat [[5, 1], [2, 1, 1, 97, 1, 98, 5], [3, 0, 1, 0, 0, 0, 0, 0, 0]] =
       negotiation \<lparr>Username = ''a'', Password = ''b'', AllowUDP = True\<rparr> methods @ request 0x03 a port @ rest)"
  by (rule h2_udp_only_admitted [where dial = "\<lambda>_. None"]) code_simp

text \<open>C33: a client of the HTTP/2 handler that negotiates as asked and requests a CONNECT to a valid
  target is served: the answers of the negotiation, then the deadline is lifted and the
  target is dialled; on success the success reply, the relay, and both connections closed; on
  failure the reply code of the error.\<close>

theorem h2_connect_conversation:
  assumes "negotiable cfg methods" "wf_addr a" "\<not> empty_domain a" "host_ok (host_of a)" "port \<noteq> 0"
    and "concat segs = negotiation cfg methods @ request 0x01 a port @ rest"
  shows "c_log (h2_handleSOCKS5 cfg dial (quiet_conn segs)) =
    SetDeadline # answers cfg @ [ClearDeadline, Dial (target_of a port)] @
    (case dial (target_of a port) of
       None \<Rightarrow> [Sent sendSocks5Success, Relay (target_of a port), CloseConn, CloseRemote, CloseRemote]
     | Some err \<Rightarrow> [Sent (sendSocks5Err (socks5ReplyForError err))]) @ [CloseConn]"
proof -
  let ?c = "log SetDeadline (quiet_conn segs)" and ?t = "target_of a port"
  have "stream ?c = negotiation cfg methods @ (request 0x01 a port @ rest)" "c_wok ?c = (\<lambda>_. True)"
    using assms(6) by simp_all
  from negotiateSOCKS5_complete [OF assms(1) this] obtain c1 where
    1: "negotiateSOCKS5 cfg ?c = (Inr (), c1)" "stream c1 = request 0x01 a port @ rest"
      "c_log c1 = c_log ?c @ answers cfg" "c_wok c1 = (\<lambda>_. True)"
    by blast
  from readSOCKS5Request_complete [OF assms(2,3) 1(2)] obtain c2 where
    2: "readSOCKS5Request c1 = (Inr (0x01, ?t), c2)" "c_log c2 = c_log c1" "c_wok c2 = c_wok c1"
    by blast
  have "c_log (h2_connect dial ?t c2) = c_log c2 @ [ClearDeadline, Dial ?t] @
    (case dial ?t of
       None \<Rightarrow> [Sent sendSocks5Success, Relay ?t, CloseConn, CloseRemote, CloseRemote]
     | Some err \<Rightarrow> [Sent (sendSocks5Err (socks5ReplyForError err))])"
    using assms(4,5) 1(4) 2(3)
    by (simp add: h2_connect_def splitHostPort_target Let_def h2_reply_def writeSocks5Success_def
        oplift_def conn_write_def sendSocks5Success_def split: option.splits)
  then show ?thesis
    using 1 2 by (simp add: h2_handleSOCKS5_def)
qed

theorem h2_connect_conversation_witness:
  "c_log (h2_handleSOCKS5 \<lparr>Username = [], Password = [], AllowUDP = False\<rparr> (\<lambda>_. None)
     (quiet_conn [[5, 1, 0, 5, 1, 0, 3], [2, 120, 121, 1, 187, 9]])) =
    SetDeadline # answers \<lparr>Username = [], Password = [], AllowUDP = False\<rparr> @
    [ClearDeadline, Dial (target_of (Domain [120, 121]) 443)] @
    (case None of
       None \<Rightarrow> [Sent sendSocks5Success, Relay (target_of (Domain [120, 121]) 443), CloseConn, CloseRemote, CloseRemote]
     | Some err \<Rightarrow> [Sent (sendSocks5Err (socks5ReplyForError err))]) @ [CloseConn]"
  by (rule h2_connect_conversation [where methods = "[0]" and rest = "[9]"]) code_simp+

text \<open>Every conversation of the HTTP/2 handler ends with the client's connection closed, and a
  remote connection that was established is closed before that, whatever the client sends and
  whichever of the handler's writes fail.\<close>

theorem h2_closes_what_it_opens:
  "last (c_log (h2_handleSOCKS5 cfg dial c)) = CloseConn \<and>
   (c_log c = [] \<longrightarrow> Dial t \<in> set (c_log (h2_handleSOCKS5 cfg dial c)) \<longrightarrow> dial t = None \<longrightarrow>
      CloseRemote \<in> set (c_log (h2_handleSOCKS5 cfg dial c)))"
proof (cases rule: h2_handleSOCKS5_cases [of cfg dial c])
  case (connect ms a port u c1)
  then show ?thesis
    by (cases rule: h2_connect_log [of dial u c1]) auto
qed auto

theorem h2_closes_what_it_opens_witness:
  "CloseRemote \<in> set (c_log (h2_handleSOCKS5 \<lparr>Username = [], Password = [], AllowUDP = False\<rparr> (\<lambda>_. None)
     (quiet_conn [[5, 1, 0, 5, 1, 0, 1, 10, 0, 0, 1, 0, 80]])))"
  by (rule h2_closes_what_it_opens [THEN conjunct2, rule_format, where t = "''10.0.0.1:80''"])
    (simp, code_simp, simp)

end
