(* ===== verification/Dns_Resolver.thy ===== *)
theory Dns_Resolver
  imports Go_IP_Text "HOL-Library.AList"
begin

text \<open>
  Name resolution through the tunnel (\<open>tunnel/masque.go\<close>): the answer parser with its TTL
  clamp, one question on the shared DoH connection (\<open>dnsQueryType\<close>), the pair of questions
  whose IPv4 answer is preferred (\<open>dnsQuery\<close>), the bounded resolution cache, the lookup with
  its single retry (\<open>resolveDNS\<close>) and the normalisation of a target (\<open>resolveTarget\<close>). The
  wire codec of DNS messages, which is a third-party package, and the exchange with the
  resolver are parameters. Lookups that share one flight are the subject of \<open>Dns_Flight\<close>.
\<close>

section \<open>Answers\<close>

datatype qtype = TypeA | TypeAAAA

text \<open>What the program looks at in an unpacked message: the response code, and of each answer
  its TTL and its body. An \<open>AResource\<close> holds an array of 4 bytes, an \<open>AAAAResource\<close> one of 16.\<close>

datatype resource_body = AResource bytes | AAAAResource bytes | OtherResource

record resource =
  r_ttl :: "32 word"
  r_body :: resource_body

record message =
  m_rcode :: nat
  m_answers :: "resource list"

fun wf_body :: "resource_body \<Rightarrow> bool" where
  "wf_body (AResource a) = (length a = 4)"
| "wf_body (AAAAResource a) = (length a = 16)"
| "wf_body OtherResource = True"

definition wf_message :: "message \<Rightarrow> bool" where
  "wf_message m \<longleftrightarrow> list_all (\<lambda>r. wf_body (r_body r)) (m_answers m)"

datatype qerr =
    BadName | PackFailed | QueryExpired | DoHTransport | BadStatus nat | BadMessage | BadRCode nat
  | NoRecord qtype | NoAddress | ConnFailed

text \<open>\<open>time.Duration\<close> counts nanoseconds in an \<open>int64\<close>.\<close>

type_synonym duration = "64 word"

definition second :: duration where
  "second = 1000000000"

definition dohMinTTL :: duration where
  "dohMinTTL = 5 * second"

definition dohMaxTTL :: duration where
  "dohMaxTTL = 5 * 60 * second"

definition clamp_ttl :: "32 word \<Rightarrow> duration" where
  "clamp_ttl t =
     (let ttl = ucast t * second;
          ttl = (if ttl <s dohMinTTL then dohMinTTL else ttl)
      in if dohMaxTTL <s ttl then dohMaxTTL else ttl)"

fun body_ip :: "qtype \<Rightarrow> resource_body \<Rightarrow> ip option" where
  "body_ip q (AResource a) = (if q \<noteq> TypeA then None else Some a)"
| "body_ip q (AAAAResource a) = (if q \<noteq> TypeAAAA then None else Some a)"
| "body_ip q OtherResource = None"

fun first_answer :: "qtype \<Rightarrow> resource list \<Rightarrow> (ip \<times> duration) option" where
  "first_answer q [] = None"
| "first_answer q (ans # rest) =
     (case body_ip q (r_body ans) of
        None \<Rightarrow> first_answer q rest
      | Some ip \<Rightarrow> Some (ip, clamp_ttl (r_ttl ans)))"

definition parseDoHAnswer ::
    "(bytes \<Rightarrow> message option) \<Rightarrow> bytes \<Rightarrow> qtype \<Rightarrow> qerr + (ip \<times> duration)" where
  "parseDoHAnswer unpack body q =
     (case unpack body of
        None \<Rightarrow> Inl BadMessage
      | Some msg \<Rightarrow>
          if m_rcode msg \<noteq> 0 then Inl (BadRCode (m_rcode msg))
          else case first_answer q (m_answers msg) of
                 Some a \<Rightarrow> Inr a
               | None \<Rightarrow> Inl (NoRecord q))"

section \<open>One question\<close>

definition fqdn :: "string \<Rightarrow> string" where
  "fqdn host = (if host \<noteq> [] \<and> last host = CHR ''.'' then host else host @ ''.'')"

text \<open>The codec: \<open>NewName\<close> (whether it accepts a name), \<open>Pack\<close> and \<open>Unpack\<close>.\<close>

record codec =
  new_name :: "string \<Rightarrow> bool"
  pack :: "string \<Rightarrow> qtype \<Rightarrow> bytes option"
  unpack :: "bytes \<Rightarrow> message option"

text \<open>What a \<open>RoundTrip\<close> brings: an error, or a status, the body and whether reading it
  failed; and whether the query's own context has expired by then.\<close>

datatype exchange = RoundTripFailed | Response nat bytes bool

record round_trip =
  rt_result :: exchange
  rt_expired :: bool

definition dohMaxResponseSize :: nat where
  "dohMaxResponseSize = push_bit 10 64"

text \<open>The result and whether the shared connection is retired (\<open>invalidateDoH\<close>).\<close>

definition dnsQueryType ::
    "codec \<Rightarrow> (bytes \<Rightarrow> round_trip) \<Rightarrow> string \<Rightarrow> qtype \<Rightarrow> (qerr + (ip \<times> duration)) \<times> bool" where
  "dnsQueryType cd trip host q =
     (if \<not> new_name cd (fqdn host) then (Inl BadName, False)
      else case pack cd (fqdn host) q of
        None \<Rightarrow> (Inl PackFailed, False)
      | Some wire \<Rightarrow>
          (let rt = trip wire in
           case rt_result rt of
             RoundTripFailed \<Rightarrow>
               if rt_expired rt then (Inl QueryExpired, False) else (Inl DoHTransport, True)
           | Response status body readErr \<Rightarrow>
               let body = take dohMaxResponseSize body in
               if readErr then
                 (if rt_expired rt then (Inl QueryExpired, False) else (Inl DoHTransport, True))
               else if status \<noteq> 200 then (Inl (BadStatus status), False)
               else (parseDoHAnswer (unpack cd) body q, False)))"

section \<open>Two questions\<close>

text \<open>The loop of \<open>dnsQuery\<close> over the answers in the order they arrive: an IPv4 address is
  returned at once, an IPv6 address is kept, a transport error outranks other errors.\<close>

fun collect ::
    "(qerr + (ip \<times> duration)) list \<Rightarrow> (ip \<times> duration) option \<Rightarrow> qerr option \<Rightarrow>
     qerr + (ip \<times> duration)" where
  "collect [] v6 transportErr =
     (case v6 of
        Some a \<Rightarrow> Inr a
      | None \<Rightarrow> (case transportErr of Some e \<Rightarrow> Inl e | None \<Rightarrow> Inl NoAddress))"
| "collect (Inl e # results) v6 transportErr =
     collect results v6 (if transportErr = None \<or> e = DoHTransport then Some e else transportErr)"
| "collect (Inr (ip, ttl) # results) v6 transportErr =
     (if to4 ip \<noteq> None then Inr (ip, ttl) else collect results (Some (ip, ttl)) transportErr)"

text \<open>\<open>a_first\<close> says which of the two goroutines delivers first. Besides the result, whether the
  shared connection is retired by one of them.\<close>

definition dnsQuery ::
    "codec \<Rightarrow> bool \<Rightarrow> (bytes \<Rightarrow> round_trip) \<Rightarrow> bool \<Rightarrow> string \<Rightarrow> (qerr + (ip \<times> duration)) \<times> bool" where
  "dnsQuery cd conn_ok trip a_first host =
     (if \<not> conn_ok then (Inl ConnFailed, False)
      else
        let (a, retired_a) = dnsQueryType cd trip host TypeA;
            (aaaa, retired_aaaa) = dnsQueryType cd trip host TypeAAAA
        in (collect (if a_first then [a, aaaa] else [aaaa, a]) None None, retired_a \<or> retired_aaaa))"

section \<open>The cache\<close>

record cache_entry =
  e_ip :: ip
  expiresAt :: int

type_synonym cache = "(string \<times> cache_entry) list"

definition dnsCacheSweepAt :: nat where
  "dnsCacheSweepAt = 1024"

definition dnsCacheMaxEntries :: nat where
  "dnsCacheMaxEntries = 8192"

text \<open>The sweep: one pass over the entries, deleting those that have expired.\<close>

definition sweep :: "int \<Rightarrow> cache \<Rightarrow> cache" where
  "sweep now c =
     foldl (\<lambda>m (name, entry). if \<not> now < expiresAt entry then AList.delete name m else m) c c"

definition cacheResolution ::
    "string \<Rightarrow> ip \<Rightarrow> duration \<Rightarrow> int \<Rightarrow> int \<Rightarrow> cache \<Rightarrow> cache" where
  "cacheResolution host ip ttl sweep_now now c =
     (let c1 =
        (if dnsCacheSweepAt \<le> length c then
           let c2 = sweep sweep_now c in
           if dnsCacheMaxEntries \<le> length c2 then [] else c2
         else c)
      in AList.update host \<lparr>e_ip = ip, expiresAt = now + sint ttl\<rparr> c1)"

definition cache_lookup :: "string \<Rightarrow> int \<Rightarrow> cache \<Rightarrow> ip option" where
  "cache_lookup host now c =
     (case map_of c host of
        Some entry \<Rightarrow> if now < expiresAt entry then Some (e_ip entry) else None
      | None \<Rightarrow> None)"

section \<open>The lookup\<close>

definition shouldRetryDoH :: "qerr \<Rightarrow> bool \<Rightarrow> bool" where
  "shouldRetryDoH err ctx_done \<longleftrightarrow> err = DoHTransport \<and> \<not> ctx_done"

text \<open>The loop \<open>for attempt := 0; attempt < 2; attempt++\<close>: \<open>query\<close> gives the result of each
  attempt, \<open>ctx_done\<close> whether the caller's context is over after it. The first argument counts
  the attempts left; the number of attempts made is returned with the result.\<close>

fun attempts ::
    "nat \<Rightarrow> nat \<Rightarrow> (nat \<Rightarrow> qerr + (ip \<times> duration)) \<Rightarrow> (nat \<Rightarrow> bool) \<Rightarrow> qerr option \<Rightarrow>
     (qerr option + (ip \<times> duration)) \<times> nat" where
  "attempts 0 attempt query ctx_done lastErr = (Inl lastErr, attempt)"
| "attempts (Suc n) attempt query ctx_done lastErr =
     (case query attempt of
        Inr a \<Rightarrow> (Inr a, Suc attempt)
      | Inl err \<Rightarrow>
          if \<not> shouldRetryDoH err (ctx_done attempt) then (Inl (Some err), Suc attempt)
          else attempts n (Suc attempt) query ctx_done (Some err))"

record clock =
  t_lookup :: int
  t_sweep :: int
  t_store :: int

text \<open>\<open>resolveDNS\<close> of a caller that leads its flight: the cache, then at most two attempts, a
  success being cached.\<close>

definition resolveDNS ::
    "clock \<Rightarrow> (nat \<Rightarrow> qerr + (ip \<times> duration)) \<Rightarrow> (nat \<Rightarrow> bool) \<Rightarrow> string \<Rightarrow> cache \<Rightarrow>
     (qerr option + ip) \<times> cache" where
  "resolveDNS t query ctx_done host c =
     (case cache_lookup host (t_lookup t) c of
        Some ip \<Rightarrow> (Inr ip, c)
      | None \<Rightarrow>
          (case fst (attempts 2 0 query ctx_done None) of
             Inr (ip, ttl) \<Rightarrow> (Inr ip, cacheResolution host ip ttl (t_sweep t) (t_store t) c)
           | Inl e \<Rightarrow> (Inl e, c)))"

datatype target_error = BadTarget addr_error | DnsFailed "qerr option"

text \<open>\<open>resolveTarget\<close>, over the resolver \<open>rs\<close> applied to the state it works on.\<close>

definition resolveTarget ::
    "(string \<Rightarrow> 's \<Rightarrow> (qerr option + ip) \<times> 's) \<Rightarrow> string \<Rightarrow> 's \<Rightarrow>
     (target_error + (string \<times> string)) \<times> 's" where
  "resolveTarget rs targetAddr s =
     (case splitHostPort targetAddr of
        Inl e \<Rightarrow> (Inl (BadTarget e), s)
      | Inr (host, port) \<Rightarrow>
          if parseIP host \<noteq> None then (Inr (joinHostPort host port, []), s)
          else
            (case rs host s of
               (Inl e, s) \<Rightarrow> (Inl (DnsFailed e), s)
             | (Inr ip, s) \<Rightarrow> (Inr (joinHostPort (ip_string ip) port, host), s)))"

section \<open>Answers: the TTL and the address\<close>

lemma sint_small:
  fixes x :: "64 word"
  assumes "uint x < 2 ^ 63"
  shows "sint x = uint x"
proof -
  have "- (2 ^ 63) \<le> uint x" by (rule order_trans [OF _ uint_ge_0]) simp
  with assms show ?thesis by (simp add: sint_uint signed_take_bit_int_eq_self)
qed

lemma ttl_product: "uint (ucast (t :: 32 word) * second) = uint t * 1000000000"
proof -
  have t: "0 \<le> uint t" "uint t < 2 ^ 32" using uint_lt2p [of t] by simp_all
  have "uint (ucast t :: 64 word) = uint t"
    using t by (simp add: unsigned_ucast_eq take_bit_int_eq_self)
  moreover have "uint t * 1000000000 < 2 ^ 64" using t by simp
  ultimately show ?thesis
    using t by (simp add: second_def uint_word_ariths take_bit_int_eq_self flip: take_bit_eq_mod)
qed

lemma sint_ttl: "sint (ucast (t :: 32 word) * second) = uint t * 1000000000"
proof -
  have "uint t * 1000000000 < 2 ^ 63" using uint_lt2p [of t] by simp
  then show ?thesis using ttl_product [of t] by (simp add: sint_small)
qed

text \<open>The lifetime of an answer is its TTL in nanoseconds, brought into the interval from 5
  seconds to 5 minutes; the product never wraps around the 64-bit duration.\<close>

theorem clamp_ttl_eq:
  "sint (clamp_ttl t) = max (5 * 10 ^ 9) (min (300 * 10 ^ 9) (uint t * 10 ^ 9))"
proof -
  have m: "sint dohMinTTL = 5000000000" "sint dohMaxTTL = 300000000000"
    by (simp_all add: dohMinTTL_def dohMaxTTL_def second_def)
  show ?thesis
    unfolding clamp_ttl_def Let_def word_sless_alt
    using m sint_ttl [of t] by (auto simp: max_def min_def)
qed

lemma clamp_ttl_bounds: "5 * 10 ^ 9 \<le> sint (clamp_ttl t)" "sint (clamp_ttl t) \<le> 300 * 10 ^ 9"
  unfolding clamp_ttl_def Let_def word_sless_alt
  by (simp_all add: dohMinTTL_def dohMaxTTL_def second_def)

lemma body_ip_length:
  "wf_body b \<Longrightarrow> body_ip q b = Some ip \<Longrightarrow> length ip = (if q = TypeA then 4 else 16)"
  by (cases b) (auto split: if_splits)

lemma first_answer_skip:
  "\<forall>x \<in> set pre. body_ip q (r_body x) = None \<Longrightarrow> first_answer q (pre @ rs) = first_answer q rs"
  by (induction pre) auto

lemma first_answer_Some:
  "first_answer q rs = Some (ip, ttl) \<longleftrightarrow>
     (\<exists>pre r post. rs = pre @ r # post \<and> (\<forall>x \<in> set pre. body_ip q (r_body x) = None) \<and>
        body_ip q (r_body r) = Some ip \<and> ttl = clamp_ttl (r_ttl r))"
    (is "?l \<longleftrightarrow> ?r")
proof (cases "\<exists>x \<in> set rs. body_ip q (r_body x) \<noteq> None")
  case True
  from split_list_first_propE [OF this] obtain pre r post where
    r: "rs = pre @ r # post" "body_ip q (r_body r) \<noteq> None" "\<forall>x \<in> set pre. \<not> body_ip q (r_body x) \<noteq> None"
    by metis
  then obtain a where a: "body_ip q (r_body r) = Some a" by auto
  have "first_answer q rs = Some (a, clamp_ttl (r_ttl r))"
    using r first_answer_skip [of pre q "r # post"] a by simp
  then show ?thesis using r a first_answer_skip by fastforce
next
  case False
  then have "first_answer q (rs @ []) = first_answer q []" by (intro first_answer_skip) simp
  then show ?thesis using False by auto
qed

lemma parseDoHAnswer_Inr:
  assumes "parseDoHAnswer un body q = Inr (ip, ttl)"
  obtains msg pre r post where "un body = Some msg" "m_rcode msg = 0" "m_answers msg = pre @ r # post"
    "\<forall>x \<in> set pre. body_ip q (r_body x) = None" "body_ip q (r_body r) = Some ip" "ttl = clamp_ttl (r_ttl r)"
  using assms first_answer_Some
  by (fastforce simp: parseDoHAnswer_def split: option.splits if_splits)

text \<open>An answer accepted by \<open>parseDoHAnswer\<close> is the first record of the asked family in a
  message with response code 0: four bytes for A, sixteen for AAAA.\<close>

theorem parseDoHAnswer_first:
  assumes "\<forall>msg. un body = Some msg \<longrightarrow> wf_message msg"
  shows "parseDoHAnswer un body q = Inr (ip, ttl) \<longleftrightarrow>
    (\<exists>msg pre r post. un body = Some msg \<and> m_rcode msg = 0 \<and> m_answers msg = pre @ r # post \<and>
       (\<forall>x \<in> set pre. body_ip q (r_body x) = None) \<and>
       (r_body r = (if q = TypeA then AResource ip else AAAAResource ip)) \<and>
       length ip = (if q = TypeA then 4 else 16) \<and> ttl = clamp_ttl (r_ttl r))"
    (is "?l \<longleftrightarrow> ?r")
proof
  assume ?l
  then obtain msg pre r post where r: "un body = Some msg" "m_rcode msg = 0"
    "m_answers msg = pre @ r # post" "\<forall>x \<in> set pre. body_ip q (r_body x) = None"
    "body_ip q (r_body r) = Some ip" "ttl = clamp_ttl (r_ttl r)"
    by (rule parseDoHAnswer_Inr)
  have "wf_body (r_body r)" using assms r by (simp add: wf_message_def)
  moreover have "r_body r = (if q = TypeA then AResource ip else AAAAResource ip)"
    using r(5) by (cases "r_body r"; cases q) (auto split: if_splits)
  ultimately show ?r using r body_ip_length by blast
next
  assume ?r
  then obtain msg pre r post where "un body = Some msg" "m_rcode msg = 0"
    "m_answers msg = pre @ r # post" "\<forall>x \<in> set pre. body_ip q (r_body x) = None"
    "r_body r = (if q = TypeA then AResource ip else AAAAResource ip)" "ttl = clamp_ttl (r_ttl r)"
    by blast
  moreover from this have "first_answer q (m_answers msg) = Some (ip, ttl)"
    unfolding first_answer_Some by (intro exI [of _ pre] exI [of _ r] exI [of _ post]) (cases q, auto)
  ultimately show ?l by (simp add: parseDoHAnswer_def)
qed

theorem parseDoHAnswer_first_witness:
  "parseDoHAnswer (\<lambda>_. Some \<lparr>m_rcode = 0, m_answers =
       [\<lparr>r_ttl = 60, r_body = OtherResource\<rparr>, \<lparr>r_ttl = 90, r_body = AResource [1, 2, 3, 4]\<rparr>]\<rparr>) [] TypeA =
     Inr ([1, 2, 3, 4], clamp_ttl 90)"
  by (subst parseDoHAnswer_first)
    (simp_all add: wf_message_def, intro exI [of _ "[\<lparr>r_ttl = 60, r_body = OtherResource\<rparr>]"], auto)

section \<open>The pair of questions\<close>

definition wf_codec :: "codec \<Rightarrow> bool" where
  "wf_codec cd \<longleftrightarrow> (\<forall>body msg. unpack cd body = Some msg \<longrightarrow> wf_message msg)"

lemma dnsQueryType_Inr:
  assumes "wf_codec cd" "dnsQueryType cd trip host q = (Inr (ip, ttl), retired)"
  shows "length ip = (if q = TypeA then 4 else 16) \<and> \<not> retired \<and> (\<exists>t. ttl = clamp_ttl t)"
proof -
  obtain body where p: "parseDoHAnswer (unpack cd) body q = Inr (ip, ttl)" "\<not> retired"
    using assms(2)
    by (auto simp: dnsQueryType_def Let_def split: if_splits option.splits exchange.splits)
  from p(1) obtain msg pre r post where r: "unpack cd body = Some msg" "m_answers msg = pre @ r # post"
    "body_ip q (r_body r) = Some ip" "ttl = clamp_ttl (r_ttl r)"
    by (rule parseDoHAnswer_Inr)
  have "wf_message msg" using assms(1) r(1) by (simp add: wf_codec_def)
  then have "wf_body (r_body r)" using r(2) by (simp add: wf_message_def)
  with r p(2) body_ip_length show ?thesis by blast
qed

lemma dnsQueryType_retired:
  "snd (dnsQueryType cd trip host q) \<longleftrightarrow> fst (dnsQueryType cd trip host q) = Inl DoHTransport"
  by (auto simp: dnsQueryType_def parseDoHAnswer_def Let_def
      split: if_splits option.splits exchange.splits)

text \<open>The outcome of \<open>dnsQuery\<close> once a connection is at hand: the A answer if there is one,
  else the AAAA answer, whichever arrives first; if both questions fail, a transport error if
  either met one, else the error that arrived first. (An AAAA record that holds an IPv4-mapped
  address is excluded: the code takes it for an IPv4 answer.)\<close>

theorem dnsQuery_outcome:
  assumes "wf_codec cd"
    and "\<forall>ip ttl. fst (dnsQueryType cd trip host TypeAAAA) = Inr (ip, ttl) \<longrightarrow> to4 ip = None"
  shows "fst (dnsQuery cd True trip a_first host) =
    (case (fst (dnsQueryType cd trip host TypeA), fst (dnsQueryType cd trip host TypeAAAA)) of
       (Inr a, _) \<Rightarrow> Inr a
     | (Inl _, Inr aaaa) \<Rightarrow> Inr aaaa
     | (Inl e, Inl e') \<Rightarrow>
         if e = DoHTransport \<or> e' = DoHTransport then Inl DoHTransport
         else Inl (if a_first then e else e'))"
proof -
  obtain a ra where a: "dnsQueryType cd trip host TypeA = (a, ra)" by fastforce
  obtain b rb where b: "dnsQueryType cd trip host TypeAAAA = (b, rb)" by fastforce
  have "\<And>ip ttl. a = Inr (ip, ttl) \<Longrightarrow> to4 ip \<noteq> None" using dnsQueryType_Inr [OF assms(1)] a by fastforce
  moreover have "\<And>ip ttl. b = Inr (ip, ttl) \<Longrightarrow> to4 ip = None" using assms(2) b by simp
  ultimately show ?thesis
    by (cases a; cases b) (auto simp: dnsQuery_def a b)
qed

definition demo_codec :: codec where
  "demo_codec = \<lparr>new_name = (\<lambda>n. length n < 256), pack = (\<lambda>n q. Some [if q = TypeA then 1 else 28]),
     unpack = (\<lambda>b. Some \<lparr>m_rcode = 0, m_answers =
       (if length b = 4 then [\<lparr>r_ttl = 60, r_body = AResource b\<rparr>]
        else if length b = 16 then [\<lparr>r_ttl = 60, r_body = AAAAResource b\<rparr>] else [])\<rparr>)\<rparr>"

definition demo_trip :: "bytes \<Rightarrow> round_trip" where
  "demo_trip wire = \<lparr>rt_result = Response 200 (if wire = [1] then [10, 0, 0, 7] else replicate 16 2) False,
     rt_expired = False\<rparr>"

lemma wf_demo_codec [simp]: "wf_codec demo_codec"
  by (auto simp: wf_codec_def demo_codec_def wf_message_def)

lemmas demo_simps =
  dnsQueryType_def demo_codec_def demo_trip_def dohMaxResponseSize_def fqdn_def parseDoHAnswer_def

theorem dnsQuery_outcome_witness:
  "fst (dnsQuery demo_codec True demo_trip False ''example.org'') = Inr ([10, 0, 0, 7], clamp_ttl 60)"
proof -
  have a: "fst (dnsQueryType demo_codec demo_trip ''example.org'' TypeA) = Inr ([10, 0, 0, 7], clamp_ttl 60)"
    by (simp add: demo_simps)
  have b: "fst (dnsQueryType demo_codec demo_trip ''example.org'' TypeAAAA) = Inr (replicate 16 2, clamp_ttl 60)"
    by (simp add: demo_simps)
  have "to4 (replicate 16 2) = None" by code_simp
  with b show ?thesis by (subst dnsQuery_outcome) (simp_all add: a b)
qed

text \<open>When \<open>dnsQuery\<close> reports a transport failure, the connection the questions went out on has
  been retired, so that the one retry starts on a fresh one; no other outcome of both
  questions retires it.\<close>

theorem dnsQuery_transport_iff_retired:
  "(fst (dnsQuery cd conn_ok trip a_first host) = Inl DoHTransport \<longrightarrow>
      snd (dnsQuery cd conn_ok trip a_first host)) \<and>
   (snd (dnsQuery cd conn_ok trip a_first host) \<longleftrightarrow>
      conn_ok \<and> (fst (dnsQueryType cd trip host TypeA) = Inl DoHTransport \<or>
                 fst (dnsQueryType cd trip host TypeAAAA) = Inl DoHTransport))"
proof -
  obtain a ra where a: "dnsQueryType cd trip host TypeA = (a, ra)" by fastforce
  obtain b rb where b: "dnsQueryType cd trip host TypeAAAA = (b, rb)" by fastforce
  have r: "ra \<longleftrightarrow> a = Inl DoHTransport" "rb \<longleftrightarrow> b = Inl DoHTransport"
    using dnsQueryType_retired [of cd trip host] a b by (metis fst_conv snd_conv)+
  have "collect (if a_first then [a, b] else [b, a]) None None = Inl DoHTransport \<Longrightarrow>
      a = Inl DoHTransport \<or> b = Inl DoHTransport"
    by (cases a; cases b) (auto split: if_splits)
  then show ?thesis using r by (auto simp: dnsQuery_def a b)
qed

theorem dnsQuery_transport_iff_retired_witness:
  "snd (dnsQuery demo_codec True (\<lambda>_. \<lparr>rt_result = RoundTripFailed, rt_expired = False\<rparr>) True ''a'')"
  by (rule dnsQuery_transport_iff_retired [THEN conjunct1, rule_format])
    (simp add: dnsQuery_def dnsQueryType_def demo_codec_def fqdn_def)

section \<open>The interface of a cache with lifetimes\<close>

text \<open>What a user of such a cache relies on: a stored value is found until its lifetime is over,
  and storing one key never makes another key's value appear or change (it may vanish: the
  cache is an optimisation). The history is the list of stores, the newest first.\<close>

type_synonym ('h, 'v, 'd) history = "('h \<times> 'v \<times> 'd \<times> int \<times> int) list"

fun latest :: "'h \<Rightarrow> ('h, 'v, 'd) history \<Rightarrow> ('v \<times> 'd \<times> int) option" where
  "latest h [] = None"
| "latest h ((h', v, d, sw, now) # hist) = (if h' = h then Some (v, d, now) else latest h hist)"

locale ttl_cache =
  fixes lookup :: "'h \<Rightarrow> int \<Rightarrow> 'c \<Rightarrow> 'v option"
    and store :: "'h \<Rightarrow> 'v \<Rightarrow> 'd \<Rightarrow> int \<Rightarrow> int \<Rightarrow> 'c \<Rightarrow> 'c"
    and life :: "'d \<Rightarrow> int"
    and ok :: "'c \<Rightarrow> bool"
    and start :: 'c
  assumes start_ok: "ok start"
    and start_lookup: "lookup h t start = None"
    and store_ok: "ok c \<Longrightarrow> ok (store h v d sw now c)"
    and lookup_same: "ok c \<Longrightarrow>
      lookup h t (store h v d sw now c) = (if t < now + life d then Some v else None)"
    and lookup_other: "ok c \<Longrightarrow> h' \<noteq> h \<Longrightarrow> lookup h' t (store h v d sw now c) = Some w \<Longrightarrow>
      lookup h' t c = Some w"
begin

abbreviation after :: "('h, 'v, 'd) history \<Rightarrow> 'c" where
  "after hist \<equiv> foldr (\<lambda>(h, v, d, sw, now) c. store h v d sw now c) hist start"

lemma after_ok: "ok (after hist)"
  by (induction hist) (auto simp: start_ok store_ok)

lemma lookup_latest:
  assumes "lookup h t (after hist) = Some v"
  shows "\<exists>d now. latest h hist = Some (v, d, now) \<and> t < now + life d"
  using assms
proof (induction hist)
  case Nil
  then show ?case by (simp add: start_lookup)
next
  case (Cons s hist)
  obtain h' v' d sw now where s: "s = (h', v', d, sw, now)" by (cases s) auto
  show ?case
  proof (cases "h' = h")
    case True
    with Cons.prems s show ?thesis by (auto simp: lookup_same after_ok split: if_splits)
  next
    case False
    with Cons.prems s have "lookup h t (after hist) = Some v"
      using lookup_other [of "after hist" h h' t v' d sw now v] after_ok by auto
    from Cons.IH [OF this] False s show ?thesis by simp
  qed
qed

end

section \<open>The resolution cache\<close>

definition cache_ok :: "cache \<Rightarrow> bool" where
  "cache_ok c \<longleftrightarrow> distinct (map fst c) \<and> length c \<le> dnsCacheMaxEntries"

lemma sweep_steps:
  "foldl (\<lambda>m (name, entry). if \<not> now < expiresAt entry then AList.delete name m else m) m xs =
   filter (\<lambda>(n, _). \<forall>(name, entry) \<in> set xs. name = n \<longrightarrow> now < expiresAt entry) m"
proof (induction xs arbitrary: m)
  case (Cons x xs)
  then show ?case
    by (cases x) (auto simp: AList.delete_eq split: prod.splits intro!: filter_cong)
qed (induction m; auto)

lemma sweep_filter:
  assumes "distinct (map fst c)"
  shows "sweep now c = filter (\<lambda>(_, entry). now < expiresAt entry) c"
  unfolding sweep_def sweep_steps
proof (rule filter_cong [OF refl])
  fix x assume "x \<in> set c"
  then show "(case x of (n, _) \<Rightarrow> \<forall>(name, entry) \<in> set c. name = n \<longrightarrow> now < expiresAt entry) =
      (case x of (_, entry) \<Rightarrow> now < expiresAt entry)"
    using assms by (auto dest: eq_key_imp_eq_value)
qed

text \<open>The cache before the new entry goes in.\<close>

definition make_room :: "int \<Rightarrow> cache \<Rightarrow> cache" where
  "make_room now c =
     (if dnsCacheSweepAt \<le> length c then
        (let c2 = filter (\<lambda>(_, entry). now < expiresAt entry) c in
         if dnsCacheMaxEntries \<le> length c2 then [] else c2)
      else c)"

lemma cacheResolution_eq:
  "distinct (map fst c) \<Longrightarrow>
   cacheResolution host ip ttl sw now c =
     AList.update host \<lparr>e_ip = ip, expiresAt = now + sint ttl\<rparr> (make_room sw c)"
  by (simp add: cacheResolution_def make_room_def sweep_filter Let_def)

lemma distinct_filter_keys: "distinct (map fst c) \<Longrightarrow> distinct (map fst (filter P c))"
  by (induction c) auto

lemma make_room_length: "length (make_room now c) < dnsCacheMaxEntries"
  by (auto simp: make_room_def Let_def dnsCacheMaxEntries_def dnsCacheSweepAt_def)

lemma make_room_distinct: "distinct (map fst c) \<Longrightarrow> distinct (map fst (make_room now c))"
  by (simp add: make_room_def Let_def distinct_filter_keys)

lemma make_room_map_of:
  "distinct (map fst c) \<Longrightarrow> map_of (make_room now c) h = Some e \<Longrightarrow> map_of c h = Some e"
  by (auto simp: make_room_def Let_def distinct_filter_keys map_of_eq_Some_iff split: if_splits)

lemma update_length: "length (AList.update k v xs) \<le> Suc (length xs)"
  by (induction xs) auto

lemma cacheResolution_ok:
  assumes "distinct (map fst c)"
  shows "cache_ok (cacheResolution host ip ttl sw now c)"
proof -
  let ?e = "\<lparr>e_ip = ip, expiresAt = now + sint ttl\<rparr>"
  have "length (AList.update host ?e (make_room sw c)) \<le> dnsCacheMaxEntries"
    using update_length [of host ?e "make_room sw c"] make_room_length [of sw c] by linarith
  then show ?thesis
    using assms by (simp add: cache_ok_def cacheResolution_eq distinct_update make_room_distinct)
qed

interpretation dns_cache: ttl_cache cache_lookup cacheResolution sint cache_ok "[]"
proof unfold_locales
  fix h h' :: string and t :: int and c :: cache and v w :: ip and d :: duration and sw now :: int
  show "cache_ok []" by (simp add: cache_ok_def)
  show "cache_lookup h t [] = None" by (simp add: cache_lookup_def)
  assume ok: "cache_ok c"
  then have d: "distinct (map fst c)" by (simp add: cache_ok_def)
  then show "cache_ok (cacheResolution h v d sw now c)" by (rule cacheResolution_ok)
  show "cache_lookup h t (cacheResolution h v d sw now c) = (if t < now + sint d then Some v else None)"
    using d by (simp add: cache_lookup_def cacheResolution_eq update_conv')
  assume "h' \<noteq> h" "cache_lookup h' t (cacheResolution h v d sw now c) = Some w"
  then obtain e where "map_of (make_room sw c) h' = Some e" "t < expiresAt e" "w = e_ip e"
    using d by (auto simp: cache_lookup_def cacheResolution_eq update_conv' split: option.splits if_splits)
  with make_room_map_of [OF d this(1)] show "cache_lookup h' t c = Some w"
    by (simp add: cache_lookup_def)
qed

text \<open>C40: whatever is resolved and cached, the cache never holds more than 8192 entries, nor two
  for one name.\<close>

theorem cache_bounded:
  "cache_ok (foldr (\<lambda>(host, ip, ttl, sweep_now, now) c. cacheResolution host ip ttl sweep_now now c) ops [])"
  by (rule dns_cache.after_ok)

text \<open>C9: an address served from the cache is the one most recently resolved for that very name, and
  its lifetime is not over.\<close>

theorem cache_serves_latest:
  assumes "cache_lookup host t
    (foldr (\<lambda>(host, ip, ttl, sweep_now, now) c. cacheResolution host ip ttl sweep_now now c) ops []) = Some ip"
  shows "\<exists>ttl now. latest host ops = Some (ip, ttl, now) \<and> t < now + sint ttl"
  using assms by (rule dns_cache.lookup_latest)

theorem cache_serves_latest_witness:
  "\<exists>ttl now. latest ''b'' [(''a'', [1, 1, 1, 1], 7, 20, 20), (''b'', [2, 2, 2, 2], 5 :: duration, 10, 10)] =
     Some ([2, 2, 2, 2 :: byte], ttl, now) \<and> 12 < now + sint ttl"
  by (rule cache_serves_latest) (simp add: cacheResolution_def cache_lookup_def dnsCacheSweepAt_def)

text \<open>While the map is small no entry is dropped, and a sweep drops expired entries only.\<close>

lemma cache_keeps:
  assumes "distinct (map fst c)" "h' \<noteq> h" "sw \<le> t"
    and "length (filter (\<lambda>(_, entry). sw < expiresAt entry) c) < dnsCacheMaxEntries"
  shows "cache_lookup h' t (cacheResolution h ip ttl sw now c) = cache_lookup h' t c"
proof -
  let ?f = "filter (\<lambda>(_, entry). sw < expiresAt entry) c"
  have "map_of ?f h' = (case map_of c h' of Some e \<Rightarrow> if sw < expiresAt e then Some e else None | None \<Rightarrow> None)"
    using assms(1) by (induction c) (force split: option.splits dest: map_of_SomeD)+
  then have "cache_lookup h' t ?f = cache_lookup h' t c"
    using assms(3) by (simp add: cache_lookup_def split: option.splits)
  moreover have "make_room sw c = ?f \<or> make_room sw c = c"
    using assms(4) by (simp add: make_room_def Let_def)
  ultimately have "cache_lookup h' t (make_room sw c) = cache_lookup h' t c" by metis
  then show ?thesis
    using assms(1,2) by (simp add: cacheResolution_eq cache_lookup_def update_conv')
qed

section \<open>The lookup\<close>

lemma attempts_2:
  "attempts 2 0 query ctx_done None =
     (case query 0 of
        Inr a \<Rightarrow> (Inr a, 1)
      | Inl e \<Rightarrow>
          if e = DoHTransport \<and> \<not> ctx_done 0
          then (case query 1 of Inr a \<Rightarrow> (Inr a, 2) | Inl e' \<Rightarrow> (Inl (Some e'), 2))
          else (Inl (Some e), 1))"
  by (simp add: numeral_2_eq_2 shouldRetryDoH_def split: sum.splits)

text \<open>C39: a lookup asks the resolver at most twice, the second time exactly when the first attempt
  met a dead connection while the caller still waits; a failed lookup reports the error of the
  last attempt and leaves the cache alone; and what the lookup returns is served from the
  cache, without another question, until its lifetime is over.\<close>

theorem resolveDNS_retries_once:
  assumes "cache_lookup host (t_lookup t) c = None" "distinct (map fst c)"
  shows "resolveDNS t query ctx_done host c =
    (let last = (if query 0 = Inl DoHTransport \<and> \<not> ctx_done 0 then query 1 else query 0) in
     case last of
       Inr (ip, ttl) \<Rightarrow> (Inr ip, cacheResolution host ip ttl (t_sweep t) (t_store t) c)
     | Inl e \<Rightarrow> (Inl (Some e), c)) \<and>
   (\<forall>ip c' t' query' ctx_done'.
      resolveDNS t query ctx_done host c = (Inr ip, c') \<longrightarrow>
      (\<exists>ttl. (query 0 = Inr (ip, ttl) \<or> query 1 = Inr (ip, ttl)) \<and>
         (t_lookup t' < t_store t + sint ttl \<longrightarrow>
            resolveDNS t' query' ctx_done' host c' = (Inr ip, c'))))"
proof -
  have r: "resolveDNS t query ctx_done host c =
    (let last = (if query 0 = Inl DoHTransport \<and> \<not> ctx_done 0 then query 1 else query 0) in
     case last of
       Inr (ip, ttl) \<Rightarrow> (Inr ip, cacheResolution host ip ttl (t_sweep t) (t_store t) c)
     | Inl e \<Rightarrow> (Inl (Some e), c))"
    using assms(1) by (simp add: resolveDNS_def attempts_2 split: sum.splits prod.splits)
  have hit: "cache_lookup host u (cacheResolution host ip ttl sw now c) = Some ip" if "u < now + sint ttl"
    for u ip ttl sw now
    using that assms(2) by (simp add: cacheResolution_eq cache_lookup_def update_conv')
  have "\<exists>ttl. (query 0 = Inr (ip, ttl) \<or> query 1 = Inr (ip, ttl)) \<and>
         (t_lookup t' < t_store t + sint ttl \<longrightarrow> resolveDNS t' query' ctx_done' host c' = (Inr ip, c'))"
    if "resolveDNS t query ctx_done host c = (Inr ip, c')" for ip c' t' query' ctx_done'
  proof -
    from that obtain ttl where "query 0 = Inr (ip, ttl) \<or> query 1 = Inr (ip, ttl)"
      "c' = cacheResolution host ip ttl (t_sweep t) (t_store t) c"
      unfolding r by (fastforce simp: Let_def split: sum.splits if_splits)
    then show ?thesis by (intro exI [of _ ttl]) (simp add: resolveDNS_def hit)
  qed
  with r show ?thesis by blast
qed

theorem resolveDNS_retries_once_witness:
  "resolveDNS \<lparr>t_lookup = 1, t_sweep = 2, t_store = 3\<rparr>
     (\<lambda>n. if n = 0 then Inl DoHTransport else Inr ([9, 9, 9, 9], dohMinTTL)) (\<lambda>_. False) ''a'' [] =
   (Inr [9, 9, 9, 9], cacheResolution ''a'' [9, 9, 9, 9] dohMinTTL 2 3 [])"
  by (subst resolveDNS_retries_once [THEN conjunct1]) (simp_all add: cache_lookup_def)

section \<open>Targets\<close>

lemma parseIP_literal:
  assumes "valid_ip ip"
  shows "parseIP (ip_string ip) \<noteq> None"
  using assms to16_Some_iff [of ip] by (auto simp: parseIP_ip_string)

text \<open>A target that names an address literal is resolved without a resolver and without a host
  header, whatever the resolver would do.\<close>

theorem resolveTarget_literal:
  assumes "splitHostPort t = Inr (host, port)" "parseIP host \<noteq> None"
  shows "resolveTarget rs t s = (Inr (joinHostPort host port, []), s)"
  using assms by (simp add: resolveTarget_def)

theorem resolveTarget_literal_witness:
  "resolveTarget (\<lambda>h s. (Inl None, Suc s)) ''[::1]:443'' 0 = (Inr (''[::1]:443'', []), 0)"
proof -
  have "splitHostPort ''[::1]:443'' = Inr (''::1'', ''443'')" by code_simp
  moreover have "parseIP ''::1'' \<noteq> None" by code_simp
  moreover have "joinHostPort ''::1'' ''443'' = ''[::1]:443''" by code_simp
  ultimately show ?thesis using resolveTarget_literal by metis
qed

text \<open>What \<open>resolveTarget\<close> hands to the edge always splits into an address literal and the
  requested port, with one level of brackets whatever the family; the host header is the
  name that was resolved, or empty for a literal.\<close>

theorem resolveTarget_splits:
  assumes "\<And>host s ip s'. rs host s = (Inr ip, s') \<Longrightarrow> valid_ip ip"
    and "resolveTarget rs t s = (Inr (connectTarget, hostHeader), s')"
  shows "\<exists>host lit port. splitHostPort t = Inr (host, port) \<and> splitHostPort connectTarget = Inr (lit, port) \<and>
    parseIP lit \<noteq> None \<and> (if parseIP host \<noteq> None then lit = host \<and> hostHeader = [] else hostHeader = host)"
proof -
  obtain host port where hp: "splitHostPort t = Inr (host, port)"
    using assms(2) by (auto simp: resolveTarget_def split: sum.splits)
  show ?thesis
  proof (cases "parseIP host = None")
    case False
    with assms(2) hp net.rejoin [OF hp] show ?thesis by (auto simp: resolveTarget_def)
  next
    case True
    with assms(2) hp obtain ip where ip: "rs host s = (Inr ip, s')" "connectTarget = joinHostPort (ip_string ip) port"
      "hostHeader = host"
      by (auto simp: resolveTarget_def split: sum.splits prod.splits)
    from assms(1) [OF ip(1)] have "valid_ip ip" .
    moreover have "port_ok port" using splitHostPort_ok [OF hp] by blast
    ultimately show ?thesis
      using True hp ip by (simp add: net.split_of_join ip_string_host_ok parseIP_literal [OF \<open>valid_ip ip\<close>] del: not_None_eq)
  qed
qed

theorem resolveTarget_splits_witness:
  "\<exists>host lit port. splitHostPort ''a.b:443'' = Inr (host, port) \<and>
    splitHostPort ''10.0.0.7:443'' = Inr (lit, port) \<and> parseIP lit \<noteq> None \<and>
    (if parseIP host \<noteq> None then lit = host \<and> ''a.b'' = [] else ''a.b'' = host)"
proof (rule resolveTarget_splits)
  let ?ip = "[10, 0, 0, 7] :: bytes"
  show "valid_ip ip" if "(\<lambda>h s. (Inr ?ip, s)) host s = (Inr ip, s')" for host s ip s'
    using that by (auto simp: valid_ip_def)
  show "resolveTarget (\<lambda>h s. (Inr ?ip, s)) ''a.b:443'' () = (Inr (''10.0.0.7:443'', ''a.b''), ())"
    by code_simp
qed

end
