(* ===== verification/Socks_H3.thy ===== *)
theory Socks_H3
  imports Socks_H2 Dns_Resolver
begin

text \<open>
  The SOCKS5 front end of the HTTP/3 backend (\<open>HandleSOCKS5\<close> of \<open>MasqueClient\<close> in
  \<open>tunnel/masque.go\<close>) and the CONNECT exchange with the edge. This handler takes each message of
  the client from a single \<open>Read\<close> into a buffer of 512 bytes, so its behaviour depends on how
  the client's bytes are cut into segments; the theorems say for which segments it serves the
  client, that it serves nobody without the configured credentials, when it panics, and that
  a stream it opened is always released. The relay after the exchange is in \<open>Tunnel_Relay\<close>.
\<close>

section \<open>The CONNECT exchange\<close>

record connect_request =
  req_target :: string
  req_authorization :: string
  req_host :: "string option"

definition connect_request :: "string \<Rightarrow> string \<Rightarrow> string \<Rightarrow> connect_request" where
  "connect_request token connectTarget hostHeader =
     \<lparr>req_target = connectTarget, req_authorization = ''Bearer '' @ token,
      req_host =
        (if hostHeader \<noteq> [] then
           (let hostPort = (case splitHostPort connectTarget of Inr (_, p) \<Rightarrow> p | Inl _ \<Rightarrow> [])
            in Some (hostHeader @ '':'' @ hostPort))
         else None)\<rparr>"

text \<open>A request stream, by what its methods answer; the log of the calls made on it.\<close>

record stream_script =
  set_deadline_ok :: bool
  send_ok :: bool
  response :: "nat option"
  clear_deadline_ok :: bool

datatype stream_call = SSetDeadline int | SSendHeader connect_request | SReadResponse | SClearDeadline

datatype edge_error = DeadlineFailed | SendHeaderFailed | ReadResponseFailed | ClearDeadlineFailed

definition connectThroughEdge ::
    "stream_script \<Rightarrow> connect_request \<Rightarrow> int \<Rightarrow> (edge_error + nat) \<times> stream_call list" where
  "connectThroughEdge st req deadline =
     (if \<not> set_deadline_ok st then (Inl DeadlineFailed, [SSetDeadline deadline])
      else if \<not> send_ok st then (Inl SendHeaderFailed, [SSetDeadline deadline, SSendHeader req])
      else case response st of
        None \<Rightarrow> (Inl ReadResponseFailed, [SSetDeadline deadline, SSendHeader req, SReadResponse])
      | Some status \<Rightarrow>
          let calls = [SSetDeadline deadline, SSendHeader req, SReadResponse, SClearDeadline] in
          if \<not> clear_deadline_ok st then (Inl ClearDeadlineFailed, calls) else (Inr status, calls))"

definition connectDeadline :: "int option \<Rightarrow> int \<Rightarrow> int \<Rightarrow> int" where
  "connectDeadline ctx_deadline now fallback =
     (case ctx_deadline of Some dl \<Rightarrow> dl | None \<Rightarrow> now + fallback)"

text \<open>The CONNECT exchange never waits for the edge without a deadline, and a stream on which it
  succeeds carries no deadline any more.\<close>

theorem connectThroughEdge_deadline:
  "(\<forall>n < length (snd (connectThroughEdge st req dl)).
      snd (connectThroughEdge st req dl) ! n \<in> {SReadResponse, SSendHeader req} \<longrightarrow>
      SSetDeadline dl \<in> set (take n (snd (connectThroughEdge st req dl))) \<and>
      SClearDeadline \<notin> set (take n (snd (connectThroughEdge st req dl)))) \<and>
   (\<forall>status. fst (connectThroughEdge st req dl) = Inr status \<longrightarrow>
      response st = Some status \<and> last (snd (connectThroughEdge st req dl)) = SClearDeadline)"
  by (auto simp: connectThroughEdge_def Let_def less_Suc_eq nth_Cons' split: option.splits)

theorem connectThroughEdge_deadline_witness:
  "last (snd (connectThroughEdge
     \<lparr>set_deadline_ok = True, send_ok = True, response = Some 200, clear_deadline_ok = True\<rparr>
     (connect_request ''t'' ''1.1.1.1:443'' []) 20)) = SClearDeadline"
  by (rule connectThroughEdge_deadline [THEN conjunct2, rule_format, THEN conjunct2])
    (simp add: connectThroughEdge_def)

section \<open>The negotiation\<close>

datatype stop = Quit | Crash

abbreviation h3_read :: "(stop, bytes) connop" where
  "h3_read \<equiv> oplift (\<lambda>_. Quit) (conn_read 512)"

abbreviation h3_write :: "bytes \<Rightarrow> (stop, unit) connop" where
  "h3_write bs \<equiv> oplift (\<lambda>_. Quit) (conn_write bs)"

definition h3_parse_auth :: "bytes \<Rightarrow> (stop, string \<times> string) gores" where
  "h3_parse_auth authData =
     (if length authData < 2 \<or> authData ! 0 \<noteq> 0x01 then Err Quit
      else
        gobind (idx authData 1) (\<lambda>ul. let ulen = unat ul in
        if length authData < 2 + ulen + 1 then Err Quit
        else
        gobind (slice authData 2 (2 + ulen)) (\<lambda>recvUser.
        gobind (idx authData (2 + ulen)) (\<lambda>pl. let plen = unat pl in
        if length authData < 2 + ulen + 1 + plen then Err Quit
        else
        gobind (slice authData (2 + ulen + 1) (2 + ulen + 1 + plen)) (\<lambda>recvPass.
        Ok (str_of_bytes recvUser, str_of_bytes recvPass))))))"

definition h3_check :: "socks_config \<Rightarrow> (stop, string \<times> string) gores \<Rightarrow> (stop, unit) connop" where
  "h3_check cfg parsed =
     (case parsed of
        Panic \<Rightarrow> opfail Crash
      | Err e \<Rightarrow> opfail e
      | Ok (recvUser, recvPass) \<Rightarrow>
          if recvUser \<noteq> Username cfg \<or> recvPass \<noteq> Password cfg then
            opbind (opignore (conn_write [0x01, 0x01])) (\<lambda>_. opfail Quit)
          else opignore (conn_write [0x01, 0x00]))"

definition h3_negotiate :: "socks_config \<Rightarrow> (stop, unit) connop" where
  "h3_negotiate cfg =
     opbind h3_read (\<lambda>data.
     if length data < 2 \<or> data ! 0 \<noteq> 0x05 then opfail Quit
     else if require_auth cfg then
       opbind (h3_write [0x05, 0x02]) (\<lambda>_.
       opbind h3_read (\<lambda>authData. h3_check cfg (h3_parse_auth authData)))
     else h3_write [0x05, 0x00])"

section \<open>The handler\<close>

text \<open>What the handler meets in the rest of the program: the resolver, whether a request stream
  can be opened, the answers of that stream, the bearer token, the deadline of \<open>setupCtx\<close> and the clock.\<close>

record h3_env =
  env_dns :: "string \<Rightarrow> qerr option + ip"
  env_open :: bool
  env_stream :: "connect_request \<Rightarrow> stream_script"
  env_token :: string
  env_setup_deadline :: int
  env_now :: int

definition connectExchangeTimeout :: int where
  "connectExchangeTimeout = 15 * 1000000000"

definition releaseStream :: "conn \<Rightarrow> conn" where
  "releaseStream c = log CloseStream (log CancelRead c)"

definition h3_reply :: "byte \<Rightarrow> conn \<Rightarrow> conn" where
  "h3_reply code c = snd (conn_write (sendSocks5Err code) c)"

text \<open>From an open request stream to the relay; \<open>Relay\<close> stands for the two copy loops up to the
  \<open>release\<close> that ends them.\<close>

definition h3_exchange :: "h3_env \<Rightarrow> string \<Rightarrow> connect_request \<Rightarrow> conn \<Rightarrow> conn" where
  "h3_exchange env targetAddr req c =
     (case fst (connectThroughEdge (env_stream env req) req
                  (connectDeadline (Some (env_setup_deadline env)) (env_now env) connectExchangeTimeout)) of
        Inl _ \<Rightarrow> h3_reply 0x04 (releaseStream c)
      | Inr status \<Rightarrow>
          if status \<noteq> 200 then h3_reply 0x04 (releaseStream c)
          else
            let c = snd (conn_write sendSocks5Success c)
            in log CloseConn (releaseStream (log (Relay targetAddr) c)))"

text \<open>What the log keeps of a CONNECT request: the target and the headers Authorization and Host.\<close>

definition connect_action :: "connect_request \<Rightarrow> action" where
  "connect_action req =
     Connect (req_target req) (req_authorization req) (case req_host req of Some h \<Rightarrow> h | None \<Rightarrow> [])"

definition h3_connect :: "h3_env \<Rightarrow> string \<Rightarrow> conn \<Rightarrow> conn" where
  "h3_connect env targetAddr c =
     (let c = log (Resolve targetAddr) (log ClearDeadline c) in
      case fst (resolveTarget (\<lambda>h s. (env_dns env h, s)) targetAddr ()) of
        Inl _ \<Rightarrow> h3_reply 0x04 c
      | Inr (connectTarget, hostHeader) \<Rightarrow>
          if \<not> env_open env then h3_reply 0x04 c
          else
            let req = connect_request (env_token env) connectTarget hostHeader
            in h3_exchange env targetAddr req (log (connect_action req) (log OpenStream c)))"

datatype ending = Returned | Crashed

definition h3_handleSOCKS5 :: "socks_config \<Rightarrow> h3_env \<Rightarrow> conn \<Rightarrow> ending \<times> conn" where
  "h3_handleSOCKS5 cfg env c0 =
     (let (ending, c) =
       (case opbind (h3_negotiate cfg) (\<lambda>_. h3_read) (log SetDeadline c0) of
          (Inl Crash, c) \<Rightarrow> (Crashed, c)
        | (Inl Quit, c) \<Rightarrow> (Returned, c)
        | (Inr data, c) \<Rightarrow>
            if length data < 4 then (Returned, h3_reply 0x07 c)
            else if data ! 1 = 0x01 then
              (case parseSOCKS5Addr data of
                 Panic \<Rightarrow> (Crashed, c)
               | Err _ \<Rightarrow> (Returned, h3_reply 0x08 c)
               | Ok (targetAddr, _) \<Rightarrow> (Returned, h3_connect env targetAddr c))
            else if data ! 1 = 0x03 then
              (if \<not> AllowUDP cfg then (Returned, h3_reply 0x07 c)
               else (Returned, log UDPAssociate (log ClearDeadline c)))
            else (Returned, h3_reply 0x07 c))
      in (ending, log CloseConn c))"

section \<open>The messages a client is read as\<close>

text \<open>What successive reads into the 512-byte buffer return.\<close>

function pieces :: "bytes list \<Rightarrow> bytes list" where
  "pieces [] = []"
| "pieces (s # ss) =
     (if length s \<le> 512 then s # pieces ss else take 512 s # pieces (drop 512 s # ss))"
  by pat_completeness auto
termination
  by (relation "measures [length, \<lambda>ss. length (concat ss)]") auto

declare pieces.simps(2) [simp del]

abbreviation reads :: "conn \<Rightarrow> bytes list" where
  "reads c \<equiv> pieces (c_in c)"

lemma pieces_step:
  "length s \<le> 512 \<Longrightarrow> pieces (s # ss) = s # pieces ss"
  "\<not> length s \<le> 512 \<Longrightarrow> pieces (s # ss) = take 512 s # pieces (drop 512 s # ss)"
  by (simp_all add: pieces.simps(2))

lemma pieces_short: "\<forall>s \<in> set ss. length s \<le> 512 \<Longrightarrow> pieces ss = ss"
  by (induction ss) (simp_all add: pieces_step)

lemma pieces_length: "p \<in> set (pieces ss) \<Longrightarrow> length p \<le> 512"
proof (induction ss rule: pieces.induct)
  case (2 s ss)
  then show ?case by (cases "length s \<le> 512") (auto simp: pieces_step)
qed simp

lemma conn_read_pieces:
  "(reads c = [] \<longrightarrow> conn_read 512 c = (Inl (c_end c), c)) \<and>
   (\<forall>p ps. reads c = p # ps \<longrightarrow> (\<exists>c'. conn_read 512 c = (Inr p, c') \<and> reads c' = ps \<and>
      c_log c' = c_log c \<and> c_wok c' = c_wok c))"
proof (cases "c_in c")
  case (Cons s ss)
  then show ?thesis
    by (cases "length s \<le> 512") (simp_all add: conn_read_def pieces_step)
qed (simp add: conn_read_def)

lemma h3_read_piece:
  assumes "reads c = p # ps"
  obtains c' where "h3_read c = (Inr p, c')" "reads c' = ps" "c_log c' = c_log c" "c_wok c' = c_wok c"
  using conn_read_pieces [of c] assms that by (fastforce simp: oplift_def)

lemma h3_read_end: "reads c = [] \<Longrightarrow> h3_read c = (Inl Quit, c)"
  using conn_read_pieces [of c] by (simp add: oplift_def)

lemma h3_read_Inr:
  assumes "h3_read c = (Inr bs, c')"
  shows "reads c = bs # reads c' \<and> c_log c' = c_log c \<and> c_wok c' = c_wok c"
proof (cases "reads c")
  case Nil
  with assms h3_read_end show ?thesis by simp
next
  case (Cons p ps)
  from h3_read_piece [OF this] assms Cons show ?thesis by (metis Pair_inject sum.inject(2))
qed

lemma h3_read_Inl:
  assumes "h3_read c = (Inl e, c')"
  shows "e = Quit \<and> c' = c \<and> reads c = []"
proof (cases "reads c")
  case Nil
  with assms h3_read_end show ?thesis by simp
next
  case (Cons p ps)
  from h3_read_piece [OF this] assms show ?thesis by (metis Pair_inject sum.distinct(1))
qed

lemma h3_write_Inr:
  "h3_write bs c = (Inr u, c') \<Longrightarrow>
     reads c' = reads c \<and> c_wok c' = c_wok c \<and> c_log c' = c_log c @ [Sent bs]"
  by (auto simp: oplift_def conn_write_def split: if_splits)

lemma ignored_write:
  "opignore (conn_write bs) c = (r, c') \<Longrightarrow> reads c' = reads c \<and> c_wok c' = c_wok c"
  by (auto simp: opignore_def conn_write_def)

subsection \<open>The credentials in a segment\<close>

lemma h3_parse_auth_no_panic: "h3_parse_auth a \<noteq> Panic"
  by (simp add: h3_parse_auth_def gobind_Panic_iff Let_def idx_in slice_def)

lemma h3_parse_auth_Ok:
  assumes "h3_parse_auth a = Ok (u, p)"
  shows "\<exists>us ps rest. a = auth_request us ps @ rest \<and> length us < 256 \<and> length ps < 256 \<and>
           u = str_of_bytes us \<and> p = str_of_bytes ps"
proof -
  let ?n = "unat (a ! 1)"
  let ?m = "unat (a ! (2 + ?n))"
  have len: "2 + ?n + 1 + ?m \<le> length a" "a ! 0 = 0x01"
    and up: "u = str_of_bytes (take ?n (drop 2 a))" "p = str_of_bytes (take ?m (drop (2 + ?n + 1) a))"
    using assms by (auto simp: h3_parse_auth_def gobind_Ok_iff idx_def slice_def Let_def split: if_splits)
  let ?us = "take ?n (drop 2 a)" and ?ps = "take ?m (drop (2 + ?n + 1) a)"
  have us: "length ?us = unat (a ! 1)" and ps: "length ?ps = unat (a ! (2 + ?n))" using len by simp_all
  have "a = [a ! 0, a ! 1] @ drop 2 a"
    using len by (cases a; cases "tl a") (auto simp: numeral_2_eq_2)
  also have "drop 2 a = ?us @ drop (2 + ?n) a"
    by (metis add.commute append_take_drop_id drop_drop)
  also have "drop (2 + ?n) a = a ! (2 + ?n) # drop (2 + ?n + 1) a"
    using len by (simp add: Cons_nth_drop_Suc)
  also have "drop (2 + ?n + 1) a = ?ps @ drop ?m (drop (2 + ?n + 1) a)"
    by (rule append_take_drop_id [symmetric])
  finally have "a = auth_request ?us ?ps @ drop ?m (drop (2 + ?n + 1) a)"
    using len(2) counted_prefix [OF us] counted_prefix [OF ps] by (simp add: auth_request_def)
  with up counted_prefix [OF us] counted_prefix [OF ps] show ?thesis by blast
qed

lemma h3_parse_auth_encoded:
  assumes "length us < 256" "length ps < 256"
  shows "h3_parse_auth (auth_request us ps @ rest) = Ok (str_of_bytes us, str_of_bytes ps)"
proof -
  have "unat (word_of_nat (length us) :: byte) = length us" "unat (word_of_nat (length ps) :: byte) = length ps"
    using assms by simp_all
  then show ?thesis
    by (simp add: h3_parse_auth_def auth_request_def idx_def slice_def nth_append Let_def)
qed

subsection \<open>Admission\<close>

text \<open>The messages that get a client past the negotiation: a first read of at least two bytes
  that starts with version 5 (the methods it offers are not looked at), and, when credentials
  are configured, a second one that starts with exactly these credentials.\<close>

definition h3_admits :: "socks_config \<Rightarrow> bytes list \<Rightarrow> bytes list \<Rightarrow> bool" where
  "h3_admits cfg msgs rest \<longleftrightarrow>
     (\<exists>g. length g \<ge> 2 \<and> g ! 0 = 0x05 \<and>
        (if require_auth cfg
         then length (Username cfg) < 256 \<and> length (Password cfg) < 256 \<and>
              (\<exists>junk. msgs = g # (auth_request (bytes_of_str (Username cfg))
                                     (bytes_of_str (Password cfg)) @ junk) # rest)
         else msgs = g # rest))"

lemma h3_check_Inr:
  assumes "h3_check cfg r c = (Inr u, c')"
  shows "r = Ok (Username cfg, Password cfg) \<and> reads c' = reads c"
proof (cases r)
  case (Ok up)
  with assms show ?thesis
    by (cases up) (auto simp: h3_check_def opbind_Inr opfail_def dest: ignored_write split: if_splits)
qed (use assms in \<open>auto simp: h3_check_def opfail_def\<close>)

lemma h3_check_no_crash: "r \<noteq> Panic \<Longrightarrow> r \<noteq> Err Crash \<Longrightarrow> h3_check cfg r c \<noteq> (Inl Crash, c')"
  by (cases r) (auto simp: h3_check_def opfail_def opbind_def opignore_def split: if_splits)

lemma h3_negotiate_Inr:
  assumes "h3_negotiate cfg c = (Inr u, c')"
  shows "h3_admits cfg (reads c) (reads c')"
proof -
  obtain g c1 where g: "h3_read c = (Inr g, c1)" "length g \<ge> 2" "g ! 0 = 0x05"
    and rest: "(if require_auth cfg then
       opbind (h3_write [0x05, 0x02]) (\<lambda>_.
       opbind h3_read (\<lambda>authData. h3_check cfg (h3_parse_auth authData)))
     else h3_write [0x05, 0x00]) c1 = (Inr u, c')"
    using assms unfolding h3_negotiate_def
    by (auto simp: opbind_Inr opfail_def not_less split: if_splits)
  show ?thesis
  proof (cases "require_auth cfg")
    case False
    with rest g h3_read_Inr [OF g(1)] h3_write_Inr show ?thesis by (fastforce simp: h3_admits_def)
  next
    case True
    with rest obtain c2 a c3 where w: "h3_write [0x05, 0x02] c1 = (Inr (), c2)"
      and a: "h3_read c2 = (Inr a, c3)" and k: "h3_check cfg (h3_parse_auth a) c3 = (Inr u, c')"
      by (auto simp: opbind_Inr)
    from h3_parse_auth_Ok [OF conjunct1 [OF h3_check_Inr [OF k]]] obtain us ps junk where
      "a = auth_request us ps @ junk" "length us < 256" "length ps < 256"
      "us = bytes_of_str (Username cfg)" "ps = bytes_of_str (Password cfg)"
      by auto
    moreover have "reads c = g # a # reads c'"
      using h3_read_Inr [OF g(1)] h3_write_Inr [OF w] h3_read_Inr [OF a] h3_check_Inr [OF k] by simp
    ultimately show ?thesis using g True by (auto simp: h3_admits_def)
  qed
qed

lemma h3_parse_auth_Err: "h3_parse_auth a \<noteq> Err Crash"
  by (auto simp: h3_parse_auth_def idx_def slice_def Let_def)

lemma opbind_Inl:
  "opbind m f c = (Inl e, c') \<longleftrightarrow> m c = (Inl e, c') \<or> (\<exists>x d. m c = (Inr x, d) \<and> f x d = (Inl e, c'))"
  by (auto simp: opbind_def split: prod.splits sum.splits)

lemma oplift_Quit: "oplift (\<lambda>_. Quit) m d \<noteq> (Inl Crash, d')"
  by (auto simp: oplift_def split: prod.splits sum.splits)

lemma h3_negotiate_no_crash: "h3_negotiate cfg c \<noteq> (Inl Crash, c')"
proof
  assume "h3_negotiate cfg c = (Inl Crash, c')"
  then show False
    using h3_check_no_crash [OF h3_parse_auth_no_panic h3_parse_auth_Err]
    by (auto simp: oplift_Quit h3_negotiate_def opbind_Inl opfail_def split: if_splits)
qed

lemma replies_only_conn_read [reply_intros]: "replies_only (conn_read n)"
  by (auto simp: replies_only_def conn_read_def split: list.splits)

lemma replies_only_h3_check [reply_intros]: "replies_only (h3_check cfg r)"
  unfolding h3_check_def by (auto split: gores.splits intro!: reply_intros)

lemma replies_only_h3_negotiate: "replies_only (opbind (h3_negotiate cfg) (\<lambda>_. h3_read))"
  unfolding h3_negotiate_def by (intro reply_intros)

lemma h3_admits_complete:
  assumes "h3_admits cfg (reads c) (rq # rest)" "c_wok c = (\<lambda>_. True)"
  obtains c' where "opbind (h3_negotiate cfg) (\<lambda>_. h3_read) c = (Inr rq, c')" "reads c' = rest"
    "c_log c' = c_log c @ answers cfg" "c_wok c' = (\<lambda>_. True)"
proof -
  from assms(1) obtain g where g: "length g \<ge> 2" "g ! 0 = 0x05" and
    msgs: "if require_auth cfg
         then length (Username cfg) < 256 \<and> length (Password cfg) < 256 \<and>
              (\<exists>junk. reads c = g # (auth_request (bytes_of_str (Username cfg))
                                     (bytes_of_str (Password cfg)) @ junk) # rq # rest)
         else reads c = g # rq # rest"
    by (auto simp: h3_admits_def split: if_splits)
  have w: "\<exists>d. oplift (\<lambda>_. Quit) (conn_write bs) c = (Inr (), d) \<and> reads d = reads c \<and>
      c_log d = c_log c @ [Sent bs] \<and> c_wok d = (\<lambda>_. True)" if "c_wok c = (\<lambda>_. True)" for bs c
    using that by (auto simp: oplift_def conn_write_def)
  obtain ps where "reads c = g # ps" using msgs by (auto split: if_splits)
  from h3_read_piece [OF this] obtain c1 where
    1: "h3_read c = (Inr g, c1)" "reads c1 = ps" "c_log c1 = c_log c" "c_wok c1 = c_wok c" by blast
  note ps = \<open>reads c = g # ps\<close>
  show thesis
  proof (cases "require_auth cfg")
    case False
    from w [of c1 "[0x05, 0x00]"] 1 assms(2) obtain c2 where
      2: "h3_write [0x05, 0x00] c1 = (Inr (), c2)" "reads c2 = ps" "c_log c2 = c_log c @ [Sent [0x05, 0x00]]"
        "c_wok c2 = (\<lambda>_. True)"
      by auto
    have "reads c2 = rq # rest" using 2 False msgs ps by simp
    from h3_read_piece [OF this] obtain c3 where
      "h3_read c2 = (Inr rq, c3)" "reads c3 = rest" "c_log c3 = c_log c2" "c_wok c3 = c_wok c2" by blast
    with 1 2 False g that [of c3] show thesis
      by (simp add: h3_negotiate_def opbind_def answers_def not_less)
  next
    case True
    with msgs ps obtain junk where
      ps': "ps = (auth_request (bytes_of_str (Username cfg)) (bytes_of_str (Password cfg)) @ junk) # rq # rest"
      and short: "length (Username cfg) < 256" "length (Password cfg) < 256"
      by auto
    from w [of c1 "[0x05, 0x02]"] 1 assms(2) obtain c2 where
      2: "h3_write [0x05, 0x02] c1 = (Inr (), c2)" "reads c2 = ps" "c_log c2 = c_log c @ [Sent [0x05, 0x02]]"
        "c_wok c2 = (\<lambda>_. True)"
      by auto
    from h3_read_piece [OF trans [OF 2(2) ps']] obtain c3 where
      3: "h3_read c2 = (Inr (auth_request (bytes_of_str (Username cfg)) (bytes_of_str (Password cfg)) @ junk), c3)"
        "reads c3 = rq # rest" "c_log c3 = c_log c2" "c_wok c3 = c_wok c2" by blast
    have p: "h3_parse_auth (auth_request (bytes_of_str (Username cfg)) (bytes_of_str (Password cfg)) @ junk) =
        Ok (Username cfg, Password cfg)"
      using h3_parse_auth_encoded [of "bytes_of_str (Username cfg)" "bytes_of_str (Password cfg)" junk] short
      by simp
    obtain c4 where
      4: "h3_check cfg (Ok (Username cfg, Password cfg)) c3 = (Inr (), c4)" "reads c4 = rq # rest"
        "c_log c4 = c_log c3 @ [Sent [0x01, 0x00]]" "c_wok c4 = (\<lambda>_. True)"
      using 2 3 by (simp add: h3_check_def opignore_def conn_write_def)
    from h3_read_piece [OF 4(2)] obtain c5 where
      "h3_read c4 = (Inr rq, c5)" "reads c5 = rest" "c_log c5 = c_log c4" "c_wok c5 = c_wok c4" by blast
    with 1 2 3 4 p True g that [of c5] show thesis
      by (simp add: h3_negotiate_def opbind_def answers_def not_less)
  qed
qed

section \<open>The handler's log\<close>

lemma h3_reply_log:
  obtains a where "c_log (h3_reply b c) = c_log c @ [a]" "is_reply a"
  by (cases "c_wok c (c_tries c)") (auto simp: h3_reply_def conn_write_def log_def)

lemma h3_exchange_log:
  obtains (refused) a where "is_reply a"
      "c_log (h3_exchange env t req c) = c_log c @ [CancelRead, CloseStream, a]"
  | (relayed) a where "is_reply a"
      "c_log (h3_exchange env t req c) = c_log c @ [a, Relay t, CancelRead, CloseStream, CloseConn]"
proof -
  let ?r = "fst (connectThroughEdge (env_stream env req) req
    (connectDeadline (Some (env_setup_deadline env)) (env_now env) connectExchangeTimeout))"
  obtain a where a: "c_log (h3_reply 0x04 (releaseStream c)) = c_log (releaseStream c) @ [a]" "is_reply a"
    by (rule h3_reply_log)
  obtain b where b: "c_log (snd (conn_write sendSocks5Success c)) = c_log c @ [b]" "is_reply b"
    by (cases "c_wok c (c_tries c)") (auto simp: conn_write_def)
  show thesis
  proof (cases "?r = Inr 200")
    case True
    with b relayed show thesis by (simp add: h3_exchange_def releaseStream_def)
  next
    case False
    then have "h3_exchange env t req c = h3_reply 0x04 (releaseStream c)"
      by (cases ?r) (simp_all add: h3_exchange_def)
    with a refused show thesis by (simp add: releaseStream_def)
  qed
qed

text \<open>The three ways a CONNECT can go, each with the whole log it leaves.\<close>

definition resolved_request :: "h3_env \<Rightarrow> string \<Rightarrow> connect_request \<Rightarrow> bool" where
  "resolved_request env t req \<longleftrightarrow>
     (\<exists>connectTarget hostHeader. fst (resolveTarget (\<lambda>h s. (env_dns env h, s)) t ()) = Inr (connectTarget, hostHeader) \<and>
        req = connect_request (env_token env) connectTarget hostHeader)"

lemma h3_connect_log:
  obtains (unresolved) a where "c_log (h3_connect env t c) = c_log c @ [ClearDeadline, Resolve t, a]" "is_reply a"
  | (refused) a req where "is_reply a" "resolved_request env t req"
      "c_log (h3_connect env t c) = c_log c @
         [ClearDeadline, Resolve t, OpenStream, connect_action req, CancelRead, CloseStream, a]"
  | (relayed) a req where "is_reply a" "resolved_request env t req"
      "c_log (h3_connect env t c) = c_log c @
         [ClearDeadline, Resolve t, OpenStream, connect_action req, a, Relay t, CancelRead, CloseStream, CloseConn]"
proof -
  let ?c = "log (Resolve t) (log ClearDeadline c)"
  consider b where "h3_connect env t c = h3_reply b ?c"
    | req where "resolved_request env t req"
        "h3_connect env t c = h3_exchange env t req (log (connect_action req) (log OpenStream ?c))"
    by (cases "fst (resolveTarget (\<lambda>h s. (env_dns env h, s)) t ())"; cases "env_open env")
      (auto simp: h3_connect_def Let_def resolved_request_def)
  then show thesis
  proof cases
    case 1
    then show thesis using h3_reply_log [of b ?c] unresolved by fastforce
  next
    case 2
    let ?d = "log (connect_action req) (log OpenStream ?c)"
    show thesis
      by (cases rule: h3_exchange_log [of env t req ?d]) (use 2 refused relayed in fastforce)+
  qed
qed

lemma connect_action_simps [simp]:
  "\<not> is_reply (connect_action req)" "connect_action req \<noteq> OpenStream" "OpenStream \<noteq> connect_action req"
  "connect_action req \<noteq> UDPAssociate" "UDPAssociate \<noteq> connect_action req"
  "connect_action req \<noteq> Resolve x" "Resolve x \<noteq> connect_action req"
  by (simp_all add: connect_action_def)

text \<open>The ways a conversation can go.\<close>

lemma h3_handleSOCKS5_cases:
  obtains (rejected) as where "list_all is_reply as"
      "h3_handleSOCKS5 cfg env c = (Returned, snd (h3_handleSOCKS5 cfg env c))"
      "c_log (snd (h3_handleSOCKS5 cfg env c)) = c_log c @ SetDeadline # as @ [CloseConn]"
  | (panicked) as rq rest where "list_all is_reply as" "h3_admits cfg (reads c) (rq # rest)"
      "length rq = 4" "rq ! 1 = 0x01" "rq ! 3 = 0x03"
      "h3_handleSOCKS5 cfg env c = (Crashed, snd (h3_handleSOCKS5 cfg env c))"
      "c_log (snd (h3_handleSOCKS5 cfg env c)) = c_log c @ SetDeadline # as @ [CloseConn]"
  | (connect) as rq rest t h c1 where "list_all is_reply as" "h3_admits cfg (reads c) (rq # rest)"
      "rq ! 1 = 0x01" "parseSOCKS5Addr rq = Ok (t, h)"
      "c_log c1 = c_log c @ SetDeadline # as"
      "h3_handleSOCKS5 cfg env c = (Returned, log CloseConn (h3_connect env t c1))"
  | (udp) as rq rest where "AllowUDP cfg" "list_all is_reply as" "h3_admits cfg (reads c) (rq # rest)"
      "length rq \<ge> 4" "rq ! 1 = 0x03"
      "h3_handleSOCKS5 cfg env c = (Returned, snd (h3_handleSOCKS5 cfg env c))"
      "c_log (snd (h3_handleSOCKS5 cfg env c)) = c_log c @ SetDeadline # as @
         [ClearDeadline, UDPAssociate, CloseConn]"
proof -
  let ?c = "log SetDeadline c"
  obtain r c1 where 1: "opbind (h3_negotiate cfg) (\<lambda>_. h3_read) ?c = (r, c1)" by fastforce
  obtain as where as: "c_log c1 = c_log ?c @ as" "list_all is_reply as"
    using replies_only_h3_negotiate 1 by (rule replies_onlyE)
  have reply: thesis if "h3_handleSOCKS5 cfg env c = (Returned, log CloseConn (h3_reply b c1))" for b
  proof -
    obtain a where "c_log (h3_reply b c1) = c_log c1 @ [a]" "is_reply a" by (rule h3_reply_log)
    then show thesis using that rejected [of "as @ [a]"] as by simp
  qed
  show thesis
  proof (cases r)
    case (Inl e)
    have "e = Quit"
    proof (cases e)
      case Crash
      with Inl 1 h3_negotiate_no_crash show ?thesis by (auto simp: opbind_Inl oplift_Quit)
    qed
    with Inl 1 as rejected [of as] show thesis by (simp add: h3_handleSOCKS5_def)
  next
    case (Inr rq)
    with 1 obtain c0 where "h3_negotiate cfg ?c = (Inr (), c0)" "h3_read c0 = (Inr rq, c1)"
      by (auto simp: opbind_Inr)
    then have adm: "h3_admits cfg (reads c) (rq # reads c1)"
      using h3_negotiate_Inr h3_read_Inr by fastforce
    consider "length rq < 4 \<or> rq ! 1 \<noteq> 0x01 \<and> rq ! 1 \<noteq> 0x03 \<or> rq ! 1 = 0x03 \<and> \<not> AllowUDP cfg"
      | "length rq \<ge> 4" "rq ! 1 = 0x01" | "length rq \<ge> 4" "rq ! 1 = 0x03" "AllowUDP cfg"
      by fastforce
    then show thesis
    proof cases
      case 1
      with \<open>opbind (h3_negotiate cfg) (\<lambda>_. h3_read) ?c = (r, c1)\<close> Inr
      have "\<exists>b. h3_handleSOCKS5 cfg env c = (Returned, log CloseConn (h3_reply b c1))"
        by (auto simp: h3_handleSOCKS5_def)
      then show thesis using reply by blast
    next
      case 3
      with \<open>opbind (h3_negotiate cfg) (\<lambda>_. h3_read) ?c = (r, c1)\<close> Inr udp [of as rq "reads c1"] as adm
      show thesis by (simp add: h3_handleSOCKS5_def)
    next
      case 2
      with \<open>opbind (h3_negotiate cfg) (\<lambda>_. h3_read) ?c = (r, c1)\<close> Inr
      have h: "h3_handleSOCKS5 cfg env c =
         (case parseSOCKS5Addr rq of
            Panic \<Rightarrow> (Crashed, log CloseConn c1)
          | Err _ \<Rightarrow> (Returned, log CloseConn (h3_reply 0x08 c1))
          | Ok (targetAddr, _) \<Rightarrow> (Returned, log CloseConn (h3_connect env targetAddr c1)))"
        by (simp add: h3_handleSOCKS5_def split: gores.split)
      show thesis
      proof (cases "parseSOCKS5Addr rq")
        case (Ok th)
        with h connect [of as rq "reads c1" "fst th" "snd th" c1] as adm 2 show thesis by (cases th) simp
      next
        case (Err e)
        with h reply show thesis by simp
      next
        case Panic
        with h panicked [of as rq "reads c1"] as adm 2 parseSOCKS5Addr_Panic_iff show thesis by simp
      qed
    qed
  qed
qed

section \<open>Properties\<close>

lemma is_reply_more [simp]:
  "list_all is_reply as \<Longrightarrow> OpenStream \<notin> set as" "list_all is_reply as \<Longrightarrow> Connect x y z \<notin> set as"
  "list_all is_reply as \<Longrightarrow> Resolve x \<notin> set as"
  "is_reply a \<Longrightarrow> a \<noteq> OpenStream" "is_reply a \<Longrightarrow> a \<noteq> UDPAssociate" "is_reply a \<Longrightarrow> a \<noteq> Resolve x"
  by (auto simp: list_all_iff)

abbreviation h3_log :: "socks_config \<Rightarrow> h3_env \<Rightarrow> bytes list \<Rightarrow> action list" where
  "h3_log cfg env segs \<equiv> c_log (snd (h3_handleSOCKS5 cfg env (quiet_conn segs)))"

lemma quiet_conn_in [simp]: "c_in (quiet_conn segs) = segs"
  by (simp add: quiet_conn_def)

text \<open>A whole conversation on a connection of any kind: what the client sends, when its side ends, and
  which writes to it fail are all arbitrary.\<close>

abbreviation h3_run :: "socks_config \<Rightarrow> h3_env \<Rightarrow> conn \<Rightarrow> action list" where
  "h3_run cfg env c \<equiv> c_log (snd (h3_handleSOCKS5 cfg env (c\<lparr>c_log := []\<rparr>)))"

text \<open>Actions that concern the client's connection only.\<close>

definition local_action :: "action \<Rightarrow> bool" where
  "local_action a \<longleftrightarrow> is_reply a \<or> a = SetDeadline \<or> a = ClearDeadline \<or> a = CloseConn"

lemma local_replies: "list_all is_reply as \<Longrightarrow> a \<in> set as \<Longrightarrow> local_action a"
  by (simp add: local_action_def list_all_iff)

text \<open>C10: the HTTP/3 handler does nothing beyond the client's own connection unless the client's first
  messages admit it, the configured credentials included. It resolves a target, opens a stream,
  sends a CONNECT and relays only for the target of an encoded CONNECT request that is the
  admitted client's next message; the CONNECT it sends is the one for the resolved target, with
  the bearer token; and it starts a UDP association only for a message that asks for one, if
  the configuration allows it.\<close>

theorem h3_resolves_only_admitted:
  assumes "act \<in> set (h3_run cfg env c)" "\<not> local_action act"
  shows "(\<exists>v r a port junk rest. h3_admits cfg (pieces (c_in c)) (([v, 0x01, r] @ enc_addr a @ be16 port @ junk) # rest) \<and>
      wf_addr a \<and> port \<noteq> 0 \<and>
      (act \<in> {Resolve (target_of a port), OpenStream, Relay (target_of a port), CancelRead, CloseStream} \<or>
       (\<exists>req. act = connect_action req \<and> resolved_request env (target_of a port) req))) \<or>
    act = UDPAssociate \<and> AllowUDP cfg \<and>
      (\<exists>rq rest. h3_admits cfg (pieces (c_in c)) (rq # rest) \<and> 4 \<le> length rq \<and> rq ! 1 = 0x03)"
proof (cases rule: h3_handleSOCKS5_cases [of cfg env "c\<lparr>c_log := []\<rparr>"])
  case (connect as rq rest u h c1)
  from parseSOCKS5Addr_Ok [OF connect(4)] obtain v k r a port junk where
    rq: "rq = [v, k, r] @ enc_addr a @ be16 port @ junk" "wf_addr a" "port \<noteq> 0" "u = target_of a port"
    by blast
  with connect(3) have k: "k = 0x01" by simp
  have "act \<in> {Resolve u, OpenStream, Relay u, CancelRead, CloseStream} \<or>
      (\<exists>req. act = connect_action req \<and> resolved_request env u req)"
    using assms connect(1,5,6) local_replies [OF connect(1), of act]
    by (cases rule: h3_connect_log [of env u c1]) (auto simp: local_action_def)
  moreover have "h3_admits cfg (pieces (c_in c)) (([v, 0x01, r] @ enc_addr a @ be16 port @ junk) # rest)"
    using connect(2) rq(1) k by simp
  ultimately show ?thesis using rq(2-4) by metis
next
  case (udp as rq rest)
  have "act = UDPAssociate" using assms udp(7) local_replies [OF udp(2), of act] by (auto simp: local_action_def)
  with udp show ?thesis by auto
next
  case (rejected as)
  with assms local_replies [of as act] show ?thesis by (auto simp: local_action_def)
next
  case (panicked as rq rest)
  with assms local_replies [of as act] show ?thesis by (auto simp: local_action_def)
qed

definition demo_env :: h3_env where
  "demo_env = \<lparr>env_dns = (\<lambda>_. Inr [10, 0, 0, 7]), env_open = True,
     env_stream = (\<lambda>_. \<lparr>set_deadline_ok = True, send_ok = True, response = Some 200, clear_deadline_ok = True\<rparr>),
     env_token = ''t'', env_setup_deadline = 20, env_now = 0\<rparr>"

abbreviation open_config :: socks_config where
  "open_config \<equiv> \<lparr>Username = [], Password = [], AllowUDP = False\<rparr>"

lemma demo_log_resolves:
  "Resolve ''10.0.0.1:80'' \<in> set (h3_log open_config demo_env [[5, 1, 0], [5, 1, 0, 1, 10, 0, 0, 1, 0, 80]])"
proof -
  let ?rq = "[5, 1, 0] @ enc_addr (V4 [10, 0, 0, 1]) @ be16 80 @ []"
  have "parseSOCKS5Addr [5, 1, 0, 1, 10, 0, 0, 1, 0, 80] = Ok (''10.0.0.1:80'', ''10.0.0.1'')" by code_simp
  then have "h3_handleSOCKS5 open_config demo_env (quiet_conn [[5, 1, 0], [5, 1, 0, 1, 10, 0, 0, 1, 0, 80]]) =
    (Returned, log CloseConn (h3_connect demo_env ''10.0.0.1:80''
      (quiet_conn []\<lparr>c_tries := 1, c_log := [SetDeadline, Sent [5, 0]]\<rparr>)))"
    by (simp add: h3_handleSOCKS5_def h3_negotiate_def require_auth_def opbind_def oplift_def conn_read_def
        conn_write_def quiet_conn_def log_def)
  then show ?thesis
    by (cases rule: h3_connect_log [of demo_env "''10.0.0.1:80''"
        "quiet_conn []\<lparr>c_tries := 1, c_log := [SetDeadline, Sent [5, 0]]\<rparr>"]) auto
qed

theorem h3_resolves_only_admitted_witness:
  "\<exists>v r a port junk rest. h3_admits open_config (pieces [[5, 1, 0], [5, 1, 0, 1, 10, 0, 0, 1, 0, 80]])
       (([v, 0x01, r] @ enc_addr a @ be16 port @ junk) # rest) \<and>
    wf_addr a \<and> port \<noteq> 0 \<and> ''10.0.0.1:80'' = target_of a port"
proof -
  have c: "(quiet_conn segs)\<lparr>c_log := []\<rparr> = quiet_conn segs" for segs by (simp add: quiet_conn_def)
  have "Resolve ''10.0.0.1:80'' \<in> set (h3_run open_config demo_env (quiet_conn [[5, 1, 0], [5, 1, 0, 1, 10, 0, 0, 1, 0, 80]]))"
    unfolding c by (rule demo_log_resolves)
  moreover have "\<not> local_action (Resolve ''10.0.0.1:80'')" by (simp add: local_action_def)
  ultimately show ?thesis
    using h3_resolves_only_admitted [of "Resolve ''10.0.0.1:80''" open_config demo_env] by fastforce
qed

text \<open>The HTTP/3 handler starts a UDP association only for an admitted client that asks for one,
  and only when the configuration allows it.\<close>

theorem h3_udp_only_admitted:
  assumes "UDPAssociate \<in> set (h3_log cfg env segs)"
  shows "AllowUDP cfg \<and> (\<exists>rq rest. h3_admits cfg (pieces segs) (rq # rest) \<and> length rq \<ge> 4 \<and> rq ! 1 = 0x03)"
proof (cases rule: h3_handleSOCKS5_cases [of cfg env "quiet_conn segs"])
  case (udp as rq rest)
  then show ?thesis by auto
next
  case (connect as rq rest u h c1)
  then have False using assms by (cases rule: h3_connect_log [of env u c1]; auto)
  then show ?thesis ..
qed (use assms in auto)

theorem h3_udp_only_admitted_witness:
  "AllowUDP (open_config\<lparr>AllowUDP := True\<rparr>) \<and>
   (\<exists>rq rest. h3_admits (open_config\<lparr>AllowUDP := True\<rparr>) (pieces [[5, 1, 0], [5, 3, 0, 1]]) (rq # rest) \<and>
      length rq \<ge> 4 \<and> rq ! 1 = 0x03)"
  by (rule h3_udp_only_admitted [where env = demo_env])
    (simp add: h3_handleSOCKS5_def h3_negotiate_def require_auth_def opbind_def oplift_def conn_read_def
        conn_write_def quiet_conn_def log_def)

text \<open>C30: the HTTP/3 handler panics exactly on an admitted client whose next message is four bytes
  long and asks for a CONNECT to a domain: the length byte of the domain is read without a
  check. No other message makes it panic.\<close>

theorem h3_panics_iff:
  "(\<exists>c'. h3_handleSOCKS5 cfg env (quiet_conn segs) = (Crashed, c')) \<longleftrightarrow>
   (\<exists>v r rest. h3_admits cfg (pieces segs) ([v, 0x01, r, 0x03] # rest))"
proof
  assume "\<exists>c'. h3_handleSOCKS5 cfg env (quiet_conn segs) = (Crashed, c')"
  then obtain c' where c': "h3_handleSOCKS5 cfg env (quiet_conn segs) = (Crashed, c')" ..
  show "\<exists>v r rest. h3_admits cfg (pieces segs) ([v, 0x01, r, 0x03] # rest)"
  proof (cases rule: h3_handleSOCKS5_cases [of cfg env "quiet_conn segs"])
    case (panicked as rq rest)
    then have "rq = [rq ! 0, 0x01, rq ! 2, 0x03]" using list4 [of rq] by metis
    with panicked(2) show ?thesis by (metis quiet_conn_in)
  qed (use c' in auto)
next
  assume "\<exists>v r rest. h3_admits cfg (pieces segs) ([v, 0x01, r, 0x03] # rest)"
  then obtain v r rest where "h3_admits cfg (reads (log SetDeadline (quiet_conn segs))) ([v, 0x01, r, 0x03] # rest)"
    by auto
  from h3_admits_complete [OF this] obtain c' where
    "opbind (h3_negotiate cfg) (\<lambda>_. h3_read) (log SetDeadline (quiet_conn segs)) = (Inr [v, 0x01, r, 0x03], c')"
    by auto
  then show "\<exists>c'. h3_handleSOCKS5 cfg env (quiet_conn segs) = (Crashed, c')"
    using parseSOCKS5Addr_Panic_iff [of "[v, 0x01, r, 0x03]"] by (simp add: h3_handleSOCKS5_def)
qed





text \<open>The literal address the edge is asked for: the host itself if it is one, otherwise the
  resolver's answer.\<close>

definition edge_host :: "h3_env \<Rightarrow> string \<Rightarrow> string option" where
  "edge_host env host =
     (if parseIP host \<noteq> None then Some host
      else case env_dns env host of Inl _ \<Rightarrow> None | Inr ip \<Rightarrow> Some (ip_string ip))"

definition edge_accepts :: "stream_script \<Rightarrow> bool" where
  "edge_accepts st \<longleftrightarrow> set_deadline_ok st \<and> send_ok st \<and> response st = Some 200 \<and> clear_deadline_ok st"

lemma edge_accepts_iff: "edge_accepts st \<longleftrightarrow> fst (connectThroughEdge st req dl) = Inr 200"
  by (auto simp: edge_accepts_def connectThroughEdge_def Let_def split: option.splits if_splits)

lemma h3_exchange_quiet:
  assumes "c_wok c = (\<lambda>_. True)"
  shows "c_log (h3_exchange env t req c) = c_log c @
    (if edge_accepts (env_stream env req)
     then [Sent sendSocks5Success, Relay t, CancelRead, CloseStream, CloseConn]
     else [CancelRead, CloseStream, Sent (sendSocks5Err 4)])"
proof -
  let ?r = "fst (connectThroughEdge (env_stream env req) req
    (connectDeadline (Some (env_setup_deadline env)) (env_now env) connectExchangeTimeout))"
  show ?thesis
    using assms edge_accepts_iff [of "env_stream env req" req
        "connectDeadline (Some (env_setup_deadline env)) (env_now env) connectExchangeTimeout"]
    by (cases ?r) (auto simp: h3_exchange_def h3_reply_def conn_write_def releaseStream_def)
qed

lemma resolveTarget_edge_host:
  assumes "splitHostPort t = Inr (host, port)"
  shows "fst (resolveTarget (\<lambda>h s. (env_dns env h, s)) t ()) =
    (case edge_host env host of
       None \<Rightarrow> (case env_dns env host of Inl e \<Rightarrow> Inl (DnsFailed e) | Inr _ \<Rightarrow> Inl (DnsFailed None))
     | Some lit \<Rightarrow> Inr (joinHostPort lit port, if parseIP host \<noteq> None then [] else host))"
  using assms by (auto simp: resolveTarget_def edge_host_def split: sum.split)

text \<open>C34: a client of the HTTP/3 handler whose messages arrive one per read, admitted and asking
  for a CONNECT to an address with a nonzero port, is served by this conversation and no other.
  Its target is resolved; a failed lookup or a stream that cannot be opened is answered with the
  error 4. Otherwise the edge is sent the literal target, the bearer token and, for a name, the
  name with the requested port as Host; if the exchange ends with a 200 and no failure the client
  gets the success reply and the relay, otherwise the stream is released and the client gets the
  error 4. Every branch ends with the connection closed.\<close>

theorem h3_connect_conversation:
  assumes "h3_admits cfg (pieces segs) (([v, 0x01, r] @ enc_addr a @ be16 port @ junk) # rest)"
    and "wf_addr a" "port \<noteq> 0" "host_ok (host_of a)"
    and "\<And>ip. env_dns env (host_of a) = Inr ip \<Longrightarrow> valid_ip ip"
  shows "fst (h3_handleSOCKS5 cfg env (quiet_conn segs)) = Returned \<and>
    h3_log cfg env segs = SetDeadline # answers cfg @ [ClearDeadline, Resolve (target_of a port)] @
      (case edge_host env (host_of a) of
         None \<Rightarrow> [Sent (sendSocks5Err 4)]
       | Some lit \<Rightarrow>
           if \<not> env_open env then [Sent (sendSocks5Err 4)]
           else
             let req = \<lparr>req_target = joinHostPort lit (itoa (unat port)),
                        req_authorization = ''Bearer '' @ env_token env,
                        req_host = if parseIP (host_of a) \<noteq> None \<or> host_of a = [] then None
                                   else Some (host_of a @ '':'' @ itoa (unat port))\<rparr>
             in [OpenStream, connect_action req] @
                (if edge_accepts (env_stream env req)
                 then [Sent sendSocks5Success, Relay (target_of a port), CancelRead, CloseStream, CloseConn]
                 else [CancelRead, CloseStream, Sent (sendSocks5Err 4)])) @ [CloseConn]"
proof -
  let ?rq = "[v, 0x01, r] @ enc_addr a @ be16 port @ junk" and ?t = "target_of a port"
    and ?h = "host_of a" and ?p = "itoa (unat port)"
  have "h3_admits cfg (reads (log SetDeadline (quiet_conn segs))) (?rq # rest)" using assms(1) by simp
  from h3_admits_complete [OF this] obtain c' where
    c': "opbind (h3_negotiate cfg) (\<lambda>_. h3_read) (log SetDeadline (quiet_conn segs)) = (Inr ?rq, c')"
      "c_log c' = SetDeadline # answers cfg" "c_wok c' = (\<lambda>_. True)"
    by auto
  note res = resolveTarget_edge_host [OF splitHostPort_target [OF assms(4)], of env]
  have lit: "splitHostPort (joinHostPort lit ?p) = Inr (lit, ?p)" if "edge_host env ?h = Some lit" for lit
  proof -
    have "host_ok lit"
      using that assms(4) ip_string_host_ok [OF assms(5)]
      by (auto simp: edge_host_def split: if_splits sum.splits)
    then show ?thesis by (intro net.split_of_join) simp_all
  qed
  have h: "h3_handleSOCKS5 cfg env (quiet_conn segs) = (Returned, log CloseConn (h3_connect env ?t c'))"
    using c'(1) parseSOCKS5Addr_encoded [OF assms(2,3), of v "0x01" r junk] by (simp add: h3_handleSOCKS5_def)
  show ?thesis
  proof (cases "edge_host env ?h")
    case None
    then show ?thesis
      using h c'(2,3) res by (auto simp: h3_connect_def h3_reply_def conn_write_def split: sum.splits)
  next
    case (Some lit)
    note r = res [unfolded Some option.case]
    show ?thesis
    proof (cases "env_open env")
      case True
      have w: "c_wok (log (connect_action req) (log OpenStream (log (Resolve ?t) (log ClearDeadline c')))) = (\<lambda>_. True)"
        for req using c'(3) by simp
      show ?thesis
        using h c'(2) r lit [OF Some] True Some
        by (simp add: h3_connect_def Let_def h3_exchange_quiet [OF w] connect_request_def)
    qed (use h c'(2,3) r Some in \<open>simp add: h3_connect_def h3_reply_def conn_write_def\<close>)
  qed
qed

definition refusing_env :: h3_env where
  "refusing_env = demo_env\<lparr>env_stream := (\<lambda>_. \<lparr>set_deadline_ok = True, send_ok = True,
     response = Some 403, clear_deadline_ok = True\<rparr>)\<rparr>"

theorem h3_connect_conversation_witness:
  "h3_log open_config demo_env [[5, 1, 0], [5, 1, 0, 3, 2, 120, 121, 1, 187]] =
      [SetDeadline, Sent [5, 0], ClearDeadline, Resolve ''xy:443'', OpenStream,
       Connect ''10.0.0.7:443'' ''Bearer t'' ''xy:443'',
       Sent sendSocks5Success, Relay ''xy:443'', CancelRead, CloseStream, CloseConn, CloseConn] \<and>
   h3_log open_config refusing_env [[5, 1, 0], [5, 1, 0, 3, 2, 120, 121, 1, 187]] =
      [SetDeadline, Sent [5, 0], ClearDeadline, Resolve ''xy:443'', OpenStream,
       Connect ''10.0.0.7:443'' ''Bearer t'' ''xy:443'',
       CancelRead, CloseStream, Sent (sendSocks5Err 4), CloseConn]"
proof -
  have "h3_admits open_config (pieces [[5, 1, 0], [5, 1, 0, 3, 2, 120, 121, 1, 187]])
      (([5, 0x01, 0] @ enc_addr (Domain [120, 121]) @ be16 443 @ []) # [])"
    by (simp add: h3_admits_def require_auth_def pieces_step be16_def)
  moreover have "host_ok (host_of (Domain [120, 121]))" by code_simp
  moreover have "parseIP (host_of (Domain [120, 121])) = None" by code_simp
  moreover have "host_of (Domain [120, 121]) = ''xy''" by code_simp
  moreover have "target_of (Domain [120, 121]) 443 = ''xy:443''" by code_simp
  moreover have "joinHostPort (ip_string [10, 0, 0, 7]) (itoa (unat (443 :: 16 word))) = ''10.0.0.7:443''" by code_simp
  moreover have "itoa (unat (443 :: 16 word)) = ''443''" by code_simp
  ultimately show ?thesis
    using h3_connect_conversation [of open_config "[[5, 1, 0], [5, 1, 0, 3, 2, 120, 121, 1, 187]]" 5 0
        "Domain [120, 121]" 443 "[]" "[]" demo_env]
      h3_connect_conversation [of open_config "[[5, 1, 0], [5, 1, 0, 3, 2, 120, 121, 1, 187]]" 5 0
        "Domain [120, 121]" 443 "[]" "[]" refusing_env]
    by (simp add: demo_env_def refusing_env_def valid_ip_def edge_host_def edge_accepts_def connect_action_def
        answers_def require_auth_def Let_def)
qed

text \<open>An HTTP/3 client cannot authenticate with configured credentials of more than 509 bytes
  together, although the protocol allows 255 for each: the whole authentication request would
  have to fit the 512-byte buffer. Whatever the client sends, it is turned away; the HTTP/2
  negotiation admits it.\<close>

theorem h3_long_credentials_locked_out:
  assumes "require_auth cfg" "509 < length (Username cfg) + length (Password cfg)"
  shows "(\<exists>as. list_all is_reply as \<and> h3_log cfg env segs = SetDeadline # as @ [CloseConn]) \<and>
    (negotiable cfg [0x02] \<longleftrightarrow> length (Username cfg) < 256 \<and> length (Password cfg) < 256)"
proof
  have no: "\<not> h3_admits cfg (pieces segs) msgs" for msgs
  proof
    assume "h3_admits cfg (pieces segs) msgs"
    then obtain g junk where
      "pieces segs = g # (auth_request (bytes_of_str (Username cfg)) (bytes_of_str (Password cfg)) @ junk) # msgs"
      using assms(1) unfolding h3_admits_def by auto
    then have "auth_request (bytes_of_str (Username cfg)) (bytes_of_str (Password cfg)) @ junk \<in> set (pieces segs)"
      by simp
    from pieces_length [OF this] show False using assms(2) by (simp add: auth_request_def)
  qed
  show "\<exists>as. list_all is_reply as \<and> h3_log cfg env segs = SetDeadline # as @ [CloseConn]"
    by (cases rule: h3_handleSOCKS5_cases [of cfg env "quiet_conn segs"]) (use no in auto)
  show "negotiable cfg [0x02] \<longleftrightarrow> length (Username cfg) < 256 \<and> length (Password cfg) < 256"
    using assms(1) by (simp add: negotiable_def)
qed

definition long_config :: socks_config where
  "long_config = \<lparr>Username = replicate 255 CHR ''u'', Password = replicate 255 CHR ''p'', AllowUDP = True\<rparr>"

theorem h3_long_credentials_locked_out_witness:
  "(\<exists>as. list_all is_reply as \<and> h3_log long_config demo_env [[5, 1, 2]] = SetDeadline # as @ [CloseConn]) \<and>
    (negotiable long_config [0x02] \<longleftrightarrow>
       length (Username long_config) < 256 \<and> length (Password long_config) < 256)"
  by (rule h3_long_credentials_locked_out) (simp_all add: require_auth_def long_config_def)

text \<open>The HTTP/3 handler is not a function of the client's byte stream: a client that sends its
  greeting and its request in one segment is not served, one that sends the same bytes in two
  is.\<close>

theorem h3_depends_on_segmentation:
  "\<exists>segs segs'. concat segs = concat segs' \<and>
     Resolve ''10.0.0.1:80'' \<in> set (h3_log open_config demo_env segs) \<and>
     Resolve ''10.0.0.1:80'' \<notin> set (h3_log open_config demo_env segs')"
proof (intro exI conjI)
  show "concat [[5, 1, 0], [5, 1, 0, 1, 10, 0, 0, 1, 0, 80]] = concat [[5, 1, 0, 5, 1, 0, 1, 10, 0, 0, 1, 0, 80 :: byte]]"
    by simp
  show "Resolve ''10.0.0.1:80'' \<in> set (h3_log open_config demo_env [[5, 1, 0], [5, 1, 0, 1, 10, 0, 0, 1, 0, 80]])"
    by (rule demo_log_resolves)
  have "\<not> h3_admits open_config (pieces [[5, 1, 0, 5, 1, 0, 1, 10, 0, 0, 1, 0, 80]]) (rq # rest)" for rq rest
    by (simp add: h3_admits_def require_auth_def pieces_step)
  then show "Resolve ''10.0.0.1:80'' \<notin> set (h3_log open_config demo_env [[5, 1, 0, 5, 1, 0, 1, 10, 0, 0, 1, 0, 80]])"
    by (cases rule: h3_handleSOCKS5_cases [of open_config demo_env "quiet_conn [[5, 1, 0, 5, 1, 0, 1, 10, 0, 0, 1, 0, 80]]"])
      auto
qed

end
