(* ===== verification/Udp_Relay.thy ===== *)
theory Udp_Relay
  imports Socks_Wire Go_IP_Text
begin

text \<open>
  UDP ASSOCIATE in both backends (\<open>tunnel/udp.go\<close> and \<open>tunnel/h2_udp.go\<close>). An association
  relays datagrams between one client, whose address is learned from its first datagram, and
  any number of targets. The loops of each backend are steps of a state that holds what they
  share, the client's address, and the deadlines of the sockets: a socket that receives nothing
  for 60 seconds ends its loop, and the end of any loop shuts the whole association down. A
  datagram is handled at the instant it is read. The HTTP/3 backend has one socket to the targets,
  the HTTP/2 backend one for each address family of the tunnel. The interface \<open>pinned_relay\<close> states
  what makes an association safe, and both backends are instances.
\<close>

section \<open>What happens to an association\<close>

text \<open>A datagram that a socket reads, on a target socket by its number; a datagram of a target socket
  whose source is not a UDP address, for which only the HTTP/2 loop has a test; the end of the control
  connection, of the program's context, or of a socket.\<close>

datatype socket = ClientSock | RemoteSock nat

datatype event =
    ClientDatagram udp_addr bytes
  | RemoteDatagram nat udp_addr bytes
  | RemoteOther nat bytes
  | ControlClosed

datatype relay_out =
    ToRemote nat bytes udp_addr
  | ToClient bytes udp_addr

definition udpIdleTimeout :: int where
  "udpIdleTimeout = 60 * 1000000000"

definition udpMaxDatagram :: nat where
  "udpMaxDatagram = 65507"

definition same_addr :: "udp_addr \<Rightarrow> udp_addr \<Rightarrow> bool" where
  "same_addr p a \<longleftrightarrow> ip_equal (u_ip p) (u_ip a) \<and> u_port p = u_port a"

text \<open>\<open>setPeer\<close>: whether the datagram's source is accepted, and the address kept.\<close>

definition setPeer :: "udp_addr \<Rightarrow> udp_addr option \<Rightarrow> bool \<times> udp_addr option" where
  "setPeer addr clientAddr =
     (case clientAddr of
        None \<Rightarrow> (True, Some addr)
      | Some p \<Rightarrow> (same_addr p addr, clientAddr))"

fun sock_of :: "event \<Rightarrow> socket option" where
  "sock_of (ClientDatagram _ _) = Some ClientSock"
| "sock_of (RemoteDatagram f _ _) = Some (RemoteSock f)"
| "sock_of (RemoteOther f _) = Some (RemoteSock f)"
| "sock_of ControlClosed = None"

section \<open>Targets\<close>

datatype target_err = BadUdpTarget | BadUdpPort | LookupFailed | NoLookupResult | NoSocket | NoMatch

text \<open>\<open>net.LookupPort\<close>: a decimal port, else a service name (\<open>services\<close>).\<close>

definition lookup_port :: "(string \<Rightarrow> int option) \<Rightarrow> string \<Rightarrow> int option" where
  "lookup_port services port =
     (case atoi port of
        Some p \<Rightarrow> if 0 \<le> p \<and> p \<le> 65535 then Some p else None
      | None \<Rightarrow> services port)"

text \<open>The host's resolver: the addresses of a name, with their zones.\<close>

record host_net =
  hn_services :: "string \<Rightarrow> int option"
  hn_lookup :: "string \<Rightarrow> (ip \<times> string) list option"

definition resolveUDPTarget :: "host_net \<Rightarrow> string \<Rightarrow> target_err + udp_addr" where
  "resolveUDPTarget net dst =
     (case splitHostPort dst of
        Inl _ \<Rightarrow> Inl BadUdpTarget
      | Inr (host, port) \<Rightarrow>
          (case parseIP host of
             Some ip \<Rightarrow>
               (case lookup_port (hn_services net) port of
                  None \<Rightarrow> Inl BadUdpTarget
                | Some p \<Rightarrow> Inr \<lparr>u_ip = ip, u_port = p, u_zone = []\<rparr>)
           | None \<Rightarrow>
               (case hn_lookup net host of
                  None \<Rightarrow> Inl LookupFailed
                | Some [] \<Rightarrow> Inl NoLookupResult
                | Some ((ip, zone) # _) \<Rightarrow>
                    (case lookup_port (hn_services net) port of
                       None \<Rightarrow> Inl BadUdpPort
                     | Some p \<Rightarrow> Inr \<lparr>u_ip = ip, u_port = p, u_zone = zone\<rparr>))))"

definition ipFamily :: "ip \<Rightarrow> nat" where
  "ipFamily ip = (if to4 ip \<noteq> None then 4 else 6)"

text \<open>\<open>remoteFor\<close>: the socket of the target's family, among the families the tunnel has.\<close>

definition remoteFor :: "nat list \<Rightarrow> ip \<Rightarrow> nat option" where
  "remoteFor families ip =
     (let family = (if to4 ip \<noteq> None then 4 else 6)
      in find (\<lambda>f. f = family) families)"

definition resolveH2UDPTarget ::
    "(string \<Rightarrow> string list option) \<Rightarrow> nat list \<Rightarrow> string \<Rightarrow> target_err + udp_addr" where
  "resolveH2UDPTarget lookup families destination =
     (case splitHostPort destination of
        Inl _ \<Rightarrow> Inl BadUdpTarget
      | Inr (host, portValue) \<Rightarrow>
          (case atoi portValue of
             None \<Rightarrow> Inl BadUdpPort
           | Some port \<Rightarrow>
               if port < 1 \<or> port > 65535 then Inl BadUdpPort
               else
                 (case parseIP host of
                    Some ip \<Rightarrow>
                      if remoteFor families ip = None then Inl NoSocket
                      else Inr \<lparr>u_ip = ip, u_port = port, u_zone = []\<rparr>
                  | None \<Rightarrow>
                      (case lookup host of
                         None \<Rightarrow> Inl LookupFailed
                       | Some addresses \<Rightarrow>
                           (case find (\<lambda>ip. remoteFor families ip \<noteq> None) (List.map_filter parseIP addresses) of
                              Some ip \<Rightarrow> Inr \<lparr>u_ip = ip, u_port = port, u_zone = []\<rparr>
                            | None \<Rightarrow> Inl NoMatch)))))"

section \<open>The loops of the HTTP/3 backend\<close>

text \<open>The client's address, whether the association still runs, and the read deadlines of the socket
  to the client and of the one to the targets.\<close>

record assoc =
  a_peer :: "udp_addr option"
  a_alive :: bool
  a_client :: int
  a_remote :: int

text \<open>One datagram from the client, in \<open>clientToRemote\<close>; the result of the write is ignored. A panic of
  the parser would end everything.\<close>

definition clientToRemote :: "host_net \<Rightarrow> udp_addr \<Rightarrow> bytes \<Rightarrow> assoc \<Rightarrow> assoc \<times> relay_out list" where
  "clientToRemote net src datagram s =
     (let (ok, peer) = setPeer src (a_peer s); s = s\<lparr>a_peer := peer\<rparr> in
      if \<not> ok then (s, [])
      else case parseUDPRequest (take udpMaxDatagram datagram) of
        Ok (dst, payload) \<Rightarrow>
          (case resolveUDPTarget net dst of
             Inr target \<Rightarrow> (s, [ToRemote 0 payload target])
           | Inl _ \<Rightarrow> (s, []))
      | Err _ \<Rightarrow> (s, [])
      | Panic \<Rightarrow> (s\<lparr>a_alive := False\<rparr>, []))"

text \<open>One datagram from a target, in \<open>remoteToClient\<close>; a write to the client that fails ends the loop.\<close>

definition remoteToClient :: "(bytes \<Rightarrow> bool) \<Rightarrow> udp_addr \<Rightarrow> bytes \<Rightarrow> assoc \<Rightarrow> assoc \<times> relay_out list" where
  "remoteToClient client_write src payload s =
     (case a_peer s of
        None \<Rightarrow> (s, [])
      | Some peer \<Rightarrow>
          (case appendUDPReply [] src (take udpMaxDatagram payload) of
             Inl _ \<Rightarrow> (s, [])
           | Inr frame \<Rightarrow>
               if client_write frame then (s, [ToClient frame peer])
               else (s\<lparr>a_alive := False\<rparr>, [])))"

text \<open>At time \<open>t\<close> a socket whose deadline has come has failed its read, and \<open>shutdown\<close> has run; after a
  datagram the loop of its socket sets a new deadline. The one socket to the targets has the number 0.\<close>

definition h3_udp_step ::
    "host_net \<Rightarrow> (bytes \<Rightarrow> bool) \<Rightarrow> int \<Rightarrow> event \<Rightarrow> assoc \<Rightarrow> assoc \<times> relay_out list" where
  "h3_udp_step net client_write t e s0 =
     (let s = s0\<lparr>a_alive := a_alive s0 \<and> t < a_client s0 \<and> t < a_remote s0\<rparr> in
      if \<not> a_alive s then (s, [])
      else case e of
        ClientDatagram src datagram \<Rightarrow> clientToRemote net src datagram (s\<lparr>a_client := t + udpIdleTimeout\<rparr>)
      | RemoteDatagram f src payload \<Rightarrow>
          if f \<noteq> 0 then (s, []) else remoteToClient client_write src payload (s\<lparr>a_remote := t + udpIdleTimeout\<rparr>)
      | RemoteOther _ _ \<Rightarrow> (s, [])
      | ControlClosed \<Rightarrow> (s\<lparr>a_alive := False\<rparr>, []))"

definition start_assoc :: "int \<Rightarrow> assoc" where
  "start_assoc t0 =
     \<lparr>a_peer = None, a_alive = True, a_client = t0 + udpIdleTimeout, a_remote = t0 + udpIdleTimeout\<rparr>"

section \<open>The loops of the HTTP/2 backend\<close>

text \<open>A socket to the targets of one address family, with its read deadline and, once it has been
  written to, its write deadline.\<close>

record h2_remote =
  hr_family :: nat
  hr_read :: int
  hr_write :: "int option"

record h2_assoc =
  ha_peer :: "udp_addr option"
  ha_alive :: bool
  ha_client :: int
  ha_remotes :: "h2_remote list"

definition families_of :: "h2_assoc \<Rightarrow> nat list" where
  "families_of s = map hr_family (ha_remotes s)"

text \<open>Setting a deadline on the sockets of a family; an association has at most one of each.\<close>

definition on_family :: "nat \<Rightarrow> (h2_remote \<Rightarrow> h2_remote) \<Rightarrow> h2_assoc \<Rightarrow> h2_assoc" where
  "on_family f g s = s\<lparr>ha_remotes := map (\<lambda>r. if hr_family r = f then g r else r) (ha_remotes s)\<rparr>"

text \<open>\<open>h2UDPClientToRemote\<close> on one datagram: the write to the target runs under a deadline of its own,
  and its result is ignored.\<close>

definition h2UDPClientToRemote ::
    "(string \<Rightarrow> string list option) \<Rightarrow> int \<Rightarrow> udp_addr \<Rightarrow> bytes \<Rightarrow> h2_assoc \<Rightarrow> h2_assoc \<times> relay_out list" where
  "h2UDPClientToRemote lookup t source datagram s =
     (let (ok, peer) = setPeer source (ha_peer s); s = s\<lparr>ha_peer := peer\<rparr> in
      if \<not> ok then (s, [])
      else case parseUDPRequest (take udpMaxDatagram datagram) of
        Panic \<Rightarrow> (s\<lparr>ha_alive := False\<rparr>, [])
      | Err _ \<Rightarrow> (s, [])
      | Ok (destination, payload) \<Rightarrow>
          (case resolveH2UDPTarget lookup (families_of s) destination of
             Inl _ \<Rightarrow> (s, [])
           | Inr target \<Rightarrow>
               (case remoteFor (families_of s) (u_ip target) of
                  None \<Rightarrow> (s, [])
                | Some f \<Rightarrow> (on_family f (\<lambda>r. r\<lparr>hr_write := Some (t + udpIdleTimeout)\<rparr>) s,
                             [ToRemote f payload target]))))"

text \<open>\<open>h2UDPRemoteToClient\<close> on one datagram; \<open>source\<close> is \<open>None\<close> if it is not a UDP address.\<close>

definition h2UDPRemoteToClient ::
    "(bytes \<Rightarrow> bool) \<Rightarrow> udp_addr option \<Rightarrow> bytes \<Rightarrow> h2_assoc \<Rightarrow> h2_assoc \<times> relay_out list" where
  "h2UDPRemoteToClient client_write source payload s =
     (case ha_peer s of
        None \<Rightarrow> (s, [])
      | Some peer \<Rightarrow>
          (case source of
             None \<Rightarrow> (s, [])
           | Some udpSource \<Rightarrow>
               (case appendUDPReply [] udpSource (take udpMaxDatagram payload) of
                  Inl _ \<Rightarrow> (s, [])
                | Inr frame \<Rightarrow>
                    if client_write frame then (s, [ToClient frame peer])
                    else (s\<lparr>ha_alive := False\<rparr>, []))))"

text \<open>Every target socket has a loop and a read deadline of its own, and the end of any loop ends them
  all.\<close>

definition h2_expire :: "int \<Rightarrow> h2_assoc \<Rightarrow> h2_assoc" where
  "h2_expire t s = s\<lparr>ha_alive := ha_alive s \<and> t < ha_client s \<and> list_all (\<lambda>r. t < hr_read r) (ha_remotes s)\<rparr>"

definition h2_rearm :: "nat \<Rightarrow> int \<Rightarrow> h2_assoc \<Rightarrow> h2_assoc" where
  "h2_rearm f t = on_family f (\<lambda>r. r\<lparr>hr_read := t + udpIdleTimeout\<rparr>)"

definition h2_udp_step ::
    "(string \<Rightarrow> string list option) \<Rightarrow> (bytes \<Rightarrow> bool) \<Rightarrow> int \<Rightarrow> event \<Rightarrow> h2_assoc \<Rightarrow> h2_assoc \<times> relay_out list" where
  "h2_udp_step lookup client_write t e s0 =
     (let s = h2_expire t s0 in
      if \<not> ha_alive s then (s, [])
      else case e of
        ClientDatagram src datagram \<Rightarrow>
          h2UDPClientToRemote lookup t src datagram (s\<lparr>ha_client := t + udpIdleTimeout\<rparr>)
      | RemoteDatagram f src payload \<Rightarrow>
          if f \<notin> set (families_of s) then (s, [])
          else h2UDPRemoteToClient client_write (Some src) payload (h2_rearm f t s)
      | RemoteOther f payload \<Rightarrow>
          if f \<notin> set (families_of s) then (s, [])
          else h2UDPRemoteToClient client_write None payload (h2_rearm f t s)
      | ControlClosed \<Rightarrow> (s\<lparr>ha_alive := False\<rparr>, []))"

definition start_h2_assoc :: "int \<Rightarrow> nat list \<Rightarrow> h2_assoc" where
  "start_h2_assoc t0 families =
     \<lparr>ha_peer = None, ha_alive = True, ha_client = t0 + udpIdleTimeout,
      ha_remotes = map (\<lambda>f. \<lparr>hr_family = f, hr_read = t0 + udpIdleTimeout, hr_write = None\<rparr>) families\<rparr>"

section \<open>Setting an association up\<close>

datatype setup_act = Opened socket | SetupClosed socket | SetupErr byte | SetupBound bytes

text \<open>\<open>handleUDPAssociate\<close> up to the relay loops: what it opens, closes and answers, and whether
  it goes on to relay. The deferred closes run on a return.\<close>

record h3_setup =
  tcp_local_ok :: bool
  listen_client_ok :: bool
  listen_remote_ok :: bool
  bound_addr :: "udp_addr option"
  bound_write_ok :: bool

definition handleUDPAssociate :: "h3_setup \<Rightarrow> bool \<times> setup_act list" where
  "handleUDPAssociate e =
     (if \<not> tcp_local_ok e then (False, [SetupErr 0x01])
      else if \<not> listen_client_ok e then (False, [SetupErr 0x01])
      else if \<not> listen_remote_ok e then
        (False, [Opened ClientSock, SetupErr 0x01, SetupClosed ClientSock])
      else
        let opened = [Opened ClientSock, Opened (RemoteSock 0)];
            closed = [SetupClosed (RemoteSock 0), SetupClosed ClientSock]
        in case bound_addr e of
          None \<Rightarrow> (False, opened @ [SetupErr 0x01] @ closed)
        | Some b \<Rightarrow>
            (case sendSocks5Bound (u_ip b) (u_port b) of
               Inl _ \<Rightarrow> (False, opened @ closed)
             | Inr reply \<Rightarrow>
                 if bound_write_ok e then (True, opened @ [SetupBound reply])
                 else (False, opened @ closed)))"

text \<open>\<open>handleH2UDPAssociate\<close>: one remote socket for each address family the tunnel has.\<close>

record h2_setup =
  h2_tcp_local_ok :: bool
  h2_listen_client_ok :: bool
  h2_local4 :: bool
  h2_listen4_ok :: bool
  h2_local6 :: bool
  h2_listen6_ok :: bool
  h2_bound_addr :: "udp_addr option"
  h2_bound_write_ok :: bool

definition close_all :: "nat list \<Rightarrow> setup_act list" where
  "close_all families = SetupClosed ClientSock # map (\<lambda>f. SetupClosed (RemoteSock f)) families"

definition handleH2UDPAssociate :: "h2_setup \<Rightarrow> nat list option \<times> setup_act list" where
  "handleH2UDPAssociate e =
     (if \<not> h2_tcp_local_ok e then (None, [SetupErr 0x01])
      else if \<not> h2_listen_client_ok e then (None, [SetupErr 0x01])
      else
        let acts = [Opened ClientSock]; remotes = [] in
        if h2_local4 e \<and> \<not> h2_listen4_ok e then (None, acts @ close_all remotes @ [SetupErr 0x01])
        else
          let acts = (if h2_local4 e then acts @ [Opened (RemoteSock 4)] else acts);
              remotes = (if h2_local4 e then remotes @ [4] else remotes) in
          if h2_local6 e \<and> \<not> h2_listen6_ok e then (None, acts @ close_all remotes @ [SetupErr 0x01])
          else
            let acts = (if h2_local6 e then acts @ [Opened (RemoteSock 6)] else acts);
                remotes = (if h2_local6 e then remotes @ [6] else remotes) in
            if remotes = [] then (None, acts @ close_all remotes @ [SetupErr 0x01])
            else case h2_bound_addr e of
              None \<Rightarrow> (None, acts @ [SetupErr 0x01] @ close_all remotes)
            | Some b \<Rightarrow>
                (case sendSocks5Bound (u_ip b) (u_port b) of
                   Inl _ \<Rightarrow> (None, acts @ close_all remotes)
                 | Inr reply \<Rightarrow>
                     if h2_bound_write_ok e then (Some remotes, acts @ [SetupBound reply])
                     else (None, acts @ close_all remotes)))"

text \<open>A run over timed events, with the outputs of each.\<close>

fun relay_run ::
    "(int \<Rightarrow> event \<Rightarrow> 's \<Rightarrow> 's \<times> relay_out list) \<Rightarrow> (int \<times> event) list \<Rightarrow> 's \<Rightarrow>
     's \<times> (event \<times> relay_out list) list" where
  "relay_run step [] s = (s, [])"
| "relay_run step ((t, e) # es) s =
     (let s1 = fst (step t e s)
      in (fst (relay_run step es s1), (e, snd (step t e s)) # snd (relay_run step es s1)))"

text \<open>An output that serves the client at \<open>p\<close>: relayed from a datagram of this address, or sent to
  it on behalf of a target.\<close>

definition agrees :: "udp_addr \<Rightarrow> event \<Rightarrow> relay_out \<Rightarrow> bool" where
  "agrees p e x \<longleftrightarrow>
     (case x of
        ToRemote f d a \<Rightarrow> (case e of ClientDatagram src dg \<Rightarrow> same_addr p src | _ \<Rightarrow> False)
      | ToClient d q \<Rightarrow> q = p \<and> (case e of RemoteDatagram f src pl \<Rightarrow> True | _ \<Rightarrow> False))"

definition serves_one :: "udp_addr \<Rightarrow> (event \<times> relay_out list) list \<Rightarrow> bool" where
  "serves_one p outs \<longleftrightarrow> list_all (\<lambda>(e, out). list_all (agrees p e) out) outs"

definition silent :: "(event \<times> relay_out list) list \<Rightarrow> bool" where
  "silent outs \<longleftrightarrow> list_all (\<lambda>(_, out). out = []) outs"

section \<open>The interface of a pinned relay\<close>

text \<open>What makes an association safe: the client's address, once learned, never changes, it is
  learned from a client datagram, only a client datagram from that address is relayed to a
  target, and only that address is sent replies.\<close>

locale pinned_relay =
  fixes step :: "int \<Rightarrow> event \<Rightarrow> 's \<Rightarrow> 's \<times> relay_out list"
    and peer :: "'s \<Rightarrow> udp_addr option"
  assumes peer_kept: "peer s = Some p \<Longrightarrow> peer (fst (step t e s)) = Some p"
    and peer_learned: "peer s = None \<Longrightarrow> peer (fst (step t e s)) = Some p \<Longrightarrow>
      \<exists>d. e = ClientDatagram p d"
    and to_remote: "ToRemote f d a \<in> set (snd (step t e s)) \<Longrightarrow>
      \<exists>src dg p. e = ClientDatagram src dg \<and> peer (fst (step t e s)) = Some p \<and> same_addr p src"
    and to_client: "ToClient d q \<in> set (snd (step t e s)) \<Longrightarrow>
      peer s = Some q \<and> (\<exists>f src pl. e = RemoteDatagram f src pl)"
begin

abbreviation run :: "(int \<times> event) list \<Rightarrow> 's \<Rightarrow> 's \<times> (event \<times> relay_out list) list" where
  "run \<equiv> relay_run step"

lemma run_peer_kept: "peer s = Some p \<Longrightarrow> peer (fst (run es s)) = Some p"
proof (induction es arbitrary: s)
  case (Cons te es)
  then show ?case using peer_kept by (cases te) (simp add: Let_def)
qed simp

text \<open>Every output of a run agrees with the peer the run ends with.\<close>

lemma run_outputs:
  assumes "(e, out) \<in> set (snd (run es s))" "x \<in> set out"
  shows "\<exists>p. peer (fst (run es s)) = Some p \<and>
           (case x of ToRemote f d a \<Rightarrow> \<exists>src dg. e = ClientDatagram src dg \<and> same_addr p src
            | ToClient d q \<Rightarrow> q = p \<and> (\<exists>f src pl. e = RemoteDatagram f src pl))"
  using assms(1)
proof (induction es arbitrary: s)
  case (Cons te es)
  obtain t e' where te: "te = (t, e')" by fastforce
  obtain s1 out1 where s1: "step t e' s = (s1, out1)" by fastforce
  show ?case
  proof (cases "e = e' \<and> out = out1")
    case False
    with Cons te s1 show ?thesis by (auto simp: Let_def)
  next
    case True
    then have x: "x \<in> set (snd (step t e s))" using assms(2) s1 by simp
    show ?thesis
    proof (cases x)
      case (ToRemote f d a)
      with to_remote x s1 True obtain src dg p where
        p: "e = ClientDatagram src dg" "peer s1 = Some p" "same_addr p src" by fastforce
      from run_peer_kept [OF p(2)] te s1 p ToRemote show ?thesis
        by (auto simp: Let_def)
    next
      case (ToClient d q)
      with to_client x have q: "peer s = Some q" "\<exists>f src pl. e = RemoteDatagram f src pl" by blast+
      have "peer s1 = Some q" using peer_kept [OF q(1), of t e'] s1 by simp
      from run_peer_kept [OF this] te s1 q ToClient show ?thesis
        by (auto simp: Let_def)
    qed
  qed
qed simp

lemma run_peer_source:
  assumes "peer s = None" "peer (fst (run es s)) = Some p"
  shows "\<exists>t d. (t, ClientDatagram p d) \<in> set es"
  using assms
proof (induction es arbitrary: s)
  case (Cons te es)
  obtain t e where te: "te = (t, e)" by fastforce
  obtain s1 out where s1: "step t e s = (s1, out)" by fastforce
  show ?case
  proof (cases "peer s1")
    case None
    moreover have "peer (fst (run es s1)) = Some p" using Cons.prems(2) te s1 by (simp add: Let_def)
    ultimately obtain u d where "(u, ClientDatagram p d) \<in> set es" using Cons.IH [of s1] by blast
    then show ?thesis by auto
  next
    case (Some q)
    from run_peer_kept [OF this] Cons.prems(2) te s1 have "q = p"
      by (simp add: Let_def)
    with peer_learned [OF Cons.prems(1), of t e p] s1 Some te show ?thesis by auto
  qed
qed simp

lemma run_serves_one:
  assumes "peer s = None"
  shows "(\<exists>p t d. (t, ClientDatagram p d) \<in> set es \<and> serves_one p (snd (run es s))) \<or> silent (snd (run es s))"
proof (cases "peer (fst (run es s))")
  case None
  have "out = []" if "(e, out) \<in> set (snd (run es s))" for e out
  proof (rule ccontr)
    assume "out \<noteq> []"
    then obtain x where "x \<in> set out" by (meson list.set_sel(1))
    from run_outputs [OF that this] None show False by simp
  qed
  then show ?thesis by (auto simp: silent_def list_all_iff)
next
  case (Some p)
  have "agrees p e x" if "(e, out) \<in> set (snd (run es s))" "x \<in> set out" for e out x
    using run_outputs [OF that] Some by (auto simp: agrees_def split: relay_out.splits)
  then have "serves_one p (snd (run es s))" by (auto simp: serves_one_def list_all_iff)
  with run_peer_source [OF assms Some] show ?thesis by blast
qed

end

lemma same_addr_refl [simp]: "same_addr p p"
  by (simp add: same_addr_def)

lemma setPeer_cases:
  "setPeer src None = (True, Some src)" "setPeer src (Some p) = (same_addr p src, Some p)"
  by (simp_all add: setPeer_def)

text \<open>Whether a source is accepted as the client's.\<close>

definition accepts :: "udp_addr option \<Rightarrow> udp_addr \<Rightarrow> bool" where
  "accepts peer src \<longleftrightarrow> peer = None \<or> (\<exists>p. peer = Some p \<and> same_addr p src)"

lemma setPeer_eq: "setPeer src peer = (accepts peer src, if peer = None then Some src else peer)"
  by (cases peer) (simp_all add: accepts_def setPeer_def)

section \<open>The handlers of the HTTP/3 backend\<close>

lemma clientToRemote_eq:
  "clientToRemote net src dg s =
     (s\<lparr>a_peer := if a_peer s = None then Some src else a_peer s\<rparr>,
      if accepts (a_peer s) src then
        (case parseUDPRequest (take udpMaxDatagram dg) of
           Ok (dst, payload) \<Rightarrow>
             (case resolveUDPTarget net dst of Inr target \<Rightarrow> [ToRemote 0 payload target] | Inl _ \<Rightarrow> [])
         | _ \<Rightarrow> [])
      else [])"
  using parseUDPRequest_no_panic [of "take udpMaxDatagram dg"]
  by (auto simp: clientToRemote_def setPeer_eq split: gores.splits sum.splits)

lemma clientToRemote_no_reply: "ToClient d q \<notin> set (snd (clientToRemote net src dg s))"
proof -
  have "snd (clientToRemote net src dg s) = [] \<or> (\<exists>d a. snd (clientToRemote net src dg s) = [ToRemote 0 d a])"
    by (cases "parseUDPRequest (take udpMaxDatagram dg)") (auto simp: clientToRemote_eq split: sum.splits)
  then show ?thesis by auto
qed

lemma remoteToClient_state:
  "a_peer (fst (remoteToClient w src pl s)) = a_peer s"
  "x \<in> set (snd (remoteToClient w src pl s)) \<Longrightarrow>
     \<exists>frame peer. a_peer s = Some peer \<and> appendUDPReply [] src (take udpMaxDatagram pl) = Inr frame \<and> x = ToClient frame peer"
  by (auto simp: remoteToClient_def split: option.splits sum.splits if_splits)

lemma h3_udp_step_cases:
  obtains (idle) "a_peer (fst (h3_udp_step net w t e s)) = a_peer s" "snd (h3_udp_step net w t e s) = []"
  | (client) src dg s1 where "e = ClientDatagram src dg" "h3_udp_step net w t e s = clientToRemote net src dg s1"
      "a_peer s1 = a_peer s"
  | (remote) src pl s1 where "e = RemoteDatagram 0 src pl" "h3_udp_step net w t e s = remoteToClient w src pl s1"
      "a_peer s1 = a_peer s"
proof (cases "a_alive s \<and> t < a_client s \<and> t < a_remote s")
  case False
  with idle show thesis by (auto simp: h3_udp_step_def)
next
  case True
  let ?s = "s\<lparr>a_alive := True\<rparr>"
  show thesis
  proof (cases e)
    case (ClientDatagram src dg)
    with True client [of src dg "?s\<lparr>a_client := t + udpIdleTimeout\<rparr>"] show thesis by (simp add: h3_udp_step_def)
  next
    case (RemoteDatagram f src pl)
    with True idle remote [of src pl "?s\<lparr>a_remote := t + udpIdleTimeout\<rparr>"] show thesis
      by (cases "f = 0") (simp_all add: h3_udp_step_def)
  qed (use True idle in \<open>simp_all add: h3_udp_step_def\<close>)
qed

interpretation h3_relay: pinned_relay "h3_udp_step net w" a_peer for net w
proof (unfold_locales, goal_cases)
  case (1 s p t e)
  then show ?case
    by (cases rule: h3_udp_step_cases [of net w t e s]) (auto simp: clientToRemote_eq remoteToClient_state)
next
  case (2 s t e p)
  then show ?case
    by (cases rule: h3_udp_step_cases [of net w t e s]) (auto simp: clientToRemote_eq remoteToClient_state)
next
  case (3 f d a t e s)
  show ?case
  proof (cases rule: h3_udp_step_cases [of net w t e s])
    case (client src dg s1)
    with 3 have "accepts (a_peer s) src" by (cases "accepts (a_peer s) src") (simp_all add: clientToRemote_eq)
    then obtain p where "(if a_peer s = None then Some src else a_peer s) = Some p" "same_addr p src"
      by (cases "a_peer s") (auto simp: accepts_def)
    with client show ?thesis by (cases "a_peer s") (simp_all add: clientToRemote_eq)
  qed (use 3 in \<open>auto dest: remoteToClient_state(2)\<close>)
next
  case (4 d q t e s)
  then show ?case
    by (cases rule: h3_udp_step_cases [of net w t e s])
      (auto simp: clientToRemote_no_reply dest!: remoteToClient_state(2))
qed

section \<open>The handlers of the HTTP/2 backend\<close>

lemma on_family_fields [simp]:
  "ha_peer (on_family f g s) = ha_peer s" "ha_alive (on_family f g s) = ha_alive s"
  "ha_client (on_family f g s) = ha_client s"
  "(\<And>r. hr_family (g r) = hr_family r) \<Longrightarrow> families_of (on_family f g s) = families_of s"
  by (simp_all add: on_family_def families_of_def)

lemma families_of_frame [simp]:
  "families_of (s\<lparr>ha_peer := p\<rparr>) = families_of s" "families_of (s\<lparr>ha_alive := b\<rparr>) = families_of s"
  "families_of (s\<lparr>ha_client := d\<rparr>) = families_of s"
  by (simp_all add: families_of_def)

lemma h2_rearm_fields [simp]:
  "ha_peer (h2_rearm f t s) = ha_peer s" "ha_alive (h2_rearm f t s) = ha_alive s"
  "families_of (h2_rearm f t s) = families_of s"
  by (simp_all add: h2_rearm_def)

lemma h2_expire_fields [simp]: "ha_peer (h2_expire t s) = ha_peer s" "families_of (h2_expire t s) = families_of s"
  by (simp_all add: h2_expire_def)

lemma remoteFor_Some:
  "remoteFor families ip = Some f \<longleftrightarrow> f = ipFamily ip \<and> f \<in> set families"
  by (induction families) (auto simp: remoteFor_def ipFamily_def Let_def)

text \<open>A target that the HTTP/2 resolver accepts always has a socket, the one of its address family,
  and a port from 1 to 65535.\<close>

lemma resolveH2UDPTarget_Inr:
  assumes "resolveH2UDPTarget lookup families dst = Inr target"
  shows "remoteFor families (u_ip target) = Some (ipFamily (u_ip target)) \<and> u_port target \<in> {1..65535}"
proof -
  have "remoteFor families (u_ip target) \<noteq> None \<and> u_port target \<in> {1..65535}"
    using assms
    by (auto simp: resolveH2UDPTarget_def find_Some_iff split: sum.splits option.splits if_splits prod.splits)
  then show ?thesis using remoteFor_Some [of families "u_ip target"] by auto
qed

text \<open>The targets a datagram of the client is sent to.\<close>

lemma h2UDPClientToRemote_out:
  "snd (h2UDPClientToRemote lookup t src dg s) =
     (if accepts (ha_peer s) src then
        (case parseUDPRequest (take udpMaxDatagram dg) of
           Ok (dst, payload) \<Rightarrow>
             (case resolveH2UDPTarget lookup (families_of s) dst of
                Inr target \<Rightarrow> [ToRemote (ipFamily (u_ip target)) payload target] | Inl _ \<Rightarrow> [])
         | _ \<Rightarrow> [])
      else [])"
  by (auto simp: h2UDPClientToRemote_def setPeer_eq resolveH2UDPTarget_Inr split: gores.splits sum.splits)

lemma h2UDPClientToRemote_no_reply: "ToClient d q \<notin> set (snd (h2UDPClientToRemote lookup t src dg s))"
proof -
  have "snd (h2UDPClientToRemote lookup t src dg s) = [] \<or>
      (\<exists>f d a. snd (h2UDPClientToRemote lookup t src dg s) = [ToRemote f d a])"
    by (cases "parseUDPRequest (take udpMaxDatagram dg)") (auto simp: h2UDPClientToRemote_out split: sum.splits)
  then show ?thesis by auto
qed

text \<open>The read deadlines of the target sockets.\<close>

definition deadlines :: "h2_assoc \<Rightarrow> (nat \<times> int) list" where
  "deadlines s = map (\<lambda>r. (hr_family r, hr_read r)) (ha_remotes s)"

lemma deadlines_frame [simp]:
  "deadlines (s\<lparr>ha_peer := p\<rparr>) = deadlines s" "deadlines (s\<lparr>ha_alive := b\<rparr>) = deadlines s"
  "deadlines (s\<lparr>ha_client := d\<rparr>) = deadlines s" "deadlines (h2_expire t s) = deadlines s"
  by (simp_all add: deadlines_def h2_expire_def)

lemma deadlines_rearm: "(f, d) \<in> set (deadlines s) \<Longrightarrow> f \<noteq> g \<Longrightarrow> (f, d) \<in> set (deadlines (h2_rearm g t s))"
  by (auto simp: deadlines_def h2_rearm_def on_family_def)

lemma h2UDPClientToRemote_state:
  "ha_peer (fst (h2UDPClientToRemote lookup t src dg s)) = (if ha_peer s = None then Some src else ha_peer s)"
  "ha_alive (fst (h2UDPClientToRemote lookup t src dg s)) = ha_alive s"
  "deadlines (fst (h2UDPClientToRemote lookup t src dg s)) = deadlines s"
  using parseUDPRequest_no_panic [of "take udpMaxDatagram dg"]
  by (auto simp: h2UDPClientToRemote_def setPeer_eq on_family_def deadlines_def resolveH2UDPTarget_Inr
      split: gores.splits sum.splits option.splits)

lemma h2UDPRemoteToClient_state:
  "ha_peer (fst (h2UDPRemoteToClient w src pl s)) = ha_peer s"
  "ha_remotes (fst (h2UDPRemoteToClient w src pl s)) = ha_remotes s"
  "x \<in> set (snd (h2UDPRemoteToClient w src pl s)) \<Longrightarrow>
     \<exists>a frame peer. src = Some a \<and> ha_peer s = Some peer \<and>
       appendUDPReply [] a (take udpMaxDatagram pl) = Inr frame \<and> x = ToClient frame peer"
  by (auto simp: h2UDPRemoteToClient_def split: option.splits sum.splits if_splits)

lemma h2_udp_step_cases:
  obtains (idle) "fst (h2_udp_step lookup w t e s) = s\<lparr>ha_alive := False\<rparr> \<or> fst (h2_udp_step lookup w t e s) = s"
      "snd (h2_udp_step lookup w t e s) = []"
  | (client) src dg s1 where "e = ClientDatagram src dg" "h2_udp_step lookup w t e s = h2UDPClientToRemote lookup t src dg s1"
      "s1 = (h2_expire t s)\<lparr>ha_client := t + udpIdleTimeout\<rparr>"
  | (remote) f src pl s1 where "e = (case src of Some a \<Rightarrow> RemoteDatagram f a pl | None \<Rightarrow> RemoteOther f pl)"
      "h2_udp_step lookup w t e s = h2UDPRemoteToClient w src pl s1" "s1 = h2_rearm f t (h2_expire t s)"
proof (cases "ha_alive (h2_expire t s)")
  case False
  then have "h2_udp_step lookup w t e s = (s\<lparr>ha_alive := False\<rparr>, [])" by (simp add: h2_udp_step_def h2_expire_def Let_def)
  with idle show thesis by simp
next
  case True
  then have "h2_expire t s = s" by (simp add: h2_expire_def)
  show thesis
  proof (cases e)
    case (ClientDatagram src dg)
    with True \<open>h2_expire t s = s\<close> client [of src dg] show thesis by (simp add: h2_udp_step_def)
  next
    case (RemoteDatagram f src pl)
    with True \<open>h2_expire t s = s\<close> idle remote [of f pl "Some src"] show thesis
      by (cases "f \<in> set (families_of s)") (simp_all add: h2_udp_step_def)
  next
    case (RemoteOther f pl)
    with True \<open>h2_expire t s = s\<close> idle remote [of f pl None] show thesis
      by (cases "f \<in> set (families_of s)") (simp_all add: h2_udp_step_def)
  qed (use True \<open>h2_expire t s = s\<close> idle in \<open>simp_all add: h2_udp_step_def\<close>)
qed

interpretation h2_relay: pinned_relay "h2_udp_step lookup w" ha_peer for lookup w
proof (unfold_locales, goal_cases)
  case (1 s p t e)
  then show ?case
    by (cases rule: h2_udp_step_cases [of lookup w t e s])
      (auto simp: h2UDPClientToRemote_state h2UDPRemoteToClient_state)
next
  case (2 s t e p)
  then show ?case
    by (cases rule: h2_udp_step_cases [of lookup w t e s])
      (auto simp: h2UDPClientToRemote_state h2UDPRemoteToClient_state)
next
  case (3 f d a t e s)
  show ?case
  proof (cases rule: h2_udp_step_cases [of lookup w t e s])
    case (client src dg s1)
    with 3 have "accepts (ha_peer s) src" by (cases "accepts (ha_peer s) src") (simp_all add: h2UDPClientToRemote_out)
    then obtain p where "(if ha_peer s = None then Some src else ha_peer s) = Some p" "same_addr p src"
      by (cases "ha_peer s") (auto simp: accepts_def)
    with client show ?thesis by (cases "ha_peer s") (simp_all add: h2UDPClientToRemote_state)
  qed (use 3 in \<open>auto dest: h2UDPRemoteToClient_state(3)\<close>)
next
  case (4 d q t e s)
  then show ?case
    by (cases rule: h2_udp_step_cases [of lookup w t e s])
      (auto simp: h2UDPClientToRemote_no_reply dest!: h2UDPRemoteToClient_state(3) split: option.splits)
qed

section \<open>Properties of the relays\<close>

lemma start_peer [simp]: "a_peer (start_assoc t0) = None" "ha_peer (start_h2_assoc t0 families) = None"
  by (simp_all add: start_assoc_def start_h2_assoc_def)

text \<open>An association of the HTTP/3 backend serves one client: unless it relays nothing at all,
  there is one address, the source of a client datagram, such that only datagrams from there
  are sent to targets and only this address is sent replies, for the whole life of the
  association.\<close>

theorem h3_udp_pinned:
  "(\<exists>p t d. (t, ClientDatagram p d) \<in> set es \<and>
      serves_one p (snd (relay_run (h3_udp_step net w) es (start_assoc t0)))) \<or>
   silent (snd (relay_run (h3_udp_step net w) es (start_assoc t0)))"
  by (rule h3_relay.run_serves_one) simp

text \<open>C4: an association of the HTTP/2 backend, whose target sockets are those of the tunnel's address
  families, serves one client: unless it relays nothing at all, there is one address, the source
  of a client datagram, such that only datagrams from there are sent to targets and only this
  address is sent replies, for the whole life of the association.\<close>

theorem h2_udp_pinned:
  "(\<exists>p t d. (t, ClientDatagram p d) \<in> set es \<and>
      serves_one p (snd (relay_run (h2_udp_step lookup w) es (start_h2_assoc t0 families)))) \<or>
   silent (snd (relay_run (h2_udp_step lookup w) es (start_h2_assoc t0 families)))"
  by (rule h2_relay.run_serves_one) simp

text \<open>The exact conditions under which an association outlives an event.\<close>

definition ready :: "int \<Rightarrow> assoc \<Rightarrow> bool" where
  "ready t s \<longleftrightarrow> a_alive s \<and> t < a_client s \<and> t < a_remote s"

definition h2_ready :: "int \<Rightarrow> h2_assoc \<Rightarrow> bool" where
  "h2_ready t s \<longleftrightarrow> ha_alive s \<and> t < ha_client s \<and> (\<forall>(f, d) \<in> set (deadlines s). t < d)"

lemma h2_expire_ready: "ha_alive (h2_expire t s) \<longleftrightarrow> h2_ready t s"
  by (auto simp: h2_expire_def h2_ready_def deadlines_def list_all_iff)

text \<open>A datagram for the client that it cannot be given.\<close>

definition undeliverable :: "(bytes \<Rightarrow> bool) \<Rightarrow> event \<Rightarrow> udp_addr option \<Rightarrow> nat set \<Rightarrow> bool" where
  "undeliverable w e peer socks \<longleftrightarrow>
     (case e of
        RemoteDatagram f src payload \<Rightarrow>
          f \<in> socks \<and> peer \<noteq> None \<and> valid_ip (u_ip src) \<and>
          \<not> w ([0x00, 0x00, 0x00] @ enc_addr (addr_of_ip (u_ip src)) @
               be16 (word_of_int (u_port src)) @ take udpMaxDatagram payload)
      | _ \<Rightarrow> False)"

lemma clientToRemote_alive: "a_alive (fst (clientToRemote net src dg s)) = a_alive s"
  by (simp add: clientToRemote_eq)

text \<open>An association ends exactly when the read deadline of one of its sockets has come, the
  control connection is closed, or a reply cannot be written to the client; a malformed
  datagram, a target that does not resolve and a target that cannot be reached do not end
  it.\<close>

theorem udp_step_alive_iff:
  "(a_alive (fst (h3_udp_step net w t e s)) \<longleftrightarrow>
      ready t s \<and> e \<noteq> ControlClosed \<and> \<not> undeliverable w e (a_peer s) {0}) \<and>
   (ha_alive (fst (h2_udp_step lookup w t e s2)) \<longleftrightarrow>
      h2_ready t s2 \<and> e \<noteq> ControlClosed \<and> \<not> undeliverable w e (ha_peer s2) (set (families_of s2)))"
proof
  show "a_alive (fst (h3_udp_step net w t e s)) \<longleftrightarrow>
      ready t s \<and> e \<noteq> ControlClosed \<and> \<not> undeliverable w e (a_peer s) {0}"
    by (cases e) (auto simp: h3_udp_step_def ready_def clientToRemote_alive remoteToClient_def undeliverable_def
        appendUDPReply_eq Let_def split: option.splits)
  show "ha_alive (fst (h2_udp_step lookup w t e s2)) \<longleftrightarrow>
      h2_ready t s2 \<and> e \<noteq> ControlClosed \<and> \<not> undeliverable w e (ha_peer s2) (set (families_of s2))"
    by (cases e) (auto simp: h2_udp_step_def h2_expire_ready h2UDPClientToRemote_state h2UDPRemoteToClient_def
        undeliverable_def appendUDPReply_eq Let_def split: option.splits)
qed

lemma other_sockets_keep_deadline:
  assumes "\<forall>(t, e) \<in> set es. sock_of e \<noteq> Some (RemoteSock f)" "(f, d) \<in> set (deadlines s)"
  shows "(f, d) \<in> set (deadlines (fst (relay_run (h2_udp_step lookup w) es s)))"
  using assms
proof (induction es arbitrary: s)
  case (Cons te es)
  obtain t e where te: "te = (t, e)" by fastforce
  have "(f, d) \<in> set (deadlines (fst (h2_udp_step lookup w t e s)))"
  proof (cases rule: h2_udp_step_cases [of lookup w t e s])
    case idle
    with Cons.prems(2) show ?thesis by auto
  next
    case (client src dg s1)
    with Cons.prems(2) show ?thesis by (simp add: h2UDPClientToRemote_state)
  next
    case (remote g src pl s1)
    then have "sock_of e = Some (RemoteSock g)" by (cases src) auto
    with Cons.prems(1) te have "f \<noteq> g" by auto
    moreover have "deadlines (fst (h2UDPRemoteToClient w src pl s1)) = deadlines s1"
      by (simp add: deadlines_def h2UDPRemoteToClient_state)
    ultimately show ?thesis using remote Cons.prems(2) by (simp add: deadlines_rearm)
  qed
  with Cons te show ?case by (simp add: Let_def)
qed simp

text \<open>C36: an association of the HTTP/2 backend is alive only while every one of its sockets keeps
  receiving: once 60 seconds have passed since its start and one of its address families has
  received nothing, it is gone, whatever traffic the other sockets carried meanwhile. On a
  dual-stack tunnel an association that uses one family only lasts one minute.\<close>

theorem h2_udp_needs_every_socket:
  assumes "f \<in> set families" "\<forall>(t, e) \<in> set es. sock_of e \<noteq> Some (RemoteSock f)" "t0 + udpIdleTimeout \<le> t"
  shows "\<not> h2_ready t (fst (relay_run (h2_udp_step lookup w) es (start_h2_assoc t0 families))) \<and>
    snd (h2_udp_step lookup w t e (fst (relay_run (h2_udp_step lookup w) es (start_h2_assoc t0 families)))) = []"
proof -
  have "(f, t0 + udpIdleTimeout) \<in> set (deadlines (start_h2_assoc t0 families))"
    using assms(1) by (auto simp: deadlines_def start_h2_assoc_def)
  from other_sockets_keep_deadline [OF assms(2) this] assms(3)
  have "\<not> h2_ready t (fst (relay_run (h2_udp_step lookup w) es (start_h2_assoc t0 families)))"
    by (fastforce simp: h2_ready_def)
  then show ?thesis by (simp add: h2_udp_step_def h2_expire_ready)
qed

theorem h2_udp_needs_every_socket_witness:
  "\<not> h2_ready (61 * 10 ^ 9) (fst (relay_run (h2_udp_step (\<lambda>_. None) (\<lambda>_. True))
     [(1 * 10 ^ 9, ClientDatagram \<lparr>u_ip = [127, 0, 0, 1], u_port = 5000, u_zone = []\<rparr>
         [0, 0, 0, 1, 10, 0, 0, 1, 0, 53, 7]),
      (30 * 10 ^ 9, RemoteDatagram 4 \<lparr>u_ip = [10, 0, 0, 1], u_port = 53, u_zone = []\<rparr> [8])]
     (start_h2_assoc 0 [4, 6])))"
  by (rule h2_udp_needs_every_socket [where f = 6, THEN conjunct1]) (simp_all add: udpIdleTimeout_def)

text \<open>A reply as large as the read buffer admits ends the association, in either backend: with the
  header in front it exceeds the largest datagram that can be written to the client, and a failed
  write to the client, unlike one to a target, is not skipped.\<close>

theorem udp_large_reply_ends_association:
  assumes "a_peer s = Some p" "ha_peer s2 = Some p" "valid_ip (u_ip src)" "f \<in> set (families_of s2)"
    and "udpMaxDatagram - 10 < length payload" "\<forall>frame. w frame \<longrightarrow> length frame \<le> udpMaxDatagram"
  shows "\<not> a_alive (fst (h3_udp_step net w t (RemoteDatagram 0 src payload) s)) \<and>
    \<not> ha_alive (fst (h2_udp_step lookup w t (RemoteDatagram f src payload) s2))"
proof -
  let ?frame = "[0x00, 0x00, 0x00] @ enc_addr (addr_of_ip (u_ip src)) @
     be16 (word_of_int (u_port src)) @ take udpMaxDatagram payload"
  have "5 \<le> length (enc_addr (addr_of_ip (u_ip src)))"
    using wf_addr_of_ip [OF assms(3)] not_empty_addr_of_ip [of "u_ip src"]
    by (cases "addr_of_ip (u_ip src)") (auto simp: addr_of_ip_def split: option.splits)
  then have "udpMaxDatagram < length ?frame"
    using assms(5) by (simp add: udpMaxDatagram_def)
  then have "\<not> w ?frame" using assms(6) by (metis not_le)
  then show ?thesis
    using assms(1-4) by (simp add: udp_step_alive_iff undeliverable_def)
qed

theorem udp_large_reply_ends_association_witness:
  "\<not> a_alive (fst (h3_udp_step \<lparr>hn_services = (\<lambda>_. None), hn_lookup = (\<lambda>_. None)\<rparr> (\<lambda>frame. length frame \<le> udpMaxDatagram) 1
     (RemoteDatagram 0 \<lparr>u_ip = [10, 0, 0, 1], u_port = 53, u_zone = []\<rparr> (replicate 65500 0))
     ((start_assoc 0)\<lparr>a_peer := Some \<lparr>u_ip = [127, 0, 0, 1], u_port = 5000, u_zone = []\<rparr>\<rparr>)))"
  by (rule udp_large_reply_ends_association [where f = 4 and
      ?s2.0 = "(start_h2_assoc 0 [4])\<lparr>ha_peer := Some \<lparr>u_ip = [127, 0, 0, 1], u_port = 5000, u_zone = []\<rparr>\<rparr>",
      THEN conjunct1])
    (auto simp: valid_ip_def start_assoc_def start_h2_assoc_def families_of_def udpMaxDatagram_def)

section \<open>Targets and payloads\<close>

lemma atoi_port [simp]: "atoi (itoa (unat (port :: 16 word))) = Some (uint port)"
proof -
  have "unat port < 2 ^ 63" using unsigned_less [of port, where ?'a = nat] by simp
  from atoi_itoa [OF this] show ?thesis by simp
qed

lemma port_range: "uint (port :: 16 word) \<le> 65535"
  using uint_lt2p [of port] by simp

lemma split_target:
  "host_ok (host_of a) \<Longrightarrow> splitHostPort (target_of a port) = Inr (host_of a, itoa (unat port))"
  by (simp add: target_of_def net.split_of_join)

lemma resolveUDPTarget_eq:
  assumes "host_ok (host_of a)"
  shows "resolveUDPTarget net (target_of a port) =
    (case parseIP (host_of a) of
       Some ip \<Rightarrow> Inr \<lparr>u_ip = ip, u_port = uint port, u_zone = []\<rparr>
     | None \<Rightarrow>
         (case hn_lookup net (host_of a) of
            None \<Rightarrow> Inl LookupFailed
          | Some [] \<Rightarrow> Inl NoLookupResult
          | Some ((ip, zone) # _) \<Rightarrow> Inr \<lparr>u_ip = ip, u_port = uint port, u_zone = zone\<rparr>))"
  using assms port_range [of port]
  by (simp add: resolveUDPTarget_def split_target lookup_port_def split: option.splits list.splits)

lemma resolveH2UDPTarget_eq:
  assumes "host_ok (host_of a)" "port \<noteq> 0"
  shows "resolveH2UDPTarget lookup families (target_of a port) =
    (case parseIP (host_of a) of
       Some ip \<Rightarrow>
         if remoteFor families ip = None then Inl NoSocket
         else Inr \<lparr>u_ip = ip, u_port = uint port, u_zone = []\<rparr>
     | None \<Rightarrow>
         (case lookup (host_of a) of
            None \<Rightarrow> Inl LookupFailed
          | Some addresses \<Rightarrow>
              (case find (\<lambda>ip. remoteFor families ip \<noteq> None) (List.map_filter parseIP addresses) of
                 Some ip \<Rightarrow> Inr \<lparr>u_ip = ip, u_port = uint port, u_zone = []\<rparr>
               | None \<Rightarrow> Inl NoMatch)))"
proof -
  have "uint port \<noteq> 0" using assms(2) by (simp add: uint_0_iff)
  then have "1 \<le> uint port" using uint_ge_0 [of port] by linarith
  then show ?thesis
    using assms(1) port_range [of port]
    by (simp add: resolveH2UDPTarget_def split_target del: One_nat_def)
qed

lemma clientToRemote_encoded:
  assumes "wf_addr a" "\<not> empty_domain a" "port \<noteq> 0"
    and "length ([r1, r2, 0] @ enc_addr a @ be16 port @ payload) \<le> udpMaxDatagram"
  shows "parseUDPRequest (take udpMaxDatagram ([r1, r2, 0] @ enc_addr a @ be16 port @ payload)) = Ok (target_of a port, payload)"
  using parseUDPRequest_encoded [OF assms(1-3)] assms(4) by simp

text \<open>What a running association does with a datagram of its client.\<close>

lemma running_client:
  "ready t s \<Longrightarrow> h3_udp_step net w t (ClientDatagram src dg) s =
     clientToRemote net src dg (s\<lparr>a_alive := True, a_client := t + udpIdleTimeout\<rparr>)"
  "h2_ready t s2 \<Longrightarrow> h2_udp_step lookup w t (ClientDatagram src dg) s2 =
     h2UDPClientToRemote lookup t src dg ((h2_expire t s2)\<lparr>ha_client := t + udpIdleTimeout\<rparr>)"
  by (simp_all add: h3_udp_step_def ready_def h2_udp_step_def h2_expire_ready)

text \<open>C37: the client's datagram for an address literal leaves with its payload unchanged to exactly
  that address and port, without a lookup: from the relay socket of the HTTP/3 backend, and
  from the socket of its family of the HTTP/2 backend, if the tunnel has that family.\<close>

theorem udp_literal_forwarded:
  assumes "ready t s" "h2_ready t s2" "accepts (a_peer s) src" "accepts (ha_peer s2) src"
    and "wf_addr a" "host_ok (host_of a)" "parseIP (host_of a) = Some ip" "port \<noteq> 0"
    and "length ([r1, r2, 0] @ enc_addr a @ be16 port @ payload) \<le> udpMaxDatagram"
  shows "snd (h3_udp_step net w t (ClientDatagram src ([r1, r2, 0] @ enc_addr a @ be16 port @ payload)) s) =
           [ToRemote 0 payload \<lparr>u_ip = ip, u_port = uint port, u_zone = []\<rparr>] \<and>
         snd (h2_udp_step lookup w t
                (ClientDatagram src ([r1, r2, 0] @ enc_addr a @ be16 port @ payload)) s2) =
           (if ipFamily ip \<in> set (families_of s2)
            then [ToRemote (ipFamily ip) payload \<lparr>u_ip = ip, u_port = uint port, u_zone = []\<rparr>] else [])"
proof -
  have ne: "\<not> empty_domain a"
  proof
    assume "empty_domain a"
    then have "host_of a = []" by (cases a) (simp_all add: str_of_bytes_def)
    moreover have "parseIP [] = None" by code_simp
    ultimately show False using assms(7) by simp
  qed
  define dg where "dg = [r1, r2, 0] @ enc_addr a @ be16 port @ payload"
  have parsed: "parseUDPRequest (take udpMaxDatagram dg) = Ok (target_of a port, payload)"
    unfolding dg_def by (rule clientToRemote_encoded [OF assms(5) ne assms(8,9)])
  have "remoteFor families ip = (if ipFamily ip \<in> set families then Some (ipFamily ip) else None)" for families
    using remoteFor_Some [of families ip] by (cases "remoteFor families ip") auto
  then show ?thesis
    unfolding running_client(1) [OF assms(1)] running_client(2) [OF assms(2)] dg_def [symmetric]
    using assms(3,4,6-8) by (simp add: clientToRemote_eq h2UDPClientToRemote_out parsed resolveUDPTarget_eq resolveH2UDPTarget_eq)
qed

theorem udp_literal_forwarded_witness:
  "snd (h3_udp_step \<lparr>hn_services = (\<lambda>_. None), hn_lookup = (\<lambda>_. None)\<rparr> (\<lambda>_. True) 1
      (ClientDatagram \<lparr>u_ip = [127, 0, 0, 1], u_port = 5000, u_zone = []\<rparr>
         ([0, 0, 0] @ enc_addr (V4 [10, 0, 0, 1]) @ be16 53 @ [7, 8])) (start_assoc 0)) =
    [ToRemote 0 [7, 8] \<lparr>u_ip = v4InV6Prefix @ [10, 0, 0, 1], u_port = uint (53 :: 16 word), u_zone = []\<rparr>] \<and>
   snd (h2_udp_step (\<lambda>_. None) (\<lambda>_. True) 1
      (ClientDatagram \<lparr>u_ip = [127, 0, 0, 1], u_port = 5000, u_zone = []\<rparr>
         ([0, 0, 0] @ enc_addr (V4 [10, 0, 0, 1]) @ be16 53 @ [7, 8])) (start_h2_assoc 0 [4, 6])) =
    [ToRemote 4 [7, 8] \<lparr>u_ip = v4InV6Prefix @ [10, 0, 0, 1], u_port = uint (53 :: 16 word), u_zone = []\<rparr>]"
proof -
  have "valid_ip ([10, 0, 0, 1] :: ip)" by (simp add: valid_ip_def)
  then have "parseIP (host_of (V4 [10, 0, 0, 1])) = Some (v4InV6Prefix @ [10, 0, 0, 1])" "host_ok (host_of (V4 [10, 0, 0, 1]))"
    by (simp_all add: parseIP_ip_string ip_string_host_ok to16_def)
  moreover have "ipFamily (v4InV6Prefix @ [10, 0, 0, 1]) = 4" by (simp add: ipFamily_def to4_def v4InV6Prefix_def)
  ultimately show ?thesis
    using udp_literal_forwarded [of 1 "start_assoc 0" "start_h2_assoc 0 [4, 6]"
        "\<lparr>u_ip = [127, 0, 0, 1], u_port = 5000, u_zone = []\<rparr>" "V4 [10, 0, 0, 1]" "v4InV6Prefix @ [10, 0, 0, 1]" 53 0 0 "[7, 8]"]
    by (simp add: ready_def h2_ready_def deadlines_def families_of_def start_assoc_def start_h2_assoc_def
        udpIdleTimeout_def udpMaxDatagram_def accepts_def)
qed

text \<open>C38: a reply sent to the client, by either backend, reads back as a SOCKS5 datagram that names
  the target it came from and carries its payload.\<close>

theorem udp_reply_reads_back:
  assumes "ToClient frame p \<in> set (snd (h3_udp_step net w t (RemoteDatagram f src payload) s)) \<or>
      ToClient frame p \<in> set (snd (h2_udp_step lookup w t (RemoteDatagram f src payload) s2))"
    and "0 < u_port src" "u_port src < 65536" "length payload \<le> udpMaxDatagram"
  shows "parseUDPRequest frame =
    Ok (joinHostPort (ip_string (u_ip src)) (itoa (nat (u_port src))), payload)"
proof -
  have "appendUDPReply [] src (take udpMaxDatagram payload) = Inr frame"
    using assms(1)
  proof
    assume "ToClient frame p \<in> set (snd (h3_udp_step net w t (RemoteDatagram f src payload) s))"
    then show ?thesis
      by (cases rule: h3_udp_step_cases [of net w t "RemoteDatagram f src payload" s])
        (auto dest: remoteToClient_state(2))
  next
    assume "ToClient frame p \<in> set (snd (h2_udp_step lookup w t (RemoteDatagram f src payload) s2))"
    then show ?thesis
      by (cases rule: h2_udp_step_cases [of lookup w t "RemoteDatagram f src payload" s2])
        (auto dest!: h2UDPRemoteToClient_state(3) split: option.splits)
  qed
  with assms(4) have f: "appendUDPReply [] src payload = Inr frame" by simp
  then have "valid_ip (u_ip src)" by (auto simp: appendUDPReply_eq split: if_splits)
  from reply_reads_as_request [OF this assms(2,3) f] show ?thesis .
qed

theorem udp_reply_reads_back_witness:
  "parseUDPRequest ([0, 0, 0, 1, 10, 0, 0, 1, 0, 53, 9]) =
    Ok (joinHostPort (ip_string [10, 0, 0, 1]) (itoa (nat 53)), [9])"
  using udp_reply_reads_back [of "[0, 0, 0, 1, 10, 0, 0, 1, 0, 53, 9]" "\<lparr>u_ip = [127, 0, 0, 1], u_port = 5000, u_zone = []\<rparr>"
      "\<lparr>hn_services = (\<lambda>_. None), hn_lookup = (\<lambda>_. None)\<rparr>" "\<lambda>_. True" 1 0
      "\<lparr>u_ip = [10, 0, 0, 1], u_port = 53, u_zone = []\<rparr>" "[9]"
      "(start_assoc 0)\<lparr>a_peer := Some \<lparr>u_ip = [127, 0, 0, 1], u_port = 5000, u_zone = []\<rparr>\<rparr>"]
  by (simp add: h3_udp_step_def start_assoc_def udpIdleTimeout_def udpMaxDatagram_def
      remoteToClient_def appendUDPReply_def be16_def)

section \<open>Setting up\<close>

fun opened :: "setup_act list \<Rightarrow> socket list" where
  "opened [] = []"
| "opened (Opened k # acts) = k # opened acts"
| "opened (_ # acts) = opened acts"

fun set_closed :: "setup_act list \<Rightarrow> socket list" where
  "set_closed [] = []"
| "set_closed (SetupClosed k # acts) = k # set_closed acts"
| "set_closed (_ # acts) = set_closed acts"

text \<open>An association that fails to come up, in either backend and whichever step fails, has closed
  every socket it opened; one that comes up has announced its relay address and holds exactly
  the sockets its relay loops use.\<close>

theorem udp_setup_closes:
  "(case handleUDPAssociate e3 of
      (False, acts) \<Rightarrow> set (opened acts) = set (set_closed acts)
    | (True, acts) \<Rightarrow> opened acts = [ClientSock, RemoteSock 0] \<and> set_closed acts = [] \<and>
        (\<exists>reply. last acts = SetupBound reply)) \<and>
   (case handleH2UDPAssociate e2 of
      (None, acts) \<Rightarrow> set (opened acts) = set (set_closed acts)
    | (Some families, acts) \<Rightarrow> families \<noteq> [] \<and> opened acts = ClientSock # map RemoteSock families \<and>
        set_closed acts = [] \<and> (\<exists>reply. last acts = SetupBound reply))"
proof
  show "case handleUDPAssociate e3 of
      (False, acts) \<Rightarrow> set (opened acts) = set (set_closed acts)
    | (True, acts) \<Rightarrow> opened acts = [ClientSock, RemoteSock 0] \<and> set_closed acts = [] \<and>
        (\<exists>reply. last acts = SetupBound reply)"
    by (auto simp: handleUDPAssociate_def Let_def split: option.splits sum.splits)
  show "case handleH2UDPAssociate e2 of
      (None, acts) \<Rightarrow> set (opened acts) = set (set_closed acts)
    | (Some families, acts) \<Rightarrow> families \<noteq> [] \<and> opened acts = ClientSock # map RemoteSock families \<and>
        set_closed acts = [] \<and> (\<exists>reply. last acts = SetupBound reply)"
    by (cases "h2_local4 e2"; cases "h2_local6 e2")
      (auto simp: handleH2UDPAssociate_def Let_def close_all_def split: option.splits sum.splits)
qed

end
