(* ===== verification/Edge_Dial.thy ===== *)
theory Edge_Dial
  imports Warp_Prelude
begin

text \<open>
  The dial loops: the edge addresses of the HTTP/3 client (\<open>MasqueClient.dial\<close>), those of the
  HTTP/2 client (\<open>H2Client.dial\<close>) and the two DoH servers (\<open>dialAnyDoH\<close>), and the single
  HTTP/3 attempt (\<open>dialAddr\<close>) with the resources it opens. The interface \<open>edge_dialer\<close> is the
  contract of a loop that starts at the address which last worked; both clients are instances.
\<close>

section \<open>The loops\<close>

text \<open>An error of one attempt, as far as \<open>errors.Is\<close> looks at it.\<close>

datatype errno = ENETUNREACH | EAFNOSUPPORT | EHOSTUNREACH | OtherError

definition unroutableFamily :: "errno \<Rightarrow> bool" where
  "unroutableFamily err \<longleftrightarrow> err = ENETUNREACH \<or> err = EAFNOSUPPORT \<or> err = EHOSTUNREACH"

text \<open>\<open>dialAddr i addr\<close> is what the \<open>i\<close>th attempt of the loop brings, \<open>ctx_done i\<close> whether the
  context is over after it. The result is the connection or the errors with their addresses,
  and the new value of \<open>addrIdx\<close>.\<close>

type_synonym 'b dialed = "((string \<times> errno) list + 'b) \<times> nat"

function h3_dial_from ::
    "(nat \<Rightarrow> string \<Rightarrow> errno + 'b) \<Rightarrow> (nat \<Rightarrow> bool) \<Rightarrow> string list \<Rightarrow> nat \<Rightarrow> nat \<Rightarrow>
     (string \<times> errno) list \<Rightarrow> 'b dialed" where
  "h3_dial_from dialAddr ctx_done edgeAddrs addrIdx i errs =
     (let n = length edgeAddrs in
      if i < n then
        let idx = (addrIdx + i) mod n; addr = edgeAddrs ! idx in
        case dialAddr i addr of
          Inr bundle \<Rightarrow> (Inr bundle, idx)
        | Inl err \<Rightarrow>
            let errs = errs @ [(addr, err)] in
            if ctx_done i then (Inl errs, addrIdx)
            else if unroutableFamily err then (Inl errs, addrIdx)
            else h3_dial_from dialAddr ctx_done edgeAddrs addrIdx (i + 1) errs
      else (Inl errs, addrIdx))"
  by pat_completeness auto
termination by (relation "measure (\<lambda>(d, c, a, k, i, e). length a - i)") auto

function h2_dial_from ::
    "(nat \<Rightarrow> string \<Rightarrow> errno + 'b) \<Rightarrow> (nat \<Rightarrow> bool) \<Rightarrow> (nat \<Rightarrow> bool) \<Rightarrow> string list \<Rightarrow> nat \<Rightarrow> nat \<Rightarrow>
     (string \<times> errno) list \<Rightarrow> 'b dialed" where
  "h2_dial_from dialAddr ctx_done client_done edgeAddrs addrIdx i errs =
     (if i < length edgeAddrs then
        let idx = (addrIdx + i) mod length edgeAddrs; addr = edgeAddrs ! idx in
        case dialAddr i addr of
          Inr bundle \<Rightarrow> (Inr bundle, idx)
        | Inl err \<Rightarrow>
            let errs = errs @ [(addr, err)] in
            if ctx_done i \<or> client_done i then (Inl errs, addrIdx)
            else h2_dial_from dialAddr ctx_done client_done edgeAddrs addrIdx (i + 1) errs
      else (Inl errs, addrIdx))"
  by pat_completeness auto
termination by (relation "measure (\<lambda>(d, c, x, a, k, i, e). length a - i)") auto

declare h3_dial_from.simps [simp del] h2_dial_from.simps [simp del]

definition h3_dial ::
    "(nat \<Rightarrow> bool) \<Rightarrow> (nat \<Rightarrow> string \<Rightarrow> errno + 'b) \<Rightarrow> string list \<Rightarrow> nat \<Rightarrow> 'b dialed" where
  "h3_dial ctx_done dialAddr edgeAddrs addrIdx =
     h3_dial_from dialAddr ctx_done edgeAddrs addrIdx 0 []"

definition h2_dial ::
    "(nat \<Rightarrow> bool) \<Rightarrow> (nat \<Rightarrow> bool) \<Rightarrow> (nat \<Rightarrow> string \<Rightarrow> errno + 'b) \<Rightarrow> string list \<Rightarrow> nat \<Rightarrow> 'b dialed" where
  "h2_dial ctx_done client_done dialAddr edgeAddrs addrIdx =
     h2_dial_from dialAddr ctx_done client_done edgeAddrs addrIdx 0 []"

text \<open>\<open>dialAnyDoH\<close> goes through its servers from the first, with no memory.\<close>

definition dnsServers :: "string list" where
  "dnsServers = [''162.159.36.1:443'', ''162.159.46.1:443'']"

fun dialAnyDoH_from ::
    "(string \<Rightarrow> errno + 'b) \<Rightarrow> (string \<Rightarrow> bool) \<Rightarrow> string list \<Rightarrow> (string \<times> errno) list \<Rightarrow>
     (string \<times> errno) list + 'b" where
  "dialAnyDoH_from dialDoH ctx_done [] errs = Inl errs"
| "dialAnyDoH_from dialDoH ctx_done (addr # servers) errs =
     (case dialDoH addr of
        Inr d \<Rightarrow> Inr d
      | Inl err \<Rightarrow>
          let errs = errs @ [(addr, err)] in
          if ctx_done addr then Inl errs
          else dialAnyDoH_from dialDoH ctx_done servers errs)"

definition dialAnyDoH :: "(string \<Rightarrow> errno + 'b) \<Rightarrow> (string \<Rightarrow> bool) \<Rightarrow> (string \<times> errno) list + 'b" where
  "dialAnyDoH dialDoH ctx_done = dialAnyDoH_from dialDoH ctx_done dnsServers []"

section \<open>One HTTP/3 attempt\<close>

datatype resource_act =
    OpenUDP | OpenTransport | OpenQuic | OpenH3 | CloseH3 | CloseQuic | CloseTransport | CloseUDP

text \<open>Which of the four events ends the wait for the server's SETTINGS.\<close>

datatype setup_event = SettingsReceived | QuicDone errno | ContextDone errno | SetupTimeout

record attempt =
  at_resolve :: "errno option"
  at_listen :: "errno option"
  at_dial :: "errno option"
  at_setup :: setup_event

text \<open>\<open>connBundle.close\<close> on the parts that exist, in dependency order.\<close>

record bundle_parts =
  has_h3 :: bool
  has_quic :: bool
  has_qtr :: bool
  has_udp :: bool

definition bundle_close :: "bundle_parts option \<Rightarrow> resource_act list" where
  "bundle_close b =
     (case b of
        None \<Rightarrow> []
      | Some p \<Rightarrow>
          (if has_h3 p then [CloseH3] else []) @ (if has_quic p then [CloseQuic] else []) @
          (if has_qtr p then [CloseTransport] else []) @ (if has_udp p then [CloseUDP] else []))"

definition h3_dialAddr :: "attempt \<Rightarrow> (errno + bundle_parts) \<times> resource_act list" where
  "h3_dialAddr e =
     (case at_resolve e of Some err \<Rightarrow> (Inl err, [])
      | None \<Rightarrow>
     (case at_listen e of Some err \<Rightarrow> (Inl err, [])
      | None \<Rightarrow>
     (case at_dial e of
        Some err \<Rightarrow> (Inl err, [OpenUDP, OpenTransport, CloseTransport, CloseUDP])
      | None \<Rightarrow>
          let acts = [OpenUDP, OpenTransport, OpenQuic, OpenH3];
              b = \<lparr>has_h3 = True, has_quic = True, has_qtr = True, has_udp = True\<rparr>
          in case at_setup e of
            SettingsReceived \<Rightarrow> (Inr b, acts)
          | QuicDone err \<Rightarrow> (Inl err, acts @ bundle_close (Some b))
          | ContextDone err \<Rightarrow> (Inl err, acts @ bundle_close (Some b))
          | SetupTimeout \<Rightarrow> (Inl OtherError, acts @ bundle_close (Some b)))))"

section \<open>One loop for both clients\<close>

text \<open>The two loops differ in when they give up: \<open>stop i err\<close> after the \<open>i\<close>th attempt.\<close>

function dial_loop ::
    "(nat \<Rightarrow> errno \<Rightarrow> bool) \<Rightarrow> (nat \<Rightarrow> string \<Rightarrow> errno + 'b) \<Rightarrow> string list \<Rightarrow> nat \<Rightarrow> nat \<Rightarrow>
     (string \<times> errno) list \<Rightarrow> 'b dialed" where
  "dial_loop stop d addrs k i errs =
     (if i < length addrs then
        let idx = (k + i) mod length addrs in
        case d i (addrs ! idx) of
          Inr b \<Rightarrow> (Inr b, idx)
        | Inl err \<Rightarrow>
            if stop i err then (Inl (errs @ [(addrs ! idx, err)]), k)
            else dial_loop stop d addrs k (i + 1) (errs @ [(addrs ! idx, err)])
      else (Inl errs, k))"
  by pat_completeness auto
termination by (relation "measure (\<lambda>(s, d, a, k, i, e). length a - i)") auto

declare dial_loop.simps [simp del]

lemma h3_dial_loop:
  "h3_dial_from d ctx addrs k i errs = dial_loop (\<lambda>i err. ctx i \<or> unroutableFamily err) d addrs k i errs"
proof (induction d ctx addrs k i errs rule: h3_dial_from.induct)
  case (1 d ctx addrs k i errs)
  show ?case
    by (subst h3_dial_from.simps, subst dial_loop.simps)
      (use 1 in \<open>simp add: Let_def split: sum.split\<close>)
qed

lemma h2_dial_loop:
  "h2_dial_from d ctx client addrs k i errs = dial_loop (\<lambda>i err. ctx i \<or> client i) d addrs k i errs"
proof (induction d ctx client addrs k i errs rule: h2_dial_from.induct)
  case (1 d ctx client addrs k i errs)
  show ?case
    by (subst h2_dial_from.simps, subst dial_loop.simps)
      (use 1 in \<open>simp add: Let_def split: sum.split\<close>)
qed

text \<open>The \<open>j\<close>th address of a round that starts at \<open>k\<close>.\<close>

definition nth_addr :: "string list \<Rightarrow> nat \<Rightarrow> nat \<Rightarrow> string" where
  "nth_addr addrs k j = addrs ! ((k + j) mod length addrs)"

text \<open>Success at attempt \<open>j\<close>: all attempts before it failed without a reason to stop.\<close>

definition first_success ::
    "(nat \<Rightarrow> errno \<Rightarrow> bool) \<Rightarrow> (nat \<Rightarrow> string \<Rightarrow> errno + 'b) \<Rightarrow> string list \<Rightarrow> nat \<Rightarrow> nat \<Rightarrow> nat \<Rightarrow> 'b \<Rightarrow> bool" where
  "first_success stop d addrs k i j b \<longleftrightarrow>
     i \<le> j \<and> j < length addrs \<and> d j (nth_addr addrs k j) = Inr b \<and>
     (\<forall>m. i \<le> m \<longrightarrow> m < j \<longrightarrow> (\<exists>err. d m (nth_addr addrs k m) = Inl err \<and> \<not> stop m err))"

lemma dial_loop_success:
  "dial_loop stop d addrs k i errs = (Inr b, k') \<longleftrightarrow>
     (\<exists>j. first_success stop d addrs k i j b \<and> k' = (k + j) mod length addrs)"
proof (induction stop d addrs k i errs rule: dial_loop.induct)
  case (1 stop d addrs k i errs)
  show ?case
  proof (cases "i < length addrs")
    case False
    then show ?thesis by (auto simp: dial_loop.simps [of stop d addrs k i] first_success_def)
  next
    case True
    let ?a = "nth_addr addrs k i"
    have a: "addrs ! ((k + i) mod length addrs) = ?a" by (simp add: nth_addr_def)
    show ?thesis
    proof (cases "d i ?a")
      case (Inr c)
      then have "first_success stop d addrs k i j b \<longleftrightarrow> j = i \<and> c = b" for j
        using True by (auto simp: first_success_def le_less)
      with Inr True a show ?thesis by (subst dial_loop.simps) (auto simp: Let_def)
    next
      case (Inl err)
      show ?thesis
      proof (cases "stop i err")
        case True
        with Inl have "\<not> first_success stop d addrs k i j b" for j
          by (auto simp: first_success_def le_less)
        with True Inl a \<open>i < length addrs\<close> show ?thesis by (subst dial_loop.simps) (auto simp: Let_def)
      next
        case False
        with Inl have "first_success stop d addrs k i j b \<longleftrightarrow> first_success stop d addrs k (i + 1) j b" for j
          unfolding first_success_def by (metis Inl_Inr_False Suc_eq_plus1 Suc_leD le_antisym not_less_eq_eq)
        with 1 [OF True refl] False Inl a True show ?thesis
          by (subst dial_loop.simps) (simp add: Let_def)
      qed
    qed
  qed
qed

text \<open>A failure leaves the starting address as it was and reports every attempt made, in order.\<close>

lemma dial_loop_failure:
  "dial_loop stop d addrs k i errs = (Inl errs', k') \<Longrightarrow> i \<le> length addrs \<Longrightarrow>
     k' = k \<and> (\<exists>m. i \<le> m \<and> m \<le> length addrs \<and>
       map fst errs' = map fst errs @ map (nth_addr addrs k) [i..<m] \<and>
       (\<forall>j. i \<le> j \<longrightarrow> j < m \<longrightarrow> (\<exists>err. d j (nth_addr addrs k j) = Inl err)) \<and>
       (m = length addrs \<or> (\<exists>err. m \<noteq> i \<and> d (m - 1) (nth_addr addrs k (m - 1)) = Inl err \<and> stop (m - 1) err)))"
proof (induction stop d addrs k i errs rule: dial_loop.induct)
  case (1 stop d addrs k i errs)
  show ?case
  proof (cases "i < length addrs")
    case False
    with 1 show ?thesis by (intro conjI exI [of _ i]) (auto simp: dial_loop.simps [of stop d addrs k i])
  next
    case True
    let ?a = "nth_addr addrs k i"
    have a: "addrs ! ((k + i) mod length addrs) = ?a" by (simp add: nth_addr_def)
    from 1(2) True a obtain err where err: "d i ?a = Inl err"
      by (subst (asm) dial_loop.simps) (auto simp: Let_def split: sum.splits)
    show ?thesis
    proof (cases "stop i err")
      case s: True
      with 1(2) True a err have "errs' = errs @ [(?a, err)]" "k' = k"
        by (auto simp: dial_loop.simps [of stop d addrs k i] Let_def)
      with True s err show ?thesis
        by (intro conjI exI [of _ "i + 1"]) (auto simp: less_Suc_eq le_less)
    next
      case False
      with 1(2) True a err have "dial_loop stop d addrs k (i + 1) (errs @ [(?a, err)]) = (Inl errs', k')"
        by (auto simp: dial_loop.simps [of stop d addrs k i] Let_def)
      from 1(1) [OF True refl, unfolded a, OF err False this] True obtain m where
        m: "k' = k" "i + 1 \<le> m" "m \<le> length addrs"
          "map fst errs' = map fst errs @ [?a] @ map (nth_addr addrs k) [i + 1..<m]"
          "\<forall>j. i + 1 \<le> j \<longrightarrow> j < m \<longrightarrow> (\<exists>err. d j (nth_addr addrs k j) = Inl err)"
          "m = length addrs \<or> (\<exists>err. m \<noteq> i + 1 \<and> d (m - 1) (nth_addr addrs k (m - 1)) = Inl err \<and> stop (m - 1) err)"
        by auto
      have "[i..<m] = i # [i + 1..<m]" using m(2) by (simp add: upt_conv_Cons)
      moreover have "\<forall>j. i \<le> j \<longrightarrow> j < m \<longrightarrow> (\<exists>err. d j (nth_addr addrs k j) = Inl err)"
        using m(5) err by (metis Suc_eq_plus1 Suc_leI le_less)
      ultimately show ?thesis using m by (intro conjI exI [of _ m]) auto
    qed
  qed
qed

section \<open>The interface of a dialer\<close>

text \<open>What the clients rely on: the first address that answers, in the cyclic order from the one
  that worked last, is returned and remembered; a failure forgets nothing and names the
  addresses it tried.\<close>

locale edge_dialer =
  fixes dial :: "(nat \<Rightarrow> string \<Rightarrow> errno + 'b) \<Rightarrow> string list \<Rightarrow> nat \<Rightarrow> 'b dialed"
    and stop :: "nat \<Rightarrow> errno \<Rightarrow> bool"
  assumes success: "dial d addrs k = (Inr b, k') \<longleftrightarrow>
      (\<exists>j. first_success stop d addrs k 0 j b \<and> k' = (k + j) mod length addrs)"
    and failure: "dial d addrs k = (Inl errs, k') \<Longrightarrow> k' = k \<and>
      (\<exists>m \<le> length addrs. map fst errs = map (nth_addr addrs k) [0..<m] \<and>
         (\<forall>j < m. \<exists>err. d j (nth_addr addrs k j) = Inl err) \<and>
         (m = length addrs \<or>
          (\<exists>err. m \<noteq> 0 \<and> d (m - 1) (nth_addr addrs k (m - 1)) = Inl err \<and> stop (m - 1) err)))"
begin

lemma sticky:
  assumes "k < length addrs" "d 0 (addrs ! k) = Inr b"
  shows "dial d addrs k = (Inr b, k)"
  unfolding success using assms by (intro exI [of _ 0]) (auto simp: first_success_def nth_addr_def)

lemma remembers:
  assumes "dial d addrs k = (Inr b, k')" "d' 0 (addrs ! k') = Inr b'"
  shows "dial d' addrs k' = (Inr b', k')"
proof -
  from assms(1) obtain j where "j < length addrs" "k' = (k + j) mod length addrs"
    unfolding success first_success_def by blast
  then have "k' < length addrs" by (metis length_greater_0_conv list.size(3) mod_less_divisor not_less0)
  with assms(2) sticky show ?thesis by blast
qed

text \<open>With no reason to stop, the dialer fails only if every address does.\<close>

lemma exhausts:
  assumes "\<And>i err. \<not> stop i err" "dial d addrs k = (Inl errs, k')"
  shows "\<forall>j < length addrs. \<exists>err. d j (nth_addr addrs k j) = Inl err"
  using failure [OF assms(2)] assms(1) by auto

lemma cyclic:
  assumes "k < length addrs" "j < length addrs"
  shows "\<exists>i < length addrs. nth_addr addrs k i = addrs ! j"
proof -
  let ?n = "length addrs"
  have "(k + (j + (?n - k)) mod ?n) mod ?n = (k + (j + (?n - k))) mod ?n" by (simp add: mod_add_right_eq)
  also have "k + (j + (?n - k)) = j + ?n" using assms(1) by simp
  finally have "(k + (j + (?n - k)) mod ?n) mod ?n = j" using assms(2) by simp
  moreover have "(j + (?n - k)) mod ?n < ?n" using assms by (intro mod_less_divisor) auto
  ultimately show ?thesis unfolding nth_addr_def by metis
qed

end

interpretation h3_dialer: edge_dialer "h3_dial ctx" "\<lambda>i err. ctx i \<or> unroutableFamily err" for ctx
proof unfold_locales
  fix d :: "nat \<Rightarrow> string \<Rightarrow> errno + 'b" and addrs k errs k' b
  show "h3_dial ctx d addrs k = (Inr b, k') \<longleftrightarrow>
      (\<exists>j. first_success (\<lambda>i err. ctx i \<or> unroutableFamily err) d addrs k 0 j b \<and> k' = (k + j) mod length addrs)"
    by (simp add: h3_dial_def h3_dial_loop dial_loop_success)
  assume "h3_dial ctx d addrs k = (Inl errs, k')"
  from dial_loop_failure [OF this [unfolded h3_dial_def h3_dial_loop]]
  show "k' = k \<and> (\<exists>m \<le> length addrs. map fst errs = map (nth_addr addrs k) [0..<m] \<and>
         (\<forall>j < m. \<exists>err. d j (nth_addr addrs k j) = Inl err) \<and>
         (m = length addrs \<or> (\<exists>err. m \<noteq> 0 \<and> d (m - 1) (nth_addr addrs k (m - 1)) = Inl err \<and>
            (ctx (m - 1) \<or> unroutableFamily err))))"
    by auto
qed

interpretation h2_dialer: edge_dialer "h2_dial ctx client" "\<lambda>i err. ctx i \<or> client i" for ctx client
proof unfold_locales
  fix d :: "nat \<Rightarrow> string \<Rightarrow> errno + 'b" and addrs k errs k' b
  show "h2_dial ctx client d addrs k = (Inr b, k') \<longleftrightarrow>
      (\<exists>j. first_success (\<lambda>i err. ctx i \<or> client i) d addrs k 0 j b \<and> k' = (k + j) mod length addrs)"
    by (simp add: h2_dial_def h2_dial_loop dial_loop_success)
  assume "h2_dial ctx client d addrs k = (Inl errs, k')"
  from dial_loop_failure [OF this [unfolded h2_dial_def h2_dial_loop]]
  show "k' = k \<and> (\<exists>m \<le> length addrs. map fst errs = map (nth_addr addrs k) [0..<m] \<and>
         (\<forall>j < m. \<exists>err. d j (nth_addr addrs k j) = Inl err) \<and>
         (m = length addrs \<or> (\<exists>err. m \<noteq> 0 \<and> d (m - 1) (nth_addr addrs k (m - 1)) = Inl err \<and>
            (ctx (m - 1) \<or> client (m - 1)))))"
    by auto
qed

section \<open>Properties\<close>

text \<open>C27: both clients return the first edge that answers, in the cyclic order from the one that
  worked last, all before it having failed without a reason to stop; they remember exactly that
  edge, so that a reconnection to it takes one attempt, and a failed round changes nothing.\<close>

theorem dial_remembers_edge:
  assumes "k < length addrs"
  shows "(h3_dial ctx d addrs k = (Inr b, k') \<longleftrightarrow>
            (\<exists>j < length addrs. k' = (k + j) mod length addrs \<and> d j (addrs ! k') = Inr b \<and>
               (\<forall>i < j. \<exists>err. d i (addrs ! ((k + i) mod length addrs)) = Inl err \<and> \<not> ctx i \<and> \<not> unroutableFamily err))) \<and>
         (h2_dial ctx client d addrs k = (Inr b, k') \<longleftrightarrow>
            (\<exists>j < length addrs. k' = (k + j) mod length addrs \<and> d j (addrs ! k') = Inr b \<and>
               (\<forall>i < j. \<exists>err. d i (addrs ! ((k + i) mod length addrs)) = Inl err \<and> \<not> ctx i \<and> \<not> client i))) \<and>
         (h3_dial ctx d addrs k = (Inl errs, k') \<or> h2_dial ctx client d addrs k = (Inl errs, k') \<longrightarrow> k' = k) \<and>
         (h3_dial ctx d addrs k = (Inr b, k') \<or> h2_dial ctx client d addrs k = (Inr b, k') \<longrightarrow>
            d' 0 (addrs ! k') = Inr b' \<longrightarrow>
            h3_dial ctx' d' addrs k' = (Inr b', k') \<and> h2_dial ctx' client' d' addrs k' = (Inr b', k'))"
proof -
  have lt: "(k + j) mod length addrs < length addrs" for j using assms by (intro mod_less_divisor) auto
  have fs: "(\<exists>j. first_success stop d addrs k 0 j b \<and> k' = (k + j) mod length addrs) \<longleftrightarrow>
      (\<exists>j < length addrs. k' = (k + j) mod length addrs \<and> d j (addrs ! k') = Inr b \<and>
         (\<forall>i < j. \<exists>err. d i (addrs ! ((k + i) mod length addrs)) = Inl err \<and> \<not> stop i err))" for stop
    by (auto simp: first_success_def nth_addr_def)
  have again: "h3_dial ctx' d' addrs k' = (Inr b', k') \<and> h2_dial ctx' client' d' addrs k' = (Inr b', k')"
    if "k' < length addrs" "d' 0 (addrs ! k') = Inr b'"
    using that h3_dialer.sticky [of k' addrs d' b' ctx'] h2_dialer.sticky [of k' addrs d' b' ctx' client'] by simp
  have "k' < length addrs" if "h3_dial ctx d addrs k = (Inr b, k') \<or> h2_dial ctx client d addrs k = (Inr b, k')"
    using that lt by (auto simp: h3_dialer.success h2_dialer.success)
  moreover have "k' = k" if "h3_dial ctx d addrs k = (Inl errs, k') \<or> h2_dial ctx client d addrs k = (Inl errs, k')"
    using that h3_dialer.failure h2_dialer.failure by blast
  moreover have "h3_dial ctx d addrs k = (Inr b, k') \<longleftrightarrow>
      (\<exists>j < length addrs. k' = (k + j) mod length addrs \<and> d j (addrs ! k') = Inr b \<and>
         (\<forall>i < j. \<exists>err. d i (addrs ! ((k + i) mod length addrs)) = Inl err \<and> \<not> ctx i \<and> \<not> unroutableFamily err))"
    by (simp only: h3_dialer.success fs de_Morgan_disj)
  moreover have "h2_dial ctx client d addrs k = (Inr b, k') \<longleftrightarrow>
      (\<exists>j < length addrs. k' = (k + j) mod length addrs \<and> d j (addrs ! k') = Inr b \<and>
         (\<forall>i < j. \<exists>err. d i (addrs ! ((k + i) mod length addrs)) = Inl err \<and> \<not> ctx i \<and> \<not> client i))"
    by (simp only: h2_dialer.success fs de_Morgan_disj)
  ultimately show ?thesis using again by (intro conjI) blast+
qed

definition demo_dial :: "nat \<Rightarrow> string \<Rightarrow> errno + nat" where
  "demo_dial i addr = (if addr = ''b:443'' then Inr i else Inl OtherError)"

theorem dial_remembers_edge_witness:
  "h3_dial (\<lambda>_. False) demo_dial [''a:443'', ''b:443'', ''c:443''] 2 = (Inr 2, 1)"
proof -
  have "2 < length [''a:443'', ''b:443'', ''c:443'']" by simp
  from dial_remembers_edge [OF this, of "\<lambda>_. False" demo_dial 2 1, THEN conjunct1, THEN iffD2] show ?thesis
    by (rule meta_mp) (rule exI [of _ 2], auto simp: demo_dial_def unroutableFamily_def less_Suc_eq numeral_2_eq_2)
qed

text \<open>The HTTP/3 dialer gives up on the first address whose family this host cannot reach,
  although another candidate may be of the other family and answer; the HTTP/2 dialer goes
  on to it. With the candidates of a dual-stack host name this is the difference between
  failing and connecting.\<close>

theorem h3_dial_skips_reachable_family:
  assumes "2 \<le> length addrs" "d 0 (addrs ! 0) = Inl err" "unroutableFamily err" "d 1 (addrs ! 1) = Inr b"
  shows "h3_dial ctx d addrs 0 = (Inl [(addrs ! 0, err)], 0) \<and>
         h2_dial (\<lambda>_. False) (\<lambda>_. False) d addrs 0 = (Inr b, 1)"
proof -
  have "0 < length addrs" "1 < length addrs" using assms(1) by auto
  then show ?thesis
    using assms
    by (simp add: h3_dial_def h3_dial_from.simps [of d ctx addrs 0 0] Let_def h2_dial_def
        h2_dial_from.simps [of d "\<lambda>_. False" "\<lambda>_. False" addrs 0 0]
        h2_dial_from.simps [of d "\<lambda>_. False" "\<lambda>_. False" addrs 0 "Suc 0"])
qed

theorem h3_dial_skips_reachable_family_witness:
  "h3_dial (\<lambda>_. False) (\<lambda>i a. if i = 0 then Inl ENETUNREACH else Inr True) [''[2001:db8::1]:443'', ''192.0.2.1:443''] 0 =
     (Inl [([''[2001:db8::1]:443'', ''192.0.2.1:443''] ! 0, ENETUNREACH)], 0) \<and>
   h2_dial (\<lambda>_. False) (\<lambda>_. False) (\<lambda>i a. if i = 0 then Inl ENETUNREACH else Inr True)
     [''[2001:db8::1]:443'', ''192.0.2.1:443''] 0 = (Inr True, 1)"
  by (rule h3_dial_skips_reachable_family) (simp_all add: unroutableFamily_def)

text \<open>An HTTP/3 attempt that fails has closed everything it opened, each part once and in the
  reverse order of opening; one that succeeds has closed nothing.\<close>

theorem h3_dialAddr_closes:
  "(case h3_dialAddr e of
      (Inr b, acts) \<Rightarrow> acts = [OpenUDP, OpenTransport, OpenQuic, OpenH3]
    | (Inl err, acts) \<Rightarrow> acts \<in> {[], [OpenUDP, OpenTransport, CloseTransport, CloseUDP],
        [OpenUDP, OpenTransport, OpenQuic, OpenH3, CloseH3, CloseQuic, CloseTransport, CloseUDP]})"
  by (auto simp: h3_dialAddr_def bundle_close_def Let_def split: option.splits setup_event.splits)

end
