(* ===== verification/Custody.thy ===== *)
theory Custody
  imports Warp_Prelude
begin

text \<open>
  Reachable states of a step relation, and the interface of a component that owns resources: at
  every moment each resource it made is either retired (its \<open>close\<close> has been called) or held by
  somebody who will retire it or hand it on. The three clients of connections are instances;
  that nothing leaks once nobody holds anything is proved here once.
\<close>

inductive reach :: "('s \<Rightarrow> bool) \<Rightarrow> ('s \<Rightarrow> 's \<Rightarrow> bool) \<Rightarrow> 's \<Rightarrow> bool"
  for start :: "'s \<Rightarrow> bool" and step :: "'s \<Rightarrow> 's \<Rightarrow> bool" where
  reach_start: "start s \<Longrightarrow> reach start step s"
| reach_step: "reach start step s \<Longrightarrow> step s s' \<Longrightarrow> reach start step s'"

lemma reach_induct_inv:
  assumes "reach start step s"
    and "\<And>s. start s \<Longrightarrow> (ok :: _ \<Rightarrow> bool) s" and "\<And>s s'. ok s \<Longrightarrow> step s s' \<Longrightarrow> ok s'"
  shows "ok s"
  using assms(1) by induction (use assms in blast)+

text \<open>Running a list of steps, to exhibit reachable states.\<close>

lemma reach_trans:
  assumes "reach start step s" "step\<^sup>*\<^sup>* s s'"
  shows "reach start step s'"
  using assms(2,1) by induction (auto intro: reach_step)

lemma steps3: "r a b \<Longrightarrow> r b c \<Longrightarrow> r c d \<Longrightarrow> r\<^sup>*\<^sup>* a d"
  by (rule converse_rtranclp_into_rtranclp, assumption)+ simp

lemma steps4: "r a b \<Longrightarrow> r b c \<Longrightarrow> r c d \<Longrightarrow> r d e \<Longrightarrow> r\<^sup>*\<^sup>* a e"
  by (rule converse_rtranclp_into_rtranclp, assumption)+ simp

locale custody =
  fixes start :: "'s \<Rightarrow> bool"
    and step :: "'s \<Rightarrow> 's \<Rightarrow> bool"
    and ok :: "'s \<Rightarrow> bool"
    and made :: "'s \<Rightarrow> nat set"
    and retired :: "'s \<Rightarrow> nat set"
    and held :: "'s \<Rightarrow> nat set"
  assumes start_inv: "start s \<Longrightarrow> ok s"
    and step_inv: "ok s \<Longrightarrow> step s s' \<Longrightarrow> ok s'"
    and accounted: "ok s \<Longrightarrow> made s = retired s \<union> held s"
    and disjoint: "ok s \<Longrightarrow> retired s \<inter> held s = {}"
begin

lemma reach_inv: "reach start step s \<Longrightarrow> ok s"
  by (rule reach_induct_inv) (use start_inv step_inv in blast)+

lemma no_leak: "reach start step s \<Longrightarrow> held s = {} \<Longrightarrow> retired s = made s"
  using accounted [OF reach_inv] by simp

lemma not_used_after_close: "reach start step s \<Longrightarrow> b \<in> held s \<Longrightarrow> b \<notin> retired s"
  using disjoint [OF reach_inv] by blast

end

end
