(* ===== verification/Masque_Client.thy ===== *)
theory Masque_Client
  imports Custody
begin

text \<open>
  The life of the QUIC connection of the HTTP/3 client (\<open>tunnel/masque.go\<close>): \<open>currentConnection\<close>,
  \<open>reconnect\<close> and \<open>Close\<close> run by any number of goroutines, as a step relation whose steps are the
  critical sections of the code; and \<open>openRequestStream\<close>, the only caller of \<open>reconnect\<close>, as a program
  counter of each goroutine that runs it, interleaved with all the others.
\<close>

section \<open>State\<close>

text \<open>Where the goroutine that holds \<open>reconnectMu\<close> is in \<open>reconnect\<close> (idle: the lock is free): it has
  found that it must dial, it has dialled a bundle, it has put its bundle in place and is to
  close the old one. Where \<open>Close\<close> is: it has dropped the DoH connection, it has taken the
  bundle out, it is done.\<close>

datatype rpc = RIdle | RChecked | RDialed nat | RSwapped "nat option"

datatype cpc = CIdle | CInvalidated | CSwapped "nat option" | CDone

record mclient =
  m_cur :: "nat option"
  m_closed :: bool
  m_dead :: "nat set"
  m_next :: nat
  m_retired :: "nat set"
  m_rpc :: rpc
  m_cpc :: cpc

text \<open>\<open>m_dead\<close> holds the connections whose QUIC context is done.\<close>

definition currentConnection :: "mclient \<Rightarrow> nat option" where
  "currentConnection s =
     (if m_closed s then None
      else case m_cur s of
        None \<Rightarrow> None
      | Some b \<Rightarrow> if b \<in> m_dead s then None else Some b)"

text \<open>\<open>bundle.close\<close>, which does nothing on a nil bundle.\<close>

definition retire :: "nat option \<Rightarrow> mclient \<Rightarrow> mclient" where
  "retire b s =
     (case b of
        None \<Rightarrow> s
      | Some x \<Rightarrow> s\<lparr>m_retired := insert x (m_retired s), m_dead := insert x (m_dead s)\<rparr>)"

section \<open>Steps\<close>

inductive mstep :: "mclient \<Rightarrow> mclient \<Rightarrow> bool" where
  reconnect_done: "m_rpc s = RIdle \<Longrightarrow> currentConnection s = Some c \<Longrightarrow> Some c \<noteq> stale \<Longrightarrow> mstep s s"
| reconnect_check: "m_rpc s = RIdle \<Longrightarrow> currentConnection s = None \<or> currentConnection s = stale \<Longrightarrow>
    mstep s (s\<lparr>m_rpc := RChecked\<rparr>)"
| reconnect_fail: "m_rpc s = RChecked \<Longrightarrow> mstep s (s\<lparr>m_rpc := RIdle\<rparr>)"
| reconnect_dial: "m_rpc s = RChecked \<Longrightarrow>
    mstep s (s\<lparr>m_rpc := RDialed (m_next s), m_next := Suc (m_next s)\<rparr>)"
| reconnect_closed: "m_rpc s = RDialed b \<Longrightarrow> m_closed s \<Longrightarrow>
    mstep s (retire (Some b) (s\<lparr>m_rpc := RIdle\<rparr>))"
| reconnect_install: "m_rpc s = RDialed b \<Longrightarrow> \<not> m_closed s \<Longrightarrow>
    mstep s (s\<lparr>m_rpc := RSwapped (m_cur s), m_cur := Some b\<rparr>)"
| reconnect_retire: "m_rpc s = RSwapped old \<Longrightarrow> mstep s (retire old (s\<lparr>m_rpc := RIdle\<rparr>))"
| connection_dies: "b < m_next s \<Longrightarrow> mstep s (s\<lparr>m_dead := insert b (m_dead s)\<rparr>)"
| close_invalidate: "m_cpc s = CIdle \<Longrightarrow> mstep s (s\<lparr>m_cpc := CInvalidated\<rparr>)"
| close_swap: "m_cpc s = CInvalidated \<Longrightarrow>
    mstep s (s\<lparr>m_closed := True, m_cpc := CSwapped (m_cur s), m_cur := None\<rparr>)"
| close_retire: "m_cpc s = CSwapped b \<Longrightarrow> mstep s (retire b (s\<lparr>m_cpc := CDone\<rparr>))"

text \<open>\<open>NewMasqueClientContext\<close> installs the bundle of its first dial.\<close>

definition mclient0 :: mclient where
  "mclient0 = \<lparr>m_cur = Some 0, m_closed = False, m_dead = {}, m_next = 1, m_retired = {},
     m_rpc = RIdle, m_cpc = CIdle\<rparr>"

abbreviation m_reach :: "mclient \<Rightarrow> bool" where
  "m_reach \<equiv> reach (\<lambda>s. s = mclient0) mstep"

inductive_cases mstepE: "mstep s s'"

section \<open>The invariant\<close>

fun rpc_holds :: "rpc \<Rightarrow> nat set" where
  "rpc_holds (RDialed b) = {b}"
| "rpc_holds (RSwapped b) = set_option b"
| "rpc_holds _ = {}"

fun cpc_holds :: "cpc \<Rightarrow> nat set" where
  "cpc_holds (CSwapped b) = set_option b"
| "cpc_holds _ = {}"

definition m_held :: "mclient \<Rightarrow> nat set" where
  "m_held s = set_option (m_cur s) \<union> rpc_holds (m_rpc s) \<union> cpc_holds (m_cpc s)"

definition m_made :: "mclient \<Rightarrow> nat set" where
  "m_made s = {..<m_next s}"

definition m_inv :: "mclient \<Rightarrow> bool" where
  "m_inv s \<longleftrightarrow>
     m_made s = m_retired s \<union> m_held s \<and> m_retired s \<inter> m_held s = {} \<and>
     set_option (m_cur s) \<inter> rpc_holds (m_rpc s) = {} \<and>
     set_option (m_cur s) \<inter> cpc_holds (m_cpc s) = {} \<and>
     rpc_holds (m_rpc s) \<inter> cpc_holds (m_cpc s) = {} \<and>
     (m_closed s \<longleftrightarrow> (\<exists>b. m_cpc s = CSwapped b) \<or> m_cpc s = CDone) \<and>
     (m_closed s \<longrightarrow> m_cur s = None) \<and> (\<not> m_closed s \<longrightarrow> m_cur s \<noteq> None)"

lemma m_inv_start: "m_inv mclient0"
  by (auto simp: mclient0_def m_inv_def m_made_def m_held_def)

lemma retire_fields [simp]:
  "m_cur (retire b s) = m_cur s" "m_closed (retire b s) = m_closed s" "m_next (retire b s) = m_next s"
  "m_rpc (retire b s) = m_rpc s" "m_cpc (retire b s) = m_cpc s"
  "m_retired (retire b s) = m_retired s \<union> set_option b" "m_dead (retire b s) = m_dead s \<union> set_option b"
  by (auto simp: retire_def split: option.split)

lemmas m_defs = m_inv_def m_made_def m_held_def

lemma m_inv_step:
  assumes "m_inv s" "mstep s s'"
  shows "m_inv s'"
  using assms(2)
proof cases
  case (reconnect_dial)
  with assms(1) have "m_next s \<notin> m_retired s \<union> m_held s" by (auto simp: m_defs)
  with reconnect_dial assms(1) show ?thesis by (auto simp: m_defs lessThan_Suc)
next
  case (reconnect_install b)
  with assms(1) show ?thesis by (cases "m_cur s") (auto simp: m_defs)
next
  case (reconnect_retire old)
  with assms(1) show ?thesis by (cases old) (auto simp: m_defs)
next
  case close_swap
  with assms(1) show ?thesis by (cases "m_cur s") (auto simp: m_defs)
next
  case (close_retire b)
  with assms(1) show ?thesis by (cases b) (auto simp: m_defs)
qed (use assms(1) in \<open>auto simp: m_defs\<close>)

interpretation masque: custody "\<lambda>s. s = mclient0" mstep m_inv m_made m_retired m_held
  by unfold_locales (auto simp: m_inv_start m_inv_step, auto simp: m_inv_def)

section \<open>Whole operations\<close>

text \<open>\<open>reconnect\<close> and \<open>Close\<close> run to their end without interruption; \<open>dial_ok\<close> is whether the dial
  succeeds. They are sequences of the steps above.\<close>

definition reconnect :: "bool \<Rightarrow> nat option \<Rightarrow> mclient \<Rightarrow> bool \<times> mclient" where
  "reconnect dial_ok stale s =
     (if (case currentConnection s of None \<Rightarrow> False | Some current \<Rightarrow> Some current \<noteq> stale) then (True, s)
      else if \<not> dial_ok then (False, s)
      else
        let bundle = m_next s; s = s\<lparr>m_next := Suc bundle\<rparr> in
        if m_closed s then (False, retire (Some bundle) s)
        else (True, retire (m_cur s) (s\<lparr>m_cur := Some bundle\<rparr>)))"

definition close_client :: "mclient \<Rightarrow> mclient" where
  "close_client s =
     (if m_cpc s = CIdle
      then retire (m_cur s) (s\<lparr>m_closed := True, m_cur := None, m_cpc := CDone\<rparr>)
      else s)"

lemma reconnect_steps:
  assumes "m_rpc s = RIdle"
  shows "mstep\<^sup>*\<^sup>* s (snd (reconnect dial_ok stale s))"
proof (cases "case currentConnection s of None \<Rightarrow> False | Some current \<Rightarrow> Some current \<noteq> stale")
  case True
  then show ?thesis by (simp add: reconnect_def)
next
  case False
  let ?s1 = "s\<lparr>m_rpc := RChecked\<rparr>" and ?b = "m_next s"
  let ?s2 = "?s1\<lparr>m_rpc := RDialed ?b, m_next := Suc ?b\<rparr>"
  have 1: "mstep s ?s1"
    by (rule reconnect_check [OF assms, of stale]) (use False in \<open>auto split: option.splits\<close>)
  have 2: "mstep ?s1 ?s2" using reconnect_dial [of ?s1] by simp
  show ?thesis
  proof (cases "m_closed s")
    case True
    have "mstep ?s2 (retire (Some ?b) (?s2\<lparr>m_rpc := RIdle\<rparr>))"
      by (rule reconnect_closed) (use True in simp_all)
    moreover have "?s2\<lparr>m_rpc := RIdle\<rparr> = s\<lparr>m_next := Suc ?b\<rparr>" using assms by simp
    ultimately have "mstep\<^sup>*\<^sup>* s (retire (Some ?b) (s\<lparr>m_next := Suc ?b\<rparr>))"
      using steps3 [of mstep, OF 1 2] by simp
    with False True show ?thesis by (simp add: reconnect_def Let_def)
  next
    case open': False
    let ?s3 = "?s2\<lparr>m_rpc := RSwapped (m_cur s), m_cur := Some ?b\<rparr>"
    have 3: "mstep ?s2 ?s3" using reconnect_install [of ?s2 ?b] open' by simp
    have "mstep ?s3 (retire (m_cur s) (?s3\<lparr>m_rpc := RIdle\<rparr>))" by (rule reconnect_retire) simp
    moreover have "?s3\<lparr>m_rpc := RIdle\<rparr> = s\<lparr>m_next := Suc ?b, m_cur := Some ?b\<rparr>" using assms by simp
    ultimately have "mstep\<^sup>*\<^sup>* s (retire (m_cur s) (s\<lparr>m_next := Suc ?b, m_cur := Some ?b\<rparr>))"
      using steps4 [of mstep, OF 1 2 3] by simp
    with False open' show ?thesis by (simp add: reconnect_def Let_def)
  qed
qed

lemma close_steps: "mstep\<^sup>*\<^sup>* s (close_client s)"
proof (cases "m_cpc s = CIdle")
  case True
  let ?s1 = "s\<lparr>m_cpc := CInvalidated\<rparr>"
  let ?s2 = "?s1\<lparr>m_closed := True, m_cpc := CSwapped (m_cur s), m_cur := None\<rparr>"
  have "mstep s ?s1" using True by (rule close_invalidate)
  moreover have "mstep ?s1 ?s2" using close_swap [of ?s1] by simp
  moreover have "mstep ?s2 (retire (m_cur s) (?s2\<lparr>m_cpc := CDone\<rparr>))" by (rule close_retire) simp
  ultimately have "mstep\<^sup>*\<^sup>* s (retire (m_cur s) (?s2\<lparr>m_cpc := CDone\<rparr>))" by (rule steps3)
  with True show ?thesis by (simp add: close_client_def)
qed (simp add: close_client_def)

section \<open>Opening a request stream\<close>

datatype open_error = ErrClosed | ReconnectFailed | CallerDone | OpenFailed

text \<open>Where a goroutine is in \<open>openRequestStream\<close>: it has been handed a connection and opens a stream
  on it; it calls \<open>reconnect\<close> with a stale connection and waits for the lock; it holds the lock, and
  \<open>m_rpc\<close> says where it is in \<open>reconnect\<close>; \<open>reconnect\<close> has returned; it opens a stream for the second
  time; it has returned, with what it asked to be reconnected, and the connection of the stream.\<close>

datatype opc =
    OStart
  | OOpening nat
  | OWant "nat option"
  | OHolding "nat option"
  | OLook "nat option"
  | OReopening "nat option" nat
  | OReturned "nat option option" "open_error + nat"

text \<open>A step of one goroutine. Opening a stream on a connection whose QUIC context is done fails; on
  another one it may succeed or fail, at any time and after anything that others do.\<close>

inductive ocall :: "mclient \<Rightarrow> opc \<Rightarrow> mclient \<Rightarrow> opc \<Rightarrow> bool" where
  look: "currentConnection s = Some b \<Longrightarrow> ocall s OStart s (OOpening b)"
| look_dead: "currentConnection s = None \<Longrightarrow> ocall s OStart s (OWant None)"
| open_ok: "b \<notin> m_dead s \<Longrightarrow> ocall s (OOpening b) s (OReturned None (Inr b))"
| open_done: "ocall s (OOpening b) s (OReturned None (Inl CallerDone))"
| open_failed: "ocall s (OOpening b) s (OWant (Some b))"
| lock_fresh: "m_rpc s = RIdle \<Longrightarrow> currentConnection s = Some c \<Longrightarrow> Some c \<noteq> stale \<Longrightarrow>
    ocall s (OWant stale) s (OLook stale)"
| lock_dial: "m_rpc s = RIdle \<Longrightarrow> currentConnection s = None \<or> currentConnection s = stale \<Longrightarrow>
    ocall s (OWant stale) (s\<lparr>m_rpc := RChecked\<rparr>) (OHolding stale)"
| dial_failed: "m_rpc s = RChecked \<Longrightarrow>
    ocall s (OHolding stale) (s\<lparr>m_rpc := RIdle\<rparr>) (OReturned (Some stale) (Inl ReconnectFailed))"
| dial_ok: "m_rpc s = RChecked \<Longrightarrow>
    ocall s (OHolding stale) (s\<lparr>m_rpc := RDialed (m_next s), m_next := Suc (m_next s)\<rparr>) (OHolding stale)"
| install_closed: "m_rpc s = RDialed b \<Longrightarrow> m_closed s \<Longrightarrow>
    ocall s (OHolding stale) (retire (Some b) (s\<lparr>m_rpc := RIdle\<rparr>)) (OReturned (Some stale) (Inl ReconnectFailed))"
| install: "m_rpc s = RDialed b \<Longrightarrow> \<not> m_closed s \<Longrightarrow>
    ocall s (OHolding stale) (s\<lparr>m_rpc := RSwapped (m_cur s), m_cur := Some b\<rparr>) (OHolding stale)"
| retire_old: "m_rpc s = RSwapped old \<Longrightarrow>
    ocall s (OHolding stale) (retire old (s\<lparr>m_rpc := RIdle\<rparr>)) (OLook stale)"
| relook_dead: "currentConnection s = None \<Longrightarrow> ocall s (OLook stale) s (OReturned (Some stale) (Inl ErrClosed))"
| relook: "currentConnection s = Some b \<Longrightarrow> ocall s (OLook stale) s (OReopening stale b)"
| reopen_ok: "b \<notin> m_dead s \<Longrightarrow> ocall s (OReopening stale b) s (OReturned (Some stale) (Inr b))"
| reopen_failed: "ocall s (OReopening stale b) s (OReturned (Some stale) (Inl OpenFailed))"

text \<open>The client with the goroutines that run \<open>openRequestStream\<close>: a call begins, a goroutine takes a
  step, or a connection dies or \<open>Close\<close> takes a step.\<close>

inductive ostep :: "mclient \<times> (nat \<rightharpoonup> opc) \<Rightarrow> mclient \<times> (nat \<rightharpoonup> opc) \<Rightarrow> bool" where
  call_begins: "p g = None \<or> (\<exists>asked r. p g = Some (OReturned asked r)) \<Longrightarrow> ostep (s, p) (s, p(g \<mapsto> OStart))"
| caller: "p g = Some pc \<Longrightarrow> ocall s pc s' pc' \<Longrightarrow> ostep (s, p) (s', p(g \<mapsto> pc'))"
| others: "mstep s s' \<Longrightarrow> m_rpc s' = m_rpc s \<Longrightarrow> ostep (s, p) (s', p)"

definition ostart :: "mclient \<times> (nat \<rightharpoonup> opc) \<Rightarrow> bool" where
  "ostart x \<longleftrightarrow> x = (mclient0, Map.empty)"

abbreviation o_reach :: "mclient \<Rightarrow> (nat \<rightharpoonup> opc) \<Rightarrow> bool" where
  "o_reach s p \<equiv> reach ostart ostep (s, p)"

inductive_cases ocallE: "ocall s pc s' pc'"

lemma ocall_mstep: "ocall s pc s' pc' \<Longrightarrow> s' = s \<or> mstep s s'"
  by (erule ocallE) (auto intro: mstep.intros)

text \<open>Own steps that a call has still to make at most.\<close>

definition steps_left :: "rpc \<Rightarrow> opc \<Rightarrow> nat" where
  "steps_left r pc =
     (case pc of
        OStart \<Rightarrow> 8 | OOpening _ \<Rightarrow> 7 | OWant _ \<Rightarrow> 6
      | OHolding _ \<Rightarrow> (case r of RSwapped _ \<Rightarrow> 3 | RDialed _ \<Rightarrow> 4 | _ \<Rightarrow> 5)
      | OLook _ \<Rightarrow> 2 | OReopening _ _ \<Rightarrow> 1 | OReturned _ _ \<Rightarrow> 0)"

lemma ocall_ends: "ocall s pc s' pc' \<Longrightarrow> steps_left (m_rpc s') pc' < steps_left (m_rpc s) pc"
  by (erule ocallE) (auto simp: steps_left_def split: rpc.splits)

text \<open>What the holder of the lock is about to close, or has taken out to close.\<close>

definition doomed :: "mclient \<Rightarrow> nat option" where
  "doomed s = (case m_rpc s of RSwapped old \<Rightarrow> old | _ \<Rightarrow> m_cur s)"

definition justified :: "mclient \<Rightarrow> nat option \<Rightarrow> bool" where
  "justified s stale \<longleftrightarrow> (\<forall>b. doomed s = Some b \<longrightarrow> b \<in> m_dead s \<or> stale = Some b)"

definition o_inv :: "mclient \<Rightarrow> (nat \<rightharpoonup> opc) \<Rightarrow> bool" where
  "o_inv s p \<longleftrightarrow>
     (m_rpc s \<noteq> RIdle \<longrightarrow> (\<exists>g stale. p g = Some (OHolding stale))) \<and>
     (\<forall>g stale. p g = Some (OHolding stale) \<longrightarrow> m_rpc s \<noteq> RIdle \<and> justified s stale) \<and>
     (\<forall>g h stale stale'. p g = Some (OHolding stale) \<longrightarrow> p h = Some (OHolding stale') \<longrightarrow> g = h)"

lemma currentConnection_None: "m_inv s \<Longrightarrow> currentConnection s = None \<Longrightarrow> m_cur s = Some b \<Longrightarrow> b \<in> m_dead s"
  by (auto simp: currentConnection_def m_inv_def split: if_splits)

lemma currentConnection_Some: "currentConnection s = Some b \<Longrightarrow> m_cur s = Some b"
  by (auto simp: currentConnection_def split: if_splits option.splits)

section \<open>Properties\<close>

text \<open>C11: in every reachable state every QUIC connection the client made is closed or accounted for,
  never both; and once \<open>Close\<close> has returned and no reconnection is under way, there is no
  current connection and every connection ever made, in whatever order reconnections and
  \<open>Close\<close> interleaved, has been closed.\<close>

theorem masque_no_leak:
  assumes "m_reach s"
  shows "{..<m_next s} = m_retired s \<union> m_held s \<and> m_retired s \<inter> m_held s = {} \<and>
    (m_cpc s = CDone \<and> m_rpc s = RIdle \<longrightarrow> m_cur s = None \<and> m_retired s = {..<m_next s})"
proof -
  have inv: "m_inv s" by (rule masque.reach_inv [OF assms])
  then have "m_cur s = None \<and> m_held s = {}" if "m_cpc s = CDone" "m_rpc s = RIdle"
    using that by (auto simp: m_inv_def m_held_def)
  with inv masque.no_leak [OF assms] show ?thesis by (auto simp: m_inv_def m_made_def)
qed

lemma demo_closed: "m_reach (close_client (snd (reconnect True (Some 0) mclient0)))"
proof -
  have "mstep\<^sup>*\<^sup>* mclient0 (snd (reconnect True (Some 0) mclient0))"
    by (rule reconnect_steps) (simp add: mclient0_def)
  with close_steps show ?thesis
    using reach_trans [OF reach_start [of "\<lambda>s. s = mclient0"]] by (metis rtranclp_trans)
qed

theorem masque_no_leak_witness:
  "m_retired (close_client (snd (reconnect True (Some 0) mclient0))) =
     {..<m_next (close_client (snd (reconnect True (Some 0) mclient0)))}"
  using masque_no_leak [OF demo_closed]
  by (simp add: close_client_def reconnect_def mclient0_def currentConnection_def)

text \<open>A connection that \<open>currentConnection\<close> hands out has not been closed by the client, its QUIC
  context is alive, and the client is not closed.\<close>

lemma currentConnection_live:
  assumes "m_reach s" "currentConnection s = Some b"
  shows "b \<notin> m_retired s \<and> b \<notin> m_dead s \<and> \<not> m_closed s \<and> b < m_next s"
proof -
  have b: "m_cur s = Some b" "\<not> m_closed s" "b \<notin> m_dead s"
    using assms(2) by (auto simp: currentConnection_def split: if_splits option.splits)
  then have "b \<in> m_held s" by (simp add: m_held_def)
  moreover from this have "b \<in> m_made s"
    using masque.accounted [OF masque.reach_inv [OF assms(1)]] by blast
  ultimately show ?thesis
    using masque.not_used_after_close [OF assms(1)] b by (simp add: m_made_def)
qed

text \<open>How the invariant of the callers is kept: by a step outside the lock, on taking it, within it, on
  leaving it, and by the others.\<close>

abbreviation outside :: "opc \<Rightarrow> bool" where
  "outside pc \<equiv> \<forall>stale. pc \<noteq> OHolding stale"

lemma o_inv_outside:
  assumes "o_inv s p" "outside pc'" "\<And>pc. p g = Some pc \<Longrightarrow> outside pc"
  shows "o_inv s (p(g \<mapsto> pc'))"
  using assms unfolding o_inv_def by (auto split: if_splits) metis

lemma o_inv_lock:
  assumes "o_inv s p" "m_rpc s = RIdle" "m_rpc s' \<noteq> RIdle" "justified s' stale"
  shows "o_inv s' (p(g \<mapsto> OHolding stale))"
  using assms unfolding o_inv_def by auto

lemma o_inv_within:
  assumes "o_inv s p" "p g = Some (OHolding stale)" "m_rpc s' \<noteq> RIdle" "justified s stale \<Longrightarrow> justified s' stale"
  shows "o_inv s' (p(g \<mapsto> OHolding stale))"
  using assms unfolding o_inv_def by (auto split: if_splits)

lemma o_inv_unlock:
  assumes "o_inv s p" "p g = Some (OHolding stale)" "m_rpc s' = RIdle" "outside pc'"
  shows "o_inv s' (p(g \<mapsto> pc'))"
  using assms unfolding o_inv_def by (auto split: if_splits)

lemma o_inv_others:
  assumes "o_inv s p" "m_rpc s' = m_rpc s" "m_dead s \<subseteq> m_dead s'" "m_cur s' = m_cur s \<or> m_cur s' = None"
  shows "o_inv s' p"
proof -
  have "justified s' stale" if "justified s stale" for stale
    using that assms(2-4) by (cases "m_rpc s") (auto simp: justified_def doomed_def)
  with assms(1,2) show ?thesis unfolding o_inv_def by metis
qed

lemma mstep_others:
  "mstep s s' \<Longrightarrow> m_rpc s' = m_rpc s \<Longrightarrow> m_dead s \<subseteq> m_dead s' \<and> (m_cur s' = m_cur s \<or> m_cur s' = None)"
  by (erule mstepE) auto

lemma o_inv_caller:
  assumes "o_inv s p" "m_inv s" "p g = Some pc" "ocall s pc s' pc'"
  shows "o_inv s' (p(g \<mapsto> pc'))"
  using assms(4)
proof cases
  case (lock_dial stale)
  have "justified s' stale"
    using lock_dial currentConnection_None [OF assms(2)] currentConnection_Some [of s]
    by (cases "currentConnection s") (auto simp: justified_def doomed_def)
  with lock_dial show ?thesis using o_inv_lock [OF assms(1)] by simp
next
  case (dial_ok stale)
  then show ?thesis using o_inv_within [OF assms(1)] assms(3) by (simp add: justified_def doomed_def)
next
  case (install b stale)
  then show ?thesis using o_inv_within [OF assms(1)] assms(3) by (simp add: justified_def doomed_def)
qed (use assms(1,3) in \<open>auto intro: o_inv_outside o_inv_unlock\<close>)

lemma ostep_inv:
  assumes "ostep (s, p) (s', p')" "o_inv s p" "m_inv s"
  shows "o_inv s' p' \<and> m_inv s'"
  using assms(1)
proof cases
  case (call_begins g)
  then have "o_inv s (p(g \<mapsto> OStart))" by (intro o_inv_outside [OF assms(2)]) auto
  with call_begins assms(3) show ?thesis by simp
next
  case (caller g pc pc')
  with o_inv_caller [OF assms(2,3)] ocall_mstep m_inv_step [OF assms(3)] assms(3) show ?thesis by metis
next
  case others
  with o_inv_others [OF assms(2)] mstep_others m_inv_step [OF assms(3)] show ?thesis by metis
qed

lemma retired_dead_step: "mstep s s' \<Longrightarrow> m_retired s \<subseteq> m_dead s \<Longrightarrow> m_retired s' \<subseteq> m_dead s'"
  by (erule mstepE) auto

lemma o_reach_inv: "o_reach s p \<Longrightarrow> o_inv s p \<and> m_inv s \<and> m_retired s \<subseteq> m_dead s \<and> m_reach s"
proof (induction "(s, p)" arbitrary: s p rule: reach.induct)
  case reach_start
  then have "(s, p) = (mclient0, Map.empty)" by (simp add: ostart_def)
  moreover have "o_inv mclient0 Map.empty" by (simp add: o_inv_def mclient0_def)
  moreover have "m_reach mclient0" by (rule reach.reach_start) simp
  ultimately show ?case using m_inv_start by (simp add: mclient0_def)
next
  case (reach_step x s p)
  obtain s0 p0 where x: "x = (s0, p0)" by fastforce
  with reach_step have ih: "o_inv s0 p0" "m_inv s0" "m_retired s0 \<subseteq> m_dead s0" "m_reach s0" "ostep (s0, p0) (s, p)" by auto
  from ih(5) have "s = s0 \<or> mstep s0 s" by cases (auto dest: ocall_mstep)
  then have "m_retired s \<subseteq> m_dead s" "m_reach s" using ih(3,4) retired_dead_step reach.reach_step by metis+
  with ostep_inv [OF ih(5,1,2)] show ?case by simp
qed

lemma ocall_progress:
  assumes "\<forall>asked r. pc \<noteq> OReturned asked r" "\<forall>stale. pc = OWant stale \<longrightarrow> m_rpc s = RIdle"
    "\<forall>stale. pc = OHolding stale \<longrightarrow> m_rpc s \<noteq> RIdle"
  shows "\<exists>s' pc'. ocall s pc s' pc'"
proof (cases pc)
  case OStart
  then show ?thesis by (cases "currentConnection s") (blast intro: ocall.intros)+
next
  case (OWant stale)
  with assms(2) show ?thesis
    by (cases "currentConnection s"; cases "currentConnection s = stale") (blast intro: ocall.intros)+
next
  case (OHolding stale)
  with assms(3) show ?thesis by (cases "m_rpc s"; cases "m_closed s") (blast intro: ocall.intros)+
next
  case (OLook stale)
  then show ?thesis by (cases "currentConnection s") (blast intro: ocall.intros)+
qed (use assms(1) in \<open>blast intro: ocall.intros\<close>)+

text \<open>C26: \<open>openRequestStream\<close>, called by any number of goroutines and interleaved with the deaths of
  connections and with \<open>Close\<close>. Only one goroutine reconnects at a time. The connection it takes
  out and closes is dead or the one on which this very goroutine has failed to open a stream, so a
  healthy one that another goroutine has put in place meanwhile is spared. A stream that is
  returned was opened on a connection that the client had not closed by then. A goroutine that is
  not finished can take a step unless another one, which can, holds the lock.\<close>

theorem openRequestStream_spares_healthy:
  assumes "o_reach s p"
  shows "(\<forall>g h stale stale'. p g = Some (OHolding stale) \<and> p h = Some (OHolding stale') \<longrightarrow> g = h) \<and>
    (\<forall>g stale b. p g = Some (OHolding stale) \<and> doomed s = Some b \<longrightarrow> b \<in> m_dead s \<or> stale = Some b) \<and>
    (\<forall>g pc s' asked b. p g = Some pc \<and> ocall s pc s' (OReturned asked (Inr b)) \<longrightarrow> b \<notin> m_retired s') \<and>
    (\<forall>g pc. p g = Some pc \<longrightarrow> (\<exists>asked r. pc = OReturned asked r) \<or> (\<exists>s' pc'. ocall s pc s' pc') \<or>
       (\<exists>h stale s' pc'. h \<noteq> g \<and> p h = Some (OHolding stale) \<and> ocall s (OHolding stale) s' pc'))"
proof -
  have inv: "o_inv s p" "m_retired s \<subseteq> m_dead s" using o_reach_inv [OF assms] by blast+
  have "b \<notin> m_retired s'" if "ocall s pc s' (OReturned asked (Inr b))" for pc s' asked b
    using that inv(2) by cases auto
  moreover have "(\<exists>asked r. pc = OReturned asked r) \<or> (\<exists>s' pc'. ocall s pc s' pc') \<or>
       (\<exists>h stale s' pc'. h \<noteq> g \<and> p h = Some (OHolding stale) \<and> ocall s (OHolding stale) s' pc')" if "p g = Some pc" for g pc
  proof (cases "\<exists>stale. pc = OWant stale \<and> m_rpc s \<noteq> RIdle")
    case True
    then obtain h stale where h: "p h = Some (OHolding stale)" using inv(1) by (auto simp: o_inv_def)
    with inv(1) have "\<exists>s' pc'. ocall s (OHolding stale) s' pc'" by (intro ocall_progress) (auto simp: o_inv_def)
    moreover have "h \<noteq> g" using h that True by auto
    ultimately show ?thesis using h by blast
  next
    case False
    then show ?thesis using ocall_progress [of pc s] inv(1) that unfolding o_inv_def by blast
  qed
  ultimately show ?thesis using inv(1) unfolding o_inv_def justified_def by blast
qed

text \<open>Two goroutines: one has failed on the first connection and waits for the lock; the connection
  has died, the other one has replaced it and is about to close it.\<close>

definition demo_replaced :: "mclient \<times> (nat \<rightharpoonup> opc)" where
  "demo_replaced =
     (mclient0\<lparr>m_dead := {0}, m_next := 2, m_rpc := RSwapped (Some 0), m_cur := Some 1\<rparr>,
      [1 \<mapsto> OWant (Some 0), 2 \<mapsto> OHolding None])"

lemma demo_replaced_reach: "o_reach (fst demo_replaced) (snd demo_replaced)"
proof -
  let ?s1 = "mclient0\<lparr>m_dead := {0}\<rparr>"
  let ?s2 = "?s1\<lparr>m_rpc := RChecked\<rparr>"
  let ?s3 = "?s2\<lparr>m_rpc := RDialed 1, m_next := 2\<rparr>"
  let ?p1 = "[1 \<mapsto> OWant (Some 0)]"
  have c: "currentConnection mclient0 = Some 0" "currentConnection ?s1 = None"
    by (simp_all add: currentConnection_def mclient0_def)
  have 0: "o_reach mclient0 Map.empty" by (rule reach_start) (simp add: ostart_def)
  have 1: "o_reach mclient0 ([1 \<mapsto> OStart])" by (rule reach_step [OF 0 call_begins]) simp
  have 2: "o_reach mclient0 ([1 \<mapsto> OOpening 0])"
    using reach_step [OF 1 caller [OF _ look [OF c(1)], of _ 1]] by simp
  have 3: "o_reach mclient0 ?p1" using reach_step [OF 2 caller [OF _ open_failed, of _ 1]] by simp
  have "mstep mclient0 ?s1" using connection_dies [of 0 mclient0] by (simp add: mclient0_def)
  then have 4: "o_reach ?s1 ?p1" by (rule reach_step [OF 3 others]) simp
  have 5: "o_reach ?s1 (?p1(2 \<mapsto> OStart))" by (rule reach_step [OF 4 call_begins]) simp
  have 6: "o_reach ?s1 (?p1(2 \<mapsto> OWant None))"
    using reach_step [OF 5 caller [OF _ look_dead [OF c(2)], of _ 2]] by simp
  have 7: "o_reach ?s2 (?p1(2 \<mapsto> OHolding None))"
    using reach_step [OF 6 caller [OF _ lock_dial [of ?s1 None], of _ 2]] c by (simp add: mclient0_def)
  have 8: "o_reach ?s3 (?p1(2 \<mapsto> OHolding None))"
    using reach_step [OF 7 caller [OF _ dial_ok [of ?s2 None], of _ 2]] by (simp add: mclient0_def numeral_2_eq_2)
  show ?thesis
    using reach_step [OF 8 caller [OF _ install [of ?s3 1 None], of _ 2]]
    by (simp add: demo_replaced_def mclient0_def)
qed

theorem openRequestStream_spares_healthy_witness:
  "0 \<in> m_dead (fst demo_replaced) \<and> (\<exists>s' pc'. ocall (fst demo_replaced) (OHolding None) s' pc')"
proof -
  have d: "doomed (fst demo_replaced) = Some 0" "snd demo_replaced 2 = Some (OHolding None)"
    "snd demo_replaced 1 = Some (OWant (Some 0))" "m_rpc (fst demo_replaced) = RSwapped (Some 0)"
    by (simp_all add: demo_replaced_def doomed_def)
  note th = openRequestStream_spares_healthy [OF demo_replaced_reach]
  have "0 \<in> m_dead (fst demo_replaced) \<or> None = Some (0 :: nat)" using th d by blast
  moreover have "\<exists>s' pc'. ocall (fst demo_replaced) (OHolding None) s' pc'"
    using retire_old [OF d(4)] by blast
  ultimately show ?thesis by simp
qed

end
