(* ===== verification/Doh_Conn.thy ===== *)
theory Doh_Conn
  imports Custody
begin

text \<open>
  The shared DoH connection (\<open>dohConnection\<close>, \<open>liveDoH\<close>, \<open>invalidateDoH\<close>, \<open>isClosed\<close> and the part
  of \<open>Close\<close> that concerns it, \<open>tunnel/masque.go\<close>), as a step relation over any number of
  goroutines. A step is what the code does without releasing \<open>dohMu\<close> or \<open>connMu\<close>; between two
  steps of a goroutine others may run. The first invariant says that dials are coalesced and
  that no waiter is forgotten, the second accounts for every connection made. Two reachable
  states show what the locking does not exclude.
\<close>

section \<open>State\<close>

datatype derr = DialError | DErrClosed | DCtxDone

text \<open>Where a goroutine is: \<open>DMissed\<close> between \<open>liveDoH\<close> and the lock, \<open>DWait\<close> on a flight,
  \<open>DDial\<close> in the dial it leads, \<open>DGot\<close> before and \<open>DInstall\<close> after the first check of \<open>isClosed\<close>,
  \<open>DAfter\<close> before the second one, \<open>DRet\<close> returned.\<close>

datatype dpc =
    DIdle | DMissed | DWait nat | DDial nat | DGot nat nat | DInstall nat "derr + nat"
  | DAfter nat | DRet "derr + nat"

datatype dclose = DcIdle | DcInvalidated | DcDone

text \<open>\<open>d_lost\<close> records connections whose place was taken by another one while they were current;
  the code keeps no trace of them.\<close>

record dstate =
  d_doh :: "nat option"
  d_dial :: "nat option"
  d_flight :: "nat \<Rightarrow> (derr + nat) option"
  d_next :: nat
  d_nextf :: nat
  d_spent :: "nat set"
  d_retired :: "nat set"
  d_lost :: "nat set"
  d_closed :: bool
  d_pc :: "nat \<Rightarrow> dpc"
  d_cpc :: dclose

definition d_goto :: "nat \<Rightarrow> dpc \<Rightarrow> dstate \<Rightarrow> dstate" where
  "d_goto t pc s = s\<lparr>d_pc := (d_pc s)(t := pc)\<rparr>"

text \<open>\<open>invalidateDoH\<close>: with no argument it drops the current connection, whichever it is; with one,
  only that connection.\<close>

definition invalidateDoH :: "nat option \<Rightarrow> dstate \<Rightarrow> dstate" where
  "invalidateDoH stale s =
     (case d_doh s of
        None \<Rightarrow> s
      | Some victim \<Rightarrow>
          if stale \<noteq> None \<and> Some victim \<noteq> stale then s
          else s\<lparr>d_doh := None, d_retired := insert victim (d_retired s)\<rparr>)"

text \<open>\<open>liveDoH\<close>: the connection if it is usable; a spent one is retired.\<close>

definition liveDoH :: "dstate \<Rightarrow> nat option \<times> dstate" where
  "liveDoH s =
     (case d_doh s of
        None \<Rightarrow> (None, s)
      | Some d \<Rightarrow>
          if d \<notin> d_spent s then (Some d, s)
          else (None, s\<lparr>d_doh := None, d_retired := insert d (d_retired s)\<rparr>))"

section \<open>Steps\<close>

inductive dstep :: "dstate \<Rightarrow> dstate \<Rightarrow> bool" where
  live_hit: "d_pc s t = DIdle \<Longrightarrow> liveDoH s = (Some c, s') \<Longrightarrow> dstep s (d_goto t (DRet (Inr c)) s')"
| live_miss: "d_pc s t = DIdle \<Longrightarrow> liveDoH s = (None, s') \<Longrightarrow> dstep s (d_goto t DMissed s')"
| join: "d_pc s t = DMissed \<Longrightarrow> d_dial s = Some f \<Longrightarrow> dstep s (d_goto t (DWait f) s)"
| lead: "d_pc s t = DMissed \<Longrightarrow> d_dial s = None \<Longrightarrow>
    dstep s (d_goto t (DDial (d_nextf s))
      (s\<lparr>d_dial := Some (d_nextf s), d_flight := (d_flight s)(d_nextf s := None), d_nextf := Suc (d_nextf s)\<rparr>))"
| wake_err: "d_pc s t = DWait f \<Longrightarrow> d_flight s f = Some (Inl e) \<Longrightarrow> dstep s (d_goto t (DRet (Inl e)) s)"
| wake_ok: "d_pc s t = DWait f \<Longrightarrow> d_flight s f = Some (Inr c) \<Longrightarrow> dstep s (d_goto t DIdle s)"
| wait_cancelled: "d_pc s t = DWait f \<Longrightarrow> dstep s (d_goto t (DRet (Inl DCtxDone)) s)"
| dial_fail: "d_pc s t = DDial f \<Longrightarrow> dstep s (d_goto t (DInstall f (Inl DialError)) s)"
| dial_ok: "d_pc s t = DDial f \<Longrightarrow>
    dstep s (d_goto t (DGot f (d_next s)) (s\<lparr>d_next := Suc (d_next s)\<rparr>))"
| check_open: "d_pc s t = DGot f c \<Longrightarrow> \<not> d_closed s \<Longrightarrow> dstep s (d_goto t (DInstall f (Inr c)) s)"
| check_closed: "d_pc s t = DGot f c \<Longrightarrow> d_closed s \<Longrightarrow>
    dstep s (d_goto t (DInstall f (Inl DErrClosed)) (s\<lparr>d_retired := insert c (d_retired s)\<rparr>))"
| install_err: "d_pc s t = DInstall f (Inl e) \<Longrightarrow>
    dstep s (d_goto t (DRet (Inl e)) (s\<lparr>d_dial := None, d_flight := (d_flight s)(f \<mapsto> Inl e)\<rparr>))"
| install_ok: "d_pc s t = DInstall f (Inr c) \<Longrightarrow>
    dstep s (d_goto t (DAfter c)
      (s\<lparr>d_doh := Some c, d_dial := None, d_flight := (d_flight s)(f \<mapsto> Inr c),
         d_lost := d_lost s \<union> set_option (d_doh s)\<rparr>))"
| recheck_open: "d_pc s t = DAfter c \<Longrightarrow> \<not> d_closed s \<Longrightarrow> dstep s (d_goto t (DRet (Inr c)) s)"
| recheck_closed: "d_pc s t = DAfter c \<Longrightarrow> d_closed s \<Longrightarrow>
    dstep s (d_goto t (DRet (Inl DErrClosed)) (invalidateDoH (Some c) s))"
| again: "d_pc s t = DRet r \<Longrightarrow> dstep s (d_goto t DIdle s)"
| connection_spent: "c < d_next s \<Longrightarrow> dstep s (s\<lparr>d_spent := insert c (d_spent s)\<rparr>)"
| query_failed: "c < d_next s \<Longrightarrow> dstep s (invalidateDoH (Some c) s)"
| reconnected: "dstep s (invalidateDoH None s)"
| close_invalidates: "d_cpc s = DcIdle \<Longrightarrow> dstep s (invalidateDoH None s\<lparr>d_cpc := DcInvalidated\<rparr>)"
| close_marks: "d_cpc s = DcInvalidated \<Longrightarrow> dstep s (s\<lparr>d_closed := True, d_cpc := DcDone\<rparr>)"

definition dstate0 :: dstate where
  "dstate0 = \<lparr>d_doh = None, d_dial = None, d_flight = (\<lambda>_. None), d_next = 0, d_nextf = 0, d_spent = {},
     d_retired = {}, d_lost = {}, d_closed = False, d_pc = (\<lambda>_. DIdle), d_cpc = DcIdle\<rparr>"

abbreviation d_reach :: "dstate \<Rightarrow> bool" where
  "d_reach \<equiv> reach (\<lambda>s. s = dstate0) dstep"

section \<open>Coalesced dials\<close>

fun leads :: "dpc \<Rightarrow> nat option" where
  "leads (DDial f) = Some f"
| "leads (DGot f c) = Some f"
| "leads (DInstall f r) = Some f"
| "leads _ = None"

definition d_flights :: "dstate \<Rightarrow> bool" where
  "d_flights s \<longleftrightarrow>
     (\<forall>t f. leads (d_pc s t) = Some f \<longrightarrow> d_dial s = Some f \<and> f < d_nextf s \<and> d_flight s f = None) \<and>
     (\<forall>t u. leads (d_pc s t) \<noteq> None \<longrightarrow> leads (d_pc s u) \<noteq> None \<longrightarrow> t = u) \<and>
     (d_dial s \<noteq> None \<longrightarrow> (\<exists>t. leads (d_pc s t) = d_dial s)) \<and>
     (\<forall>f < d_nextf s. d_flight s f \<noteq> None \<or> (\<exists>t. leads (d_pc s t) = Some f)) \<and>
     (\<forall>t f. d_pc s t = DWait f \<longrightarrow> f < d_nextf s)"

lemma d_flightsI:
  assumes "\<And>t f. leads (d_pc s t) = Some f \<Longrightarrow> d_dial s = Some f \<and> f < d_nextf s \<and> d_flight s f = None"
    and "\<And>t u. leads (d_pc s t) \<noteq> None \<Longrightarrow> leads (d_pc s u) \<noteq> None \<Longrightarrow> t = u"
    and "d_dial s \<noteq> None \<Longrightarrow> \<exists>t. leads (d_pc s t) = d_dial s"
    and "\<And>f. f < d_nextf s \<Longrightarrow> d_flight s f \<noteq> None \<or> (\<exists>t. leads (d_pc s t) = Some f)"
    and "\<And>t f. d_pc s t = DWait f \<Longrightarrow> f < d_nextf s"
  shows "d_flights s"
  unfolding d_flights_def using assms by blast

lemma d_flightsD:
  assumes "d_flights s"
  shows "leads (d_pc s t) = Some f \<Longrightarrow> d_dial s = Some f \<and> f < d_nextf s \<and> d_flight s f = None"
    and "leads (d_pc s t) \<noteq> None \<Longrightarrow> leads (d_pc s u) \<noteq> None \<Longrightarrow> t = u"
    and "d_dial s \<noteq> None \<Longrightarrow> \<exists>t. leads (d_pc s t) = d_dial s"
    and "f < d_nextf s \<Longrightarrow> d_flight s f \<noteq> None \<or> (\<exists>t. leads (d_pc s t) = Some f)"
    and "d_pc s t = DWait f \<Longrightarrow> f < d_nextf s"
  using assms unfolding d_flights_def by blast+

lemma d_goto_fields [simp]:
  "d_doh (d_goto t pc s) = d_doh s" "d_dial (d_goto t pc s) = d_dial s" "d_flight (d_goto t pc s) = d_flight s"
  "d_next (d_goto t pc s) = d_next s" "d_nextf (d_goto t pc s) = d_nextf s" "d_spent (d_goto t pc s) = d_spent s"
  "d_retired (d_goto t pc s) = d_retired s" "d_lost (d_goto t pc s) = d_lost s" "d_closed (d_goto t pc s) = d_closed s"
  "d_pc (d_goto t pc s) = (d_pc s)(t := pc)" "d_cpc (d_goto t pc s) = d_cpc s"
  by (simp_all add: d_goto_def)

lemma invalidate_fields [simp]:
  "d_dial (invalidateDoH x s) = d_dial s" "d_flight (invalidateDoH x s) = d_flight s"
  "d_next (invalidateDoH x s) = d_next s" "d_nextf (invalidateDoH x s) = d_nextf s"
  "d_lost (invalidateDoH x s) = d_lost s" "d_closed (invalidateDoH x s) = d_closed s"
  "d_pc (invalidateDoH x s) = d_pc s" "d_cpc (invalidateDoH x s) = d_cpc s" "d_spent (invalidateDoH x s) = d_spent s"
  by (auto simp: invalidateDoH_def split: option.splits)

lemma liveDoH_fields:
  assumes "liveDoH s = (r, s')"
  shows "d_dial s' = d_dial s \<and> d_flight s' = d_flight s \<and> d_next s' = d_next s \<and> d_nextf s' = d_nextf s \<and>
     d_lost s' = d_lost s \<and> d_closed s' = d_closed s \<and> d_pc s' = d_pc s \<and> d_cpc s' = d_cpc s \<and>
     d_retired s' \<union> set_option (d_doh s') = d_retired s \<union> set_option (d_doh s) \<and>
     (d_doh s' = d_doh s \<and> d_retired s' = d_retired s \<or> d_doh s' = None)"
  using assms by (auto simp: liveDoH_def split: option.splits if_splits)

lemma d_flights_start: "d_flights dstate0"
  by (simp add: d_flights_def dstate0_def)

text \<open>A step that changes who leads what in no respect leaves the flights as they are.\<close>

lemma d_flights_quiet:
  assumes "d_flights s" "d_dial s' = d_dial s" "d_flight s' = d_flight s" "d_nextf s' = d_nextf s"
    and "\<And>u. leads (d_pc s' u) = leads (d_pc s u)"
    and "\<And>u f. d_pc s' u = DWait f \<Longrightarrow> f < d_nextf s"
  shows "d_flights s'"
  by (rule d_flightsI; unfold assms(2-5)) (fact d_flightsD [OF assms(1)] assms(6))+

text \<open>The flight of a leader, the end of a flight, and its start.\<close>

lemma leader_flight:
  assumes "d_flights s" "leads (d_pc s t) = Some f"
  shows "d_dial s = Some f" "f < d_nextf s" "d_flight s f = None"
    "u \<noteq> t \<Longrightarrow> leads (d_pc s u) = None"
  using d_flightsD(1) [OF assms] d_flightsD(2) [OF assms(1), of t u] assms(2)
  by (auto, cases "leads (d_pc s u)", auto)

lemma d_flights_end:
  assumes "d_flights s" "leads (d_pc s t) = Some f" "leads pc = None" "\<And>g. pc \<noteq> DWait g"
    and "d_dial s' = None" "d_flight s' = (d_flight s)(f \<mapsto> r)" "d_nextf s' = d_nextf s"
    and "d_pc s' = (d_pc s)(t := pc)"
  shows "d_flights s'"
proof (rule d_flightsI)
  note l = leader_flight [OF assms(1,2)]
  have none: "leads (d_pc s' u) = None" for u using l(4) assms(3,8) by simp
  show "d_flight s' g \<noteq> None \<or> (\<exists>t. leads (d_pc s' t) = Some g)" if "g < d_nextf s'" for g
  proof (cases "g = f")
    case False
    then have "\<not> (\<exists>u. leads (d_pc s u) = Some g)"
      using l(4) assms(2) by (metis option.distinct(1) option.inject)
    with False d_flightsD(4) [OF assms(1), of g] that assms(6,7) show ?thesis by simp
  qed (use assms(6) in simp)
  show "g < d_nextf s'" if "d_pc s' u = DWait g" for u g
    using that d_flightsD(5) [OF assms(1), of u g] assms(4,7,8) by (auto split: if_splits)
qed (use assms(3,5,8) leader_flight(4) [OF assms(1,2)] in \<open>auto split: if_splits\<close>)

lemma d_flights_lead:
  assumes "d_flights s" "d_dial s = None"
    and "d_dial s' = Some (d_nextf s)" "d_flight s' = (d_flight s)(d_nextf s := None)"
    and "d_nextf s' = Suc (d_nextf s)" "d_pc s' = (d_pc s)(t := DDial (d_nextf s))"
  shows "d_flights s'"
proof (rule d_flightsI)
  have none: "leads (d_pc s u) = None" for u
    using d_flightsD(1) [OF assms(1), of u] assms(2) by (cases "leads (d_pc s u)") auto
  have l: "leads (d_pc s' u) = (if u = t then Some (d_nextf s) else None)" for u using none assms(6) by simp
  show "d_dial s' = Some f \<and> f < d_nextf s' \<and> d_flight s' f = None" if "leads (d_pc s' u) = Some f" for u f
    using that l assms(3-5) by (auto split: if_splits)
  show "u = v" if "leads (d_pc s' u) \<noteq> None" "leads (d_pc s' v) \<noteq> None" for u v
    using that l by (auto split: if_splits)
  show "\<exists>u. leads (d_pc s' u) = d_dial s'" using l [of t] assms(3) by auto
  show "d_flight s' f \<noteq> None \<or> (\<exists>u. leads (d_pc s' u) = Some f)" if "f < d_nextf s'" for f
    using that d_flightsD(4) [OF assms(1), of f] none l [of t] assms(4,5) by (cases "f = d_nextf s") auto
  show "f < d_nextf s'" if "d_pc s' u = DWait f" for u f
    using that d_flightsD(5) [OF assms(1), of u f] assms(5,6) by (auto split: if_splits)
qed

lemma d_flights_step:
  assumes "d_flights s" "dstep s s'"
  shows "d_flights s'"
  using assms(2)
proof cases
  case (live_hit t c s1)
  note f = liveDoH_fields [OF live_hit(3)]
  show ?thesis by (rule d_flights_quiet [OF assms(1)])
    (use live_hit f d_flightsD(5) [OF assms(1)] in \<open>auto split: if_splits\<close>)
next
  case (live_miss t s1)
  note f = liveDoH_fields [OF live_miss(3)]
  show ?thesis by (rule d_flights_quiet [OF assms(1)])
    (use live_miss f d_flightsD(5) [OF assms(1)] in \<open>auto split: if_splits\<close>)
next
  case (join t f)
  then obtain u where "leads (d_pc s u) = Some f" using d_flightsD(3) [OF assms(1)] by auto
  then have "f < d_nextf s" using d_flightsD(1) [OF assms(1)] by blast
  then show ?thesis by - (rule d_flights_quiet [OF assms(1)];
    use join d_flightsD(5) [OF assms(1)] in \<open>auto split: if_splits\<close>)
next
  case (lead t)
  then show ?thesis by (intro d_flights_lead [OF assms(1)]) simp_all
next
  case (install_err t f e)
  then show ?thesis by (intro d_flights_end [OF assms(1), where f = f and t = t]) simp_all
next
  case (install_ok t f c)
  then show ?thesis by (intro d_flights_end [OF assms(1), where f = f and t = t]) simp_all
qed (rule d_flights_quiet [OF assms(1)];
  use d_flightsD(5) [OF assms(1)] in \<open>auto split: if_splits\<close>)+

section \<open>Every connection accounted for\<close>

fun carries :: "dpc \<Rightarrow> nat set" where
  "carries (DGot f c) = {c}"
| "carries (DInstall f (Inr c)) = {c}"
| "carries _ = {}"

definition d_carried :: "dstate \<Rightarrow> nat set" where
  "d_carried s = (\<Union>t. carries (d_pc s t))"

definition d_held :: "dstate \<Rightarrow> nat set" where
  "d_held s = set_option (d_doh s) \<union> d_carried s \<union> d_lost s"

definition d_made :: "dstate \<Rightarrow> nat set" where
  "d_made s = {..<d_next s}"

definition d_accounts :: "dstate \<Rightarrow> bool" where
  "d_accounts s \<longleftrightarrow>
     d_made s = d_retired s \<union> d_held s \<and> d_retired s \<inter> d_held s = {} \<and>
     d_carried s \<inter> (set_option (d_doh s) \<union> d_lost s) = {} \<and> set_option (d_doh s) \<inter> d_lost s = {}"

lemmas d_account_defs = d_accounts_def d_made_def d_held_def

lemma carries_leads: "leads pc = None \<Longrightarrow> carries pc = {}"
  by (cases pc) auto

lemma carried_leader:
  assumes "d_flights s" "leads (d_pc s t) = Some f" "d_pc s' = (d_pc s)(t := pc)"
  shows "d_carried s' = carries pc \<and> d_carried s = carries (d_pc s t)"
proof -
  have none: "carries (d_pc s u) = {}" if "u \<noteq> t" for u
    using leader_flight(4) [OF assms(1,2) that] carries_leads by simp
  have "carries (d_pc s u) \<subseteq> carries (d_pc s t)" for u
    using none [of u] by (cases "u = t") simp_all
  moreover have "carries (d_pc s' u) \<subseteq> carries pc" for u
    using none [of u] assms(3) by (cases "u = t") simp_all
  ultimately have "d_carried s' \<subseteq> carries pc" "d_carried s \<subseteq> carries (d_pc s t)"
    unfolding d_carried_def by blast+
  moreover have "carries pc \<subseteq> d_carried s'" "carries (d_pc s t) \<subseteq> d_carried s"
    using assms(3) by (auto simp: d_carried_def intro: exI [of _ t])
  ultimately show ?thesis by blast
qed

lemma carried_quiet:
  assumes "d_pc s' = (d_pc s)(t := pc)" "carries pc = carries (d_pc s t)"
  shows "d_carried s' = d_carried s"
  unfolding d_carried_def assms(1) using assms(2) by (metis fun_upd_apply)

lemma carried_same: "d_pc s' = d_pc s \<Longrightarrow> d_carried s' = d_carried s"
  by (simp add: d_carried_def)

text \<open>A step that only moves a goroutine that carries nothing, before or after.\<close>

lemma accounts_quiet:
  assumes "d_accounts s" "d_carried s' = d_carried s" "d_doh s' = d_doh s" "d_retired s' = d_retired s"
    and "d_lost s' = d_lost s" "d_next s' = d_next s"
  shows "d_accounts s'"
  using assms(1) unfolding d_account_defs assms(2-6) .

lemma accounts_drop:
  assumes "d_accounts s" "d_carried s' = d_carried s" "d_next s' = d_next s" "d_lost s' = d_lost s"
    and "d_doh s' = d_doh s \<and> d_retired s' = d_retired s \<or>
      d_doh s' = None \<and> d_retired s' = d_retired s \<union> set_option (d_doh s)"
  shows "d_accounts s'"
  using assms(5)
proof
  assume "d_doh s' = d_doh s \<and> d_retired s' = d_retired s"
  then show ?thesis by (intro accounts_quiet [OF assms(1,2)]) (simp_all add: assms(3,4))
next
  assume *: "d_doh s' = None \<and> d_retired s' = d_retired s \<union> set_option (d_doh s)"
  show ?thesis
    unfolding d_account_defs conjunct1 [OF *] conjunct2 [OF *] assms(2-4) option.set
    using assms(1) [unfolded d_account_defs] by blast
qed

lemma invalidate_accounts:
  assumes "d_accounts s"
  shows "d_accounts (invalidateDoH x s)"
proof -
  have c: "d_carried (invalidateDoH x s) = d_carried s" by (rule carried_same) simp
  moreover have "d_doh (invalidateDoH x s) = d_doh s \<and> d_retired (invalidateDoH x s) = d_retired s \<or>
    d_doh (invalidateDoH x s) = None \<and> d_retired (invalidateDoH x s) = d_retired s \<union> set_option (d_doh s)"
    by (auto simp: invalidateDoH_def split: option.splits)
  ultimately show ?thesis by (intro accounts_drop [OF assms]) simp_all
qed

lemma d_accounts_step:
  assumes "d_flights s" "d_accounts s" "dstep s s'"
  shows "d_accounts s'"
  using assms(3)
proof cases
  case (live_hit t c s1)
  have "s1 = s" using live_hit(3) by (auto simp: liveDoH_def split: option.splits if_splits)
  with live_hit show ?thesis by (intro accounts_quiet [OF assms(2)] carried_quiet [of _ _ t]) auto
next
  case (live_miss t s1)
  note f = liveDoH_fields [OF live_miss(3)]
  have "d_carried s' = d_carried s" using live_miss f by (intro carried_quiet [of _ _ t "DMissed"]) simp_all
  moreover have "d_next s' = d_next s" "d_lost s' = d_lost s" using f live_miss(1) by simp_all
  moreover have "d_doh s' = d_doh s \<and> d_retired s' = d_retired s \<or>
      d_doh s' = None \<and> d_retired s' = d_retired s \<union> set_option (d_doh s)"
    using f live_miss(1) by auto
  ultimately show ?thesis by (intro accounts_drop [OF assms(2)]) simp_all
next
  case (dial_ok t f)
  from carried_leader [OF assms(1), of t f s' "DGot f (d_next s)"] dial_ok
  have "d_carried s' = {d_next s}" "d_carried s = {}" by simp_all
  moreover have "d_next s \<notin> d_retired s \<union> set_option (d_doh s) \<union> d_lost s"
    using assms(2) by (auto simp: d_account_defs)
  moreover have "d_doh s' = d_doh s" "d_retired s' = d_retired s" "d_lost s' = d_lost s" "d_next s' = Suc (d_next s)"
    using dial_ok(1) by simp_all
  ultimately show ?thesis using assms(2) [unfolded d_account_defs]
    unfolding d_account_defs by (simp only: lessThan_Suc) blast
next
  case (check_open t f c)
  then show ?thesis by (intro accounts_quiet [OF assms(2)] carried_quiet [of _ _ t]) auto
next
  case (check_closed t f c)
  from carried_leader [OF assms(1), of t f s' "DInstall f (Inl DErrClosed)"] check_closed
  have "d_carried s' = {}" "d_carried s = {c}" by simp_all
  moreover have "d_doh s' = d_doh s" "d_retired s' = insert c (d_retired s)" "d_lost s' = d_lost s" "d_next s' = d_next s"
    using check_closed(1) by simp_all
  ultimately show ?thesis using assms(2) [unfolded d_account_defs]
    unfolding d_account_defs by (simp only:) blast
next
  case (install_ok t f c)
  from carried_leader [OF assms(1), of t f s' "DAfter c"] install_ok
  have "d_carried s' = {}" "d_carried s = {c}" by simp_all
  moreover have "d_doh s' = Some c" "d_retired s' = d_retired s" "d_lost s' = d_lost s \<union> set_option (d_doh s)"
    "d_next s' = d_next s"
    using install_ok(1) by simp_all
  ultimately show ?thesis using assms(2) [unfolded d_account_defs]
    unfolding d_account_defs by (simp only: option.set) blast
next
  case (recheck_closed t c)
  from invalidate_accounts [OF assms(2)] have "d_accounts (invalidateDoH (Some c) s)" .
  then show ?thesis by (rule accounts_quiet) (use recheck_closed in \<open>auto intro!: carried_quiet [of _ _ t]\<close>)
next
  case (query_failed c)
  with invalidate_accounts [OF assms(2)] show ?thesis by simp
next
  case reconnected
  with invalidate_accounts [OF assms(2)] show ?thesis by simp
next
  case close_invalidates
  from invalidate_accounts [OF assms(2)] have "d_accounts (invalidateDoH None s)" .
  then show ?thesis by (rule accounts_quiet) (use close_invalidates in \<open>auto intro!: carried_same\<close>)
next
  case (connection_spent c)
  then show ?thesis by (intro accounts_quiet [OF assms(2)] carried_same) auto
next
  case close_marks
  then show ?thesis by (intro accounts_quiet [OF assms(2)] carried_same) auto
next
  case (join t f)
  then show ?thesis by (intro accounts_quiet [OF assms(2)] carried_quiet [of _ _ t]) auto
next
  case (lead t)
  then show ?thesis by (intro accounts_quiet [OF assms(2)] carried_quiet [of _ _ t]) auto
next
  case (wake_err t f e)
  then show ?thesis by (intro accounts_quiet [OF assms(2)] carried_quiet [of _ _ t]) auto
next
  case (wake_ok t f c)
  then show ?thesis by (intro accounts_quiet [OF assms(2)] carried_quiet [of _ _ t]) auto
next
  case (wait_cancelled t f)
  then show ?thesis by (intro accounts_quiet [OF assms(2)] carried_quiet [of _ _ t]) auto
next
  case (dial_fail t f)
  then show ?thesis by (intro accounts_quiet [OF assms(2)] carried_quiet [of _ _ t]) auto
next
  case (install_err t f e)
  then show ?thesis by (intro accounts_quiet [OF assms(2)] carried_quiet [of _ _ t]) auto
next
  case (recheck_open t c)
  then show ?thesis by (intro accounts_quiet [OF assms(2)] carried_quiet [of _ _ t]) auto
next
  case (again t r)
  then show ?thesis by (intro accounts_quiet [OF assms(2)] carried_quiet [of _ _ t]) auto
qed

interpretation doh: custody "\<lambda>s. s = dstate0" dstep "\<lambda>s. d_flights s \<and> d_accounts s" d_made d_retired d_held
proof unfold_locales
  fix s s' :: dstate
  show "s = dstate0 \<Longrightarrow> d_flights s \<and> d_accounts s"
    by (simp add: d_flights_start) (simp add: d_account_defs d_carried_def dstate0_def)
  show "d_flights s \<and> d_accounts s \<Longrightarrow> dstep s s' \<Longrightarrow> d_flights s' \<and> d_accounts s'"
    using d_flights_step d_accounts_step by blast
  show "d_flights s \<and> d_accounts s \<Longrightarrow> d_made s = d_retired s \<union> d_held s"
    "d_flights s \<and> d_accounts s \<Longrightarrow> d_retired s \<inter> d_held s = {}"
    by (simp_all add: d_accounts_def)
qed

section \<open>Properties\<close>

text \<open>C24: dials of the shared DoH connection are coalesced: in every reachable state at most one
  goroutine is dialling or installing, and a goroutine that waits has a flight that either
  has a result to wake it or is led by a running goroutine, which will give it one.\<close>

theorem doh_dials_coalesced:
  assumes "d_reach s"
  shows "(\<forall>t u. leads (d_pc s t) \<noteq> None \<longrightarrow> leads (d_pc s u) \<noteq> None \<longrightarrow> t = u) \<and>
    (\<forall>t f. d_pc s t = DWait f \<longrightarrow>
       d_flight s f \<noteq> None \<or> (\<exists>u. leads (d_pc s u) = Some f \<and> d_dial s = Some f))"
proof -
  have f: "d_flights s" using doh.reach_inv [OF assms] by simp
  have "d_flight s f \<noteq> None \<or> (\<exists>u. leads (d_pc s u) = Some f \<and> d_dial s = Some f)"
    if "d_pc s t = DWait f" for t f
    using d_flightsD(4) [OF f d_flightsD(5) [OF f that]] d_flightsD(1) [OF f] by blast
  then show ?thesis using d_flightsD(2) [OF f] by blast
qed

text \<open>A goroutine that finds no connection, and one that leads a dial up to its install.\<close>

lemma step_miss:
  "d_reach s \<Longrightarrow> d_pc s t = DIdle \<Longrightarrow> d_doh s = None \<Longrightarrow> d_reach (d_goto t DMissed s)"
  by (rule reach_step, assumption, rule live_miss) (simp_all add: liveDoH_def)

definition d_dialled :: "nat \<Rightarrow> dstate \<Rightarrow> dstate" where
  "d_dialled t s =
     d_goto t (DInstall (d_nextf s) (Inr (d_next s)))
       (s\<lparr>d_dial := Some (d_nextf s), d_flight := (d_flight s)(d_nextf s := None),
          d_nextf := Suc (d_nextf s), d_next := Suc (d_next s)\<rparr>)"

lemma step_dialled:
  assumes "d_reach s" "d_pc s t = DMissed" "d_dial s = None" "\<not> d_closed s"
  shows "d_reach (d_dialled t s)"
proof -
  let ?s1 = "d_goto t (DDial (d_nextf s))
      (s\<lparr>d_dial := Some (d_nextf s), d_flight := (d_flight s)(d_nextf s := None), d_nextf := Suc (d_nextf s)\<rparr>)"
  let ?s2 = "d_goto t (DGot (d_nextf s) (d_next s)) (?s1\<lparr>d_next := Suc (d_next s)\<rparr>)"
  let ?s3 = "d_goto t (DInstall (d_nextf s) (Inr (d_next s))) ?s2"
  have 1: "dstep s ?s1" using assms(2,3) by (rule lead)
  have 2: "dstep ?s1 ?s2" using dial_ok [of ?s1 t "d_nextf s"] by simp
  have 3: "dstep ?s2 ?s3" using assms(4) by (intro check_open) simp_all
  have r1: "d_reach ?s1" using assms(1) 1 by (rule reach_step)
  have r2: "d_reach ?s2" using r1 2 by (rule reach_step)
  have r3: "d_reach ?s3" using r2 3 by (rule reach_step)
  have "?s3 = d_dialled t s" by (simp add: d_dialled_def d_goto_def)
  then show ?thesis using r3 by simp
qed

definition d_installed :: "nat \<Rightarrow> nat \<Rightarrow> nat \<Rightarrow> dstate \<Rightarrow> dstate" where
  "d_installed t f c s =
     d_goto t (DAfter c)
       (s\<lparr>d_doh := Some c, d_dial := None, d_flight := (d_flight s)(f \<mapsto> Inr c),
          d_lost := d_lost s \<union> set_option (d_doh s)\<rparr>)"

lemma step_installed:
  "d_reach s \<Longrightarrow> d_pc s t = DInstall f (Inr c) \<Longrightarrow> d_reach (d_installed t f c s)"
  unfolding d_installed_def by (rule reach_step, assumption, rule install_ok)

lemma reach0: "d_reach dstate0"
  by (rule reach_start) (rule refl)

text \<open>The check of \<open>liveDoH\<close> and the start of a dial are not one critical section: a goroutine
  that found no connection can start a second dial after another one has installed its own,
  and then overwrites that connection, which nobody ever closes although the client is open.\<close>

theorem doh_connection_overwritten:
  "\<exists>s c. d_reach s \<and> c \<in> d_lost s \<and> c \<notin> d_retired s \<and> \<not> d_closed s \<and>
     d_doh s \<noteq> Some c \<and> (\<forall>t. c \<notin> carries (d_pc s t)) \<and> c \<notin> d_spent s"
proof -
  let ?s1 = "d_goto 0 DMissed dstate0"
  let ?s2 = "d_dialled 0 ?s1"
  let ?s3 = "d_goto 1 DMissed ?s2"
  let ?s4 = "d_installed 0 0 0 ?s3"
  let ?s5 = "d_dialled 1 ?s4"
  let ?s6 = "d_installed 1 1 1 ?s5"
  note defs = dstate0_def d_dialled_def d_installed_def
  have 1: "d_reach ?s1" by (rule step_miss [OF reach0]) (simp_all add: defs)
  have 2: "d_reach ?s2" by (rule step_dialled [OF 1]) (simp_all add: defs)
  have 3: "d_reach ?s3" by (rule step_miss [OF 2]) (simp_all add: defs)
  have 4: "d_reach ?s4" by (rule step_installed [OF 3]) (simp_all add: defs)
  have 5: "d_reach ?s5" by (rule step_dialled [OF 4]) (simp_all add: defs)
  have 6: "d_reach ?s6" by (rule step_installed [OF 5]) (simp_all add: defs)
  show ?thesis
    by (rule exI [of _ ?s6], rule exI [of _ 0]) (use 6 in \<open>simp add: defs\<close>)
qed

text \<open>\<open>Close\<close> drops the DoH connection before it marks the client closed: a dial that ends in
  between passes both of its checks, and its connection is current, open and unheld after
  \<open>Close\<close> has finished.\<close>

theorem doh_survives_close:
  "\<exists>s c. d_reach s \<and> d_cpc s = DcDone \<and> d_closed s \<and> d_doh s = Some c \<and> c \<notin> d_retired s \<and>
     (\<forall>t. leads (d_pc s t) = None \<and> d_pc s t \<noteq> DAfter c)"
proof -
  let ?s1 = "d_goto 0 DMissed dstate0"
  let ?s2 = "d_dialled 0 ?s1"
  let ?s3 = "invalidateDoH None ?s2\<lparr>d_cpc := DcInvalidated\<rparr>"
  let ?s4 = "d_installed 0 0 0 ?s3"
  let ?s5 = "d_goto 0 (DRet (Inr 0)) ?s4"
  let ?s6 = "?s5\<lparr>d_closed := True, d_cpc := DcDone\<rparr>"
  note defs = dstate0_def d_dialled_def d_installed_def invalidateDoH_def
  have 1: "d_reach ?s1" by (rule step_miss [OF reach0]) (simp_all add: defs)
  have 2: "d_reach ?s2" by (rule step_dialled [OF 1]) (simp_all add: defs)
  have 3: "d_reach ?s3" by (rule reach_step [OF 2 close_invalidates]) (simp add: defs)
  have 4: "d_reach ?s4" by (rule step_installed [OF 3]) (simp add: defs)
  have 5: "d_reach ?s5" by (rule reach_step [OF 4 recheck_open]) (simp_all add: defs)
  have 6: "d_reach ?s6" by (rule reach_step [OF 5 close_marks]) (simp add: defs)
  show ?thesis
    by (rule exI [of _ ?s6], rule exI [of _ 0]) (use 6 in \<open>simp add: defs\<close>)
qed

text \<open>Every DoH connection is accounted for: it is closed, or current, or carried by the one
  goroutine that dialled it, or one of those whose place another one took, and never closed
  while it is current or carried; a dial that ends after \<open>Close\<close> has marked the client is closed by the goroutine that led it.\<close>

theorem doh_connections_accounted:
  assumes "d_reach s"
  shows "{..<d_next s} = d_retired s \<union> d_held s \<and> d_retired s \<inter> d_held s = {} \<and>
    (d_closed s \<longrightarrow> d_pc s t = DGot f c \<longrightarrow>
       (\<forall>s'. dstep s s' \<longrightarrow> d_pc s' t \<noteq> d_pc s t \<longrightarrow> c \<in> d_retired s'))"
proof -
  have inv: "d_flights s" "d_accounts s" using doh.reach_inv [OF assms] by simp_all
  have "c \<in> d_retired s'" if "d_closed s" "d_pc s t = DGot f c" "dstep s s'" "d_pc s' t \<noteq> d_pc s t" for s'
    using that(3)
  proof cases
    case (live_hit u x s1)
    with that liveDoH_fields [OF live_hit(3)] show ?thesis by (auto split: if_splits)
  next
    case (live_miss u s1)
    with that liveDoH_fields [OF live_miss(3)] show ?thesis by (auto split: if_splits)
  qed (use that in \<open>auto split: if_splits\<close>)
  with inv(2) show ?thesis by (auto simp: d_accounts_def d_made_def)
qed

text \<open>Goroutine 0 has dialled connection 0 and is about to install it; goroutine 1 waits for it.\<close>

definition d_demo :: dstate where
  "d_demo = d_goto 1 (DWait 0) (d_goto 1 DMissed (d_dialled 0 (d_goto 0 DMissed dstate0)))"

lemma d_demo_reach: "d_reach d_demo"
proof -
  note defs = dstate0_def d_dialled_def
  have 1: "d_reach (d_goto 0 DMissed dstate0)" by (rule step_miss [OF reach0]) (simp_all add: defs)
  have 2: "d_reach (d_dialled 0 (d_goto 0 DMissed dstate0))" by (rule step_dialled [OF 1]) (simp_all add: defs)
  have 3: "d_reach (d_goto 1 DMissed (d_dialled 0 (d_goto 0 DMissed dstate0)))"
    by (rule step_miss [OF 2]) (simp_all add: defs)
  show ?thesis unfolding d_demo_def by (rule reach_step [OF 3 join]) (simp_all add: defs)
qed

lemma d_demo_fields [simp]:
  "d_pc d_demo 0 = DInstall 0 (Inr 0)" "d_pc d_demo 1 = DWait 0" "d_pc d_demo (Suc 0) = DWait 0"
  "d_flight d_demo 0 = None" "d_next d_demo = 1" "d_closed d_demo = False" "d_retired d_demo = {}"
  by (simp_all add: d_demo_def d_dialled_def dstate0_def)

theorem doh_connections_accounted_witness:
  "d_next d_demo = 1 \<and> d_held d_demo = {0}"
  using doh_connections_accounted [OF d_demo_reach] by (auto simp: lessThan_Suc)

theorem doh_dials_coalesced_witness:
  "d_pc d_demo 1 = DWait 0 \<and> {t. leads (d_pc d_demo t) \<noteq> None} = {0} \<and>
   (\<exists>u. leads (d_pc d_demo u) = Some 0 \<and> d_dial d_demo = Some 0)"
proof -
  note c = doh_dials_coalesced [OF d_demo_reach]
  have "leads (d_pc d_demo 0) \<noteq> None" by simp
  with c have "{t. leads (d_pc d_demo t) \<noteq> None} = {0}" by blast
  moreover have "\<exists>u. leads (d_pc d_demo u) = Some 0 \<and> d_dial d_demo = Some 0"
    using c [THEN conjunct2, rule_format, of 1 0] by simp
  ultimately show ?thesis by simp
qed

end
