(* ===== verification/Dns_Flight.thy ===== *)
theory Dns_Flight
  imports Dns_Resolver Custody
begin

text \<open>
  Concurrent lookups (\<open>resolveDNS\<close>, \<open>tunnel/masque.go\<close>): the cache, and one flight per name that
  others wait on. Any number of goroutines run; a step is what the code does inside one
  critical section or between two. The invariant says that a name is being resolved at most
  once at a time, that no waiter is forgotten, and that an address is only ever handed out
  for the name it was resolved for.
\<close>

type_synonym answer = "qerr option + ip"

datatype fpc =
    FIdle | FMissed string | FWait nat string | FLead nat string | FPublish nat string answer
  | FClean nat string answer | FRet string answer | FCancelled string

text \<open>\<open>f_answers\<close> records what the resolver has answered; \<open>f_result f\<close> is set when \<open>done\<close> of the
  flight \<open>f\<close> is closed.\<close>

record fstate =
  f_cache :: cache
  f_flight :: "string \<Rightarrow> nat option"
  f_result :: "nat \<Rightarrow> answer option"
  f_next :: nat
  f_pc :: "nat \<Rightarrow> fpc"
  f_answers :: "(string \<times> ip) set"

definition f_goto :: "nat \<Rightarrow> fpc \<Rightarrow> fstate \<Rightarrow> fstate" where
  "f_goto t pc s = s\<lparr>f_pc := (f_pc s)(t := pc)\<rparr>"

text \<open>The leader's attempts, as \<open>resolveDNS\<close> makes them, and what it caches.\<close>

definition f_resolve ::
    "clock \<Rightarrow> (string \<Rightarrow> nat \<Rightarrow> qerr + (ip \<times> duration)) \<Rightarrow> (nat \<Rightarrow> bool) \<Rightarrow> string \<Rightarrow> fstate \<Rightarrow> answer \<times> fstate" where
  "f_resolve t query ctx_done host s =
     (case fst (attempts 2 0 (query host) ctx_done None) of
        Inr (ip, ttl) \<Rightarrow>
          (Inr ip, s\<lparr>f_cache := cacheResolution host ip ttl (t_sweep t) (t_store t) (f_cache s),
                     f_answers := insert (host, ip) (f_answers s)\<rparr>)
      | Inl e \<Rightarrow> (Inl e, s))"

inductive fstep :: "fstate \<Rightarrow> fstate \<Rightarrow> bool" where
  cache_hit: "f_pc s t = FIdle \<Longrightarrow> cache_lookup host now (f_cache s) = Some ip \<Longrightarrow>
    fstep s (f_goto t (FRet host (Inr ip)) s)"
| cache_miss: "f_pc s t = FIdle \<Longrightarrow> cache_lookup host now (f_cache s) = None \<Longrightarrow>
    fstep s (f_goto t (FMissed host) s)"
| flight_join: "f_pc s t = FMissed host \<Longrightarrow> f_flight s host = Some f \<Longrightarrow> fstep s (f_goto t (FWait f host) s)"
| flight_lead: "f_pc s t = FMissed host \<Longrightarrow> f_flight s host = None \<Longrightarrow>
    fstep s (f_goto t (FLead (f_next s) host)
      (s\<lparr>f_flight := (f_flight s)(host \<mapsto> f_next s), f_result := (f_result s)(f_next s := None),
         f_next := Suc (f_next s)\<rparr>))"
| flight_answer: "f_pc s t = FLead f host \<Longrightarrow> f_resolve tm query ctx_done host s = (r, s1) \<Longrightarrow>
    fstep s (f_goto t (FPublish f host r) s1)"
| flight_publish: "f_pc s t = FPublish f host r \<Longrightarrow>
    fstep s (f_goto t (FClean f host r) (s\<lparr>f_result := (f_result s)(f \<mapsto> r)\<rparr>))"
| flight_clean: "f_pc s t = FClean f host r \<Longrightarrow>
    fstep s (f_goto t (FRet host r) (s\<lparr>f_flight := (f_flight s)(host := None)\<rparr>))"
| flight_wake: "f_pc s t = FWait f host \<Longrightarrow> f_result s f = Some r \<Longrightarrow> fstep s (f_goto t (FRet host r) s)"
| flight_cancel: "f_pc s t = FWait f host \<Longrightarrow> fstep s (f_goto t (FCancelled host) s)"
| next_call: "f_pc s t = FRet host r \<or> f_pc s t = FCancelled host \<Longrightarrow> fstep s (f_goto t FIdle s)"

definition fstate0 :: fstate where
  "fstate0 = \<lparr>f_cache = [], f_flight = (\<lambda>_. None), f_result = (\<lambda>_. None), f_next = 0,
     f_pc = (\<lambda>_. FIdle), f_answers = {}\<rparr>"

abbreviation f_reach :: "fstate \<Rightarrow> bool" where
  "f_reach \<equiv> reach (\<lambda>s. s = fstate0) fstep"

section \<open>One flight per name\<close>

text \<open>The flight a goroutine leads, with its name, and whether its result is out.\<close>

fun f_leads :: "fpc \<Rightarrow> (nat \<times> string) option" where
  "f_leads (FLead f h) = Some (f, h)"
| "f_leads (FPublish f h r) = Some (f, h)"
| "f_leads (FClean f h r) = Some (f, h)"
| "f_leads _ = None"

fun f_done :: "fpc \<Rightarrow> bool" where
  "f_done (FClean f h r) = True"
| "f_done _ = False"

definition f_flights :: "fstate \<Rightarrow> bool" where
  "f_flights s \<longleftrightarrow>
     (\<forall>t f h. f_leads (f_pc s t) = Some (f, h) \<longrightarrow>
        f_flight s h = Some f \<and> f < f_next s \<and> (f_result s f = None \<longleftrightarrow> \<not> f_done (f_pc s t))) \<and>
     (\<forall>t u f h g k. f_leads (f_pc s t) = Some (f, h) \<longrightarrow> f_leads (f_pc s u) = Some (g, k) \<longrightarrow>
        f = g \<or> h = k \<longrightarrow> t = u) \<and>
     (\<forall>f h. f_flight s h = Some f \<longrightarrow> (\<exists>t. f_leads (f_pc s t) = Some (f, h))) \<and>
     (\<forall>t f h. f_pc s t = FWait f h \<longrightarrow> f < f_next s \<and>
        (f_result s f \<noteq> None \<or> (\<exists>u. f_leads (f_pc s u) = Some (f, h))))"

lemma f_flightsI:
  assumes "\<And>t f h. f_leads (f_pc s t) = Some (f, h) \<Longrightarrow>
        f_flight s h = Some f \<and> f < f_next s \<and> (f_result s f = None \<longleftrightarrow> \<not> f_done (f_pc s t))"
    and "\<And>t u f h g k. f_leads (f_pc s t) = Some (f, h) \<Longrightarrow> f_leads (f_pc s u) = Some (g, k) \<Longrightarrow>
        f = g \<or> h = k \<Longrightarrow> t = u"
    and "\<And>f h. f_flight s h = Some f \<Longrightarrow> \<exists>t. f_leads (f_pc s t) = Some (f, h)"
    and "\<And>t f h. f_pc s t = FWait f h \<Longrightarrow> f < f_next s \<and>
        (f_result s f \<noteq> None \<or> (\<exists>u. f_leads (f_pc s u) = Some (f, h)))"
  shows "f_flights s"
  unfolding f_flights_def using assms by blast

lemma f_flightsD:
  assumes "f_flights s"
  shows "f_leads (f_pc s t) = Some (f, h) \<Longrightarrow>
        f_flight s h = Some f \<and> f < f_next s \<and> (f_result s f = None \<longleftrightarrow> \<not> f_done (f_pc s t))"
    and "f_leads (f_pc s t) = Some (f, h) \<Longrightarrow> f_leads (f_pc s u) = Some (g, k) \<Longrightarrow> f = g \<or> h = k \<Longrightarrow> t = u"
    and "f_flight s h = Some f \<Longrightarrow> \<exists>t. f_leads (f_pc s t) = Some (f, h)"
    and "f_pc s t = FWait f h \<Longrightarrow> f < f_next s \<and>
        (f_result s f \<noteq> None \<or> (\<exists>u. f_leads (f_pc s u) = Some (f, h)))"
  using assms unfolding f_flights_def by blast+

lemma f_goto_fields [simp]:
  "f_cache (f_goto t pc s) = f_cache s" "f_flight (f_goto t pc s) = f_flight s"
  "f_result (f_goto t pc s) = f_result s" "f_next (f_goto t pc s) = f_next s"
  "f_pc (f_goto t pc s) = (f_pc s)(t := pc)" "f_answers (f_goto t pc s) = f_answers s"
  by (simp_all add: f_goto_def)

lemma f_resolve_fields:
  assumes "f_resolve tm q c host s = (r, s1)"
  shows "f_flight s1 = f_flight s \<and> f_result s1 = f_result s \<and> f_next s1 = f_next s \<and> f_pc s1 = f_pc s"
  using assms by (auto simp: f_resolve_def split: sum.splits prod.splits)

text \<open>A step that changes neither who leads what nor what is done, and no flight.\<close>

lemma f_flights_quiet:
  assumes "f_flights s" "f_flight s' = f_flight s" "f_result s' = f_result s" "f_next s' = f_next s"
    and "\<And>u. f_leads (f_pc s' u) = f_leads (f_pc s u)" "\<And>u. f_done (f_pc s' u) = f_done (f_pc s u)"
    and "\<And>u f h. f_pc s' u = FWait f h \<Longrightarrow> f < f_next s \<and>
        (f_result s f \<noteq> None \<or> (\<exists>u. f_leads (f_pc s u) = Some (f, h)))"
  shows "f_flights s'"
  by (rule f_flightsI; unfold assms(2-6)) (fact f_flightsD [OF assms(1)] assms(7))+

lemma f_wait_upd:
  assumes "f_flights s" "\<And>f h. pc \<noteq> FWait f h" "((f_pc s)(t := pc)) u = FWait f h"
  shows "f < f_next s \<and> (f_result s f \<noteq> None \<or> (\<exists>u. f_leads (f_pc s u) = Some (f, h)))"
  using assms f_flightsD(4) [OF assms(1), of u f h] by (auto split: if_splits)

lemma f_flights_step:
  assumes "f_flights s" "fstep s s'"
  shows "f_flights s'"
  using assms(2)
proof cases
  case (flight_join t host f)
  then have j: "f < f_next s \<and> (f_result s f \<noteq> None \<or> (\<exists>u. f_leads (f_pc s u) = Some (f, host)))"
    using f_flightsD(1,3) [OF assms(1)] by blast
  show ?thesis by (rule f_flights_quiet [OF assms(1)])
    (use flight_join j f_flightsD(4) [OF assms(1)] in \<open>auto split: if_splits\<close>)
next
  case (flight_answer t f host tm query ctx_done r s1)
  note fields = f_resolve_fields [OF flight_answer(3)]
  show ?thesis by (rule f_flights_quiet [OF assms(1)])
    (use flight_answer fields f_flightsD(4) [OF assms(1)] in \<open>auto split: if_splits\<close>)
next
  case (flight_lead t host)
  show ?thesis
  proof (rule f_flightsI)
    have none: "f_leads (f_pc s u) \<noteq> Some (f, host)" for u f
      using f_flightsD(1) [OF assms(1), of u f host] flight_lead(3) by auto
    have l: "f_leads (f_pc s' u) = (if u = t then Some (f_next s, host) else f_leads (f_pc s u))" for u
      using flight_lead by simp
    show "f_flight s' h = Some f \<and> f < f_next s' \<and> (f_result s' f = None \<longleftrightarrow> \<not> f_done (f_pc s' u))"
      if "f_leads (f_pc s' u) = Some (f, h)" for u f h
      using that none f_flightsD(1) [OF assms(1), of u f h] flight_lead by (cases "u = t") auto
    have fresh: "f < f_next s" if "f_leads (f_pc s u) = Some (f, h)" for u f h
      using f_flightsD(1) [OF assms(1) that] by blast
    have new: "f_leads (f_pc s u) \<noteq> Some (f_next s, k)" for u k using fresh by blast
    show "u = v" if "f_leads (f_pc s' u) = Some (f, h)" "f_leads (f_pc s' v) = Some (g, k)" "f = g \<or> h = k"
      for u v f h g k
      using that none l new f_flightsD(2) [OF assms(1), of u f h v g k] by (auto split: if_splits)
    show "\<exists>u. f_leads (f_pc s' u) = Some (f, h)" if "f_flight s' h = Some f" for f h
    proof (cases "h = host")
      case True
      with that l [of t] flight_lead show ?thesis by auto
    next
      case False
      with that flight_lead f_flightsD(3) [OF assms(1), of h f] obtain u where "f_leads (f_pc s u) = Some (f, h)"
        by auto
      moreover from this have "u \<noteq> t" using flight_lead(2) by auto
      ultimately show ?thesis using l [of u] by auto
    qed
    show "f < f_next s' \<and> (f_result s' f \<noteq> None \<or> (\<exists>u. f_leads (f_pc s' u) = Some (f, h)))"
      if w: "f_pc s' u = FWait f h" for u f h
    proof -
      have "f_pc s u = FWait f h" using w flight_lead by (auto split: if_splits)
      from f_flightsD(4) [OF assms(1) this] obtain v where
        f: "f < f_next s" "f_result s f \<noteq> None \<or> f_leads (f_pc s v) = Some (f, h)" by blast
      moreover have "v \<noteq> t \<or> f_result s f \<noteq> None" using f flight_lead(2) by auto
      ultimately show ?thesis using l [of v] flight_lead by auto
    qed
  qed
next
  case (flight_publish t f host r)
  show ?thesis
  proof (rule f_flightsI)
    have lt: "f_leads (f_pc s t) = Some (f, host)" using flight_publish(2) by simp
    have l: "f_leads (f_pc s' u) = f_leads (f_pc s u)" for u using flight_publish by simp
    have other: "g \<noteq> f" if "f_leads (f_pc s u) = Some (g, h)" "u \<noteq> t" for u g h
      using f_flightsD(2) [OF assms(1) lt that(1)] that(2) by blast
    show "f_flight s' h = Some g \<and> g < f_next s' \<and> (f_result s' g = None \<longleftrightarrow> \<not> f_done (f_pc s' u))"
      if "f_leads (f_pc s' u) = Some (g, h)" for u g h
      using that l other f_flightsD(1) [OF assms(1), of u g h] flight_publish by (cases "u = t") auto
    show "u = v" if "f_leads (f_pc s' u) = Some (g, h)" "f_leads (f_pc s' v) = Some (g', k)" "g = g' \<or> h = k"
      for u v g h g' k
      using that l f_flightsD(2) [OF assms(1), of u g h v g' k] by simp
    show "\<exists>u. f_leads (f_pc s' u) = Some (g, h)" if "f_flight s' h = Some g" for g h
      using that l f_flightsD(3) [OF assms(1), of h g] flight_publish by simp
    show "g < f_next s' \<and> (f_result s' g \<noteq> None \<or> (\<exists>u. f_leads (f_pc s' u) = Some (g, h)))"
      if w: "f_pc s' u = FWait g h" for u g h
    proof -
      have "f_pc s u = FWait g h" using w flight_publish by (auto split: if_splits)
      from f_flightsD(4) [OF assms(1) this] show ?thesis using l flight_publish by auto
    qed
  qed
next
  case (flight_clean t f host r)
  show ?thesis
  proof (rule f_flightsI)
    have lt: "f_leads (f_pc s t) = Some (f, host)" "f_result s f \<noteq> None"
      using flight_clean(2) f_flightsD(1) [OF assms(1), of t f host] by auto
    have l: "f_leads (f_pc s' u) = (if u = t then None else f_leads (f_pc s u))" for u
      using flight_clean by simp
    have other: "h \<noteq> host \<and> g \<noteq> f" if "f_leads (f_pc s u) = Some (g, h)" "u \<noteq> t" for u g h
      using f_flightsD(2) [OF assms(1) lt(1) that(1)] that(2) by blast
    show "f_flight s' h = Some g \<and> g < f_next s' \<and> (f_result s' g = None \<longleftrightarrow> \<not> f_done (f_pc s' u))"
      if "f_leads (f_pc s' u) = Some (g, h)" for u g h
      using that l other [of u g h] f_flightsD(1) [OF assms(1), of u g h] flight_clean
      by (cases "u = t") auto
    show "u = v" if "f_leads (f_pc s' u) = Some (g, h)" "f_leads (f_pc s' v) = Some (g', k)" "g = g' \<or> h = k"
      for u v g h g' k
      using that l f_flightsD(2) [OF assms(1), of u g h v g' k] by (auto split: if_splits)
    show "\<exists>u. f_leads (f_pc s' u) = Some (g, h)" if "f_flight s' h = Some g" for g h
    proof -
      have h: "h \<noteq> host" "f_flight s h = Some g" using that flight_clean by (auto split: if_splits)
      from f_flightsD(3) [OF assms(1) h(2)] obtain u where u: "f_leads (f_pc s u) = Some (g, h)" by blast
      with h lt(1) have "u \<noteq> t" by auto
      with u l show ?thesis by (intro exI [of _ u]) simp
    qed
    show "g < f_next s' \<and> (f_result s' g \<noteq> None \<or> (\<exists>u. f_leads (f_pc s' u) = Some (g, h)))"
      if w: "f_pc s' u = FWait g h" for u g h
    proof -
      have "f_pc s u = FWait g h" using w flight_clean by (auto split: if_splits)
      from f_flightsD(4) [OF assms(1) this] obtain v where
        g: "g < f_next s" "f_result s g \<noteq> None \<or> f_leads (f_pc s v) = Some (g, h)" by blast
      moreover have "v \<noteq> t \<or> f_result s g \<noteq> None" using g lt by auto
      ultimately show ?thesis using l [of v] flight_clean by auto
    qed
  qed
qed (rule f_flights_quiet [OF assms(1)];
  use f_flightsD(4) [OF assms(1)] in \<open>auto split: if_splits\<close>)+

section \<open>Answers belong to their names\<close>

text \<open>The result a goroutine is about to give or has given, with the name it belongs to.\<close>

fun f_given :: "fpc \<Rightarrow> (string \<times> answer) option" where
  "f_given (FPublish f h r) = Some (h, r)"
| "f_given (FClean f h r) = Some (h, r)"
| "f_given (FRet h r) = Some (h, r)"
| "f_given _ = None"

definition f_sound :: "fstate \<Rightarrow> bool" where
  "f_sound s \<longleftrightarrow>
     cache_ok (f_cache s) \<and>
     (\<forall>h e. map_of (f_cache s) h = Some e \<longrightarrow> (h, e_ip e) \<in> f_answers s) \<and>
     (\<forall>t h ip. f_given (f_pc s t) = Some (h, Inr ip) \<longrightarrow> (h, ip) \<in> f_answers s) \<and>
     (\<forall>t f h r. f_pc s t = FClean f h r \<longrightarrow> f_result s f = Some r) \<and>
     (\<forall>t u f h k. f_pc s t = FWait f h \<longrightarrow> f_leads (f_pc s u) = Some (f, k) \<longrightarrow> k = h) \<and>
     (\<forall>t f h ip. f_pc s t = FWait f h \<longrightarrow> f_result s f = Some (Inr ip) \<longrightarrow> (h, ip) \<in> f_answers s)"

lemma f_soundI:
  assumes "cache_ok (f_cache s)"
    and "\<And>h e. map_of (f_cache s) h = Some e \<Longrightarrow> (h, e_ip e) \<in> f_answers s"
    and "\<And>t h ip. f_given (f_pc s t) = Some (h, Inr ip) \<Longrightarrow> (h, ip) \<in> f_answers s"
    and "\<And>t f h r. f_pc s t = FClean f h r \<Longrightarrow> f_result s f = Some r"
    and "\<And>t u f h k. f_pc s t = FWait f h \<Longrightarrow> f_leads (f_pc s u) = Some (f, k) \<Longrightarrow> k = h"
    and "\<And>t f h ip. f_pc s t = FWait f h \<Longrightarrow> f_result s f = Some (Inr ip) \<Longrightarrow> (h, ip) \<in> f_answers s"
  shows "f_sound s"
  unfolding f_sound_def using assms by blast

lemma f_soundD:
  assumes "f_sound s"
  shows "cache_ok (f_cache s)"
    and "map_of (f_cache s) h = Some e \<Longrightarrow> (h, e_ip e) \<in> f_answers s"
    and "f_given (f_pc s t) = Some (h, Inr ip) \<Longrightarrow> (h, ip) \<in> f_answers s"
    and "f_pc s t = FClean f h r \<Longrightarrow> f_result s f = Some r"
    and "f_pc s t = FWait f h \<Longrightarrow> f_leads (f_pc s u) = Some (f, k) \<Longrightarrow> k = h"
    and "f_pc s t = FWait f h \<Longrightarrow> f_result s f = Some (Inr ip) \<Longrightarrow> (h, ip) \<in> f_answers s"
  using assms unfolding f_sound_def by blast+

text \<open>A step that moves one goroutine, to a place where what it gives and leads is right.\<close>

lemma f_sound_move:
  assumes "f_sound s" "f_cache s' = f_cache s" "f_answers s' = f_answers s" "f_result s' = f_result s"
    and "f_pc s' = (f_pc s)(t := pc)"
    and "\<And>h ip. f_given pc = Some (h, Inr ip) \<Longrightarrow> (h, ip) \<in> f_answers s"
    and "\<And>f h r. pc = FClean f h r \<Longrightarrow> f_result s f = Some r"
    and "\<And>f h u k. pc = FWait f h \<Longrightarrow> f_leads (f_pc s u) = Some (f, k) \<Longrightarrow> k = h"
    and "\<And>f h ip. pc = FWait f h \<Longrightarrow> f_result s f = Some (Inr ip) \<Longrightarrow> (h, ip) \<in> f_answers s"
    and "f_leads pc = f_leads (f_pc s t) \<or> f_leads pc = None"
  shows "f_sound s'"
proof -
  have l: "f_leads (((f_pc s)(t := pc)) u) = Some (f, k) \<Longrightarrow> f_leads (f_pc s u) = Some (f, k)" for u f k
    using assms(10) by (auto split: if_splits)
  show ?thesis
  proof (rule f_soundI; unfold assms(2-5))
    show "k = h" if "((f_pc s)(t := pc)) v = FWait f h" "f_leads (((f_pc s)(t := pc)) u) = Some (f, k)" for v u f h k
      using that(1) assms(8) [OF _ l [OF that(2)]] f_soundD(5) [OF assms(1) _ l [OF that(2)]]
      by (auto split: if_splits)
  qed (use assms(6,7,9) f_soundD [OF assms(1)] in \<open>auto split: if_splits\<close>)
qed

lemma f_resolve_sound:
  assumes "f_sound s" "f_resolve tm q c host s = (r, s1)"
  shows "cache_ok (f_cache s1)" "map_of (f_cache s1) h = Some e \<Longrightarrow> (h, e_ip e) \<in> f_answers s1"
    "f_answers s \<subseteq> f_answers s1" "r = Inr ip \<Longrightarrow> (host, ip) \<in> f_answers s1"
proof -
  have d: "distinct (map fst (f_cache s))" using f_soundD(1) [OF assms(1)] by (simp add: cache_ok_def)
  show "cache_ok (f_cache s1)"
    using assms(2) f_soundD(1) [OF assms(1)] cacheResolution_ok [OF d]
    by (auto simp: f_resolve_def split: sum.splits prod.splits)
  show "map_of (f_cache s1) h = Some e \<Longrightarrow> (h, e_ip e) \<in> f_answers s1"
    using assms(2) f_soundD(2) [OF assms(1), of h e] make_room_map_of [OF d]
    by (auto simp: f_resolve_def cacheResolution_eq [OF d] update_conv' split: sum.splits prod.splits if_splits)
  show "f_answers s \<subseteq> f_answers s1" "r = Inr ip \<Longrightarrow> (host, ip) \<in> f_answers s1"
    using assms(2) by (auto simp: f_resolve_def split: sum.splits prod.splits)
qed

lemma f_sound_step:
  assumes "f_flights s" "f_sound s" "fstep s s'"
  shows "f_sound s'"
  using assms(3)
proof cases
  case (cache_hit t host now ip)
  have "(host, ip) \<in> f_answers s"
    using cache_hit(3) f_soundD(2) [OF assms(2)]
    by (auto simp: cache_lookup_def split: option.splits if_splits)
  then show ?thesis using cache_hit by (intro f_sound_move [OF assms(2), where t = t]) auto
next
  case (cache_miss t host now)
  then show ?thesis by (intro f_sound_move [OF assms(2), where t = t]) auto
next
  case (flight_join t host f)
  from f_flightsD(3) [OF assms(1) flight_join(3)] obtain u where u: "f_leads (f_pc s u) = Some (f, host)" by blast
  have k: "k = host" if "f_leads (f_pc s v) = Some (f, k)" for v k
    using f_flightsD(2) [OF assms(1) u that] u that by auto
  have "(host, ip) \<in> f_answers s" if "f_result s f = Some (Inr ip)" for ip
  proof -
    have "f_done (f_pc s u)" using f_flightsD(1) [OF assms(1) u] that by auto
    then obtain r where pc: "f_pc s u = FClean f host r" using u by (cases "f_pc s u") auto
    then have "r = Inr ip" using f_soundD(4) [OF assms(2) pc] that by simp
    with pc show ?thesis using f_soundD(3) [OF assms(2), of u host ip] by simp
  qed
  with k show ?thesis using flight_join by (intro f_sound_move [OF assms(2), where t = t]) auto
next
  case (flight_lead t host)
  have w: "f < f_next s" if "f_pc s u = FWait f h" for u f h using f_flightsD(4) [OF assms(1) that] by blast
  have c: "f < f_next s" if "f_pc s u = FClean f h r" for u f h r
    using f_flightsD(1) [OF assms(1), of u f h] that by simp
  show ?thesis
  proof (rule f_soundI)
    show "k = h" if "f_pc s' v = FWait f h" "f_leads (f_pc s' u) = Some (f, k)" for v u f h k
      using that flight_lead w [of v f h] f_soundD(5) [OF assms(2), of v f h u k] by (auto split: if_splits)
    show "f_result s' f = Some r" if "f_pc s' v = FClean f h r" for v f h r
      using that flight_lead c [of v f h r] f_soundD(4) [OF assms(2), of v f h r] by (auto split: if_splits)
  qed (use flight_lead f_soundD [OF assms(2)] in \<open>auto split: if_splits\<close>)
next
  case (flight_answer t f host tm query ctx_done r s1)
  note fields = f_resolve_fields [OF flight_answer(3)]
  note rs = f_resolve_sound [OF assms(2) flight_answer(3)]
  have l: "f_leads (f_pc s' u) = f_leads (f_pc s u)" for u using flight_answer fields by simp
  have pc: "f_pc s v = FWait g h" if "f_pc s' v = FWait g h" for v g h
    using that flight_answer fields by (auto split: if_splits)
  show ?thesis
  proof (rule f_soundI)
    show "k = h" if "f_pc s' v = FWait g h" "f_leads (f_pc s' u) = Some (g, k)" for v u g h k
      using f_soundD(5) [OF assms(2) pc [OF that(1)]] that(2) l by simp
    show "(h, ip) \<in> f_answers s'" if "f_given (f_pc s' v) = Some (h, Inr ip)" for v h ip
      using that flight_answer fields rs(3,4) f_soundD(3) [OF assms(2), of v h ip] by (auto split: if_splits)
    show "(h, ip) \<in> f_answers s'" if "f_pc s' v = FWait g h" "f_result s' g = Some (Inr ip)" for v g h ip
      using f_soundD(6) [OF assms(2) pc [OF that(1)], of ip] that(2) flight_answer fields rs(3) by auto
    show "f_result s' g = Some q" if "f_pc s' v = FClean g h q" for v g h q
      using that f_soundD(4) [OF assms(2), of v g h q] flight_answer fields by (auto split: if_splits)
  qed (use flight_answer rs in auto)
next
  case (flight_publish t f host r)
  have lt: "f_leads (f_pc s t) = Some (f, host)" using flight_publish(2) by simp
  have g: "(host, ip) \<in> f_answers s" if "r = Inr ip" for ip
    using f_soundD(3) [OF assms(2), of t host ip] flight_publish(2) that by simp
  have pc: "f_pc s v = FWait g h" if "f_pc s' v = FWait g h" for v g h
    using that flight_publish by (auto split: if_splits)
  have l: "f_leads (f_pc s' u) = f_leads (f_pc s u)" for u using flight_publish by simp
  have other: "g \<noteq> f" if "f_pc s v = FClean g h q" for v g h q
    using f_flightsD(2) [OF assms(1) lt, of v g h] that flight_publish(2) by auto
  show ?thesis
  proof (rule f_soundI)
    show "k = h" if "f_pc s' v = FWait g h" "f_leads (f_pc s' u) = Some (g, k)" for v u g h k
      using f_soundD(5) [OF assms(2) pc [OF that(1)]] that(2) l by simp
    show "(h, ip) \<in> f_answers s'" if "f_pc s' v = FWait g' h" "f_result s' g' = Some (Inr ip)" for v g' h ip
      using f_soundD(6) [OF assms(2) pc [OF that(1)], of ip] f_soundD(5) [OF assms(2) pc [OF that(1)], of t host]
        that(2) lt g flight_publish by (auto split: if_splits)
    show "f_result s' g' = Some q" if "f_pc s' v = FClean g' h q" for v g' h q
      using that f_soundD(4) [OF assms(2), of v g' h q] other [of v g' h q] flight_publish
      by (auto split: if_splits)
  qed (use flight_publish g f_soundD [OF assms(2)] in \<open>auto split: if_splits\<close>)
next
  case (flight_clean t f host r)
  have "(host, ip) \<in> f_answers s" if "r = Inr ip" for ip
    using f_soundD(3) [OF assms(2), of t host ip] flight_clean(2) that by simp
  then show ?thesis using flight_clean by (intro f_sound_move [OF assms(2), where t = t]) auto
next
  case (flight_wake t f host r)
  have "(host, ip) \<in> f_answers s" if "r = Inr ip" for ip
    using f_soundD(6) [OF assms(2) flight_wake(2)] flight_wake(3) that by simp
  then show ?thesis using flight_wake by (intro f_sound_move [OF assms(2), where t = t]) auto
next
  case (flight_cancel t f host)
  then show ?thesis by (intro f_sound_move [OF assms(2), where t = t]) auto
next
  case (next_call t host r)
  then show ?thesis by (intro f_sound_move [OF assms(2), where t = t]) auto
qed

lemma f_start:
  "f_flights fstate0" "f_sound fstate0"
  by (simp_all add: fstate0_def f_flights_def f_sound_def cache_ok_def)

lemma f_reach_inv:
  assumes "f_reach s"
  shows "f_flights s" "f_sound s"
proof -
  have "f_flights s \<and> f_sound s"
    by (rule reach_induct_inv [OF assms]) (use f_start f_flights_step f_sound_step in blast)+
  then show "f_flights s" "f_sound s" by blast+
qed

section \<open>A waiter gets its result\<close>

text \<open>The steps a leader has left before its flight's result is out.\<close>

fun f_left :: "fpc \<Rightarrow> nat" where
  "f_left (FLead f h) = 2"
| "f_left (FPublish f h r) = 1"
| "f_left _ = 0"

text \<open>A leader keeps its flight until the result is out, whatever anybody does, and never has more to
  do than before.\<close>

definition f_serving :: "nat \<Rightarrow> nat \<Rightarrow> string \<Rightarrow> nat \<Rightarrow> fstate \<Rightarrow> bool" where
  "f_serving u f h k s \<longleftrightarrow> f < f_next s \<and>
     (f_result s f \<noteq> None \<or> f_leads (f_pc s u) = Some (f, h) \<and> 0 < f_left (f_pc s u) \<and> f_left (f_pc s u) \<le> k)"

lemma f_serving_step:
  assumes "f_serving u f h k s" "fstep s s'"
  shows "f_serving u f h k s'"
  using assms(2)
proof cases
  case (flight_answer t f' host tm query ctx_done r s1)
  from f_resolve_fields [OF this(3)] assms(1) flight_answer show ?thesis by (auto simp: f_serving_def)
qed (use assms(1) in \<open>auto simp: f_serving_def\<close>)

lemma f_serving_run: "fstep\<^sup>*\<^sup>* s s' \<Longrightarrow> f_serving u f h k s \<Longrightarrow> f_serving u f h k s'"
  by (induction rule: rtranclp_induct) (auto intro: f_serving_step)

text \<open>A leader that is not done can always take its next step, which brings it closer.\<close>

lemma f_leader_moves:
  assumes "f_leads (f_pc s u) = Some (f, h)" "0 < f_left (f_pc s u)"
  shows "\<exists>s'. fstep s s' \<and> (\<forall>v. v \<noteq> u \<longrightarrow> f_pc s' v = f_pc s v) \<and>
    (if f_left (f_pc s u) = 1 then f_result s' f \<noteq> None
     else f_leads (f_pc s' u) = Some (f, h) \<and> f_left (f_pc s' u) < f_left (f_pc s u))"
proof (cases "f_pc s u")
  case (FLead g k)
  obtain r s1 where e: "f_resolve undefined undefined undefined k s = (r, s1)"
    by (cases "f_resolve undefined undefined undefined k s")
  from flight_answer [OF FLead e] f_resolve_fields [OF e] FLead assms(1) show ?thesis
    by (intro exI [of _ "f_goto u (FPublish g k r) s1"]) simp
next
  case (FPublish g k r)
  with flight_publish [OF FPublish] assms(1) show ?thesis
    by (intro exI [of _ "f_goto u (FClean g k r) (s\<lparr>f_result := (f_result s)(g \<mapsto> r)\<rparr>)"]) simp
qed (use assms(2) in auto)

text \<open>Two goroutines ask for one name: the first leads flight 0, the second waits for it.\<close>

definition f_two :: fstate where
  "f_two = f_goto 1 (FWait 0 ''a'') (f_goto 1 (FMissed ''a'') (f_goto 0 (FLead 0 ''a'')
     ((f_goto 0 (FMissed ''a'') fstate0)\<lparr>f_flight := [''a'' \<mapsto> 0], f_result := (\<lambda>_. None)(0 := None), f_next := 1\<rparr>)))"

lemma f_two_pc [simp]: "f_pc f_two 0 = FLead 0 ''a''" "f_pc f_two 1 = FWait 0 ''a''" "f_result f_two 0 = None"
  by (simp_all add: f_two_def)

lemma f_two_reach: "f_reach f_two"
proof -
  let ?a = "f_goto 0 (FMissed ''a'') fstate0"
  let ?b = "f_goto 0 (FLead 0 ''a'') (?a\<lparr>f_flight := [''a'' \<mapsto> 0], f_result := (\<lambda>_. None)(0 := None), f_next := 1\<rparr>)"
  let ?c = "f_goto 1 (FMissed ''a'') ?b"
  have "fstep fstate0 ?a" by (rule cache_miss) (simp_all add: fstate0_def cache_lookup_def)
  moreover have "fstep ?a ?b"
    using flight_lead [of ?a 0 "''a''"] by (simp add: fstate0_def f_goto_def)
  moreover have "fstep ?b ?c" by (rule cache_miss) (simp_all add: fstate0_def cache_lookup_def f_goto_def)
  moreover have "fstep ?c f_two" unfolding f_two_def by (rule flight_join) (simp_all add: f_goto_def)
  ultimately show ?thesis by (intro reach_trans [OF reach_start steps4]) auto
qed

section \<open>Properties\<close>

text \<open>C8: However goroutines interleave, a name is being looked up by at most one of them at a
  time, and that one's flight is the one the table \<open>dnsFlight\<close> holds for the name.\<close>
theorem lookups_coalesced:
  assumes "f_reach s" "f_leads (f_pc s t) = Some (f, h)" "f_leads (f_pc s u) = Some (g, h)"
  shows "t = u \<and> f = g \<and> f_flight s h = Some f"
proof -
  note fl = f_reach_inv(1) [OF assms(1)]
  have "t = u" using f_flightsD(2) [OF fl assms(2,3)] by blast
  with f_flightsD(1) [OF fl assms(2)] assms(2,3) show ?thesis by auto
qed

theorem lookups_coalesced_witness:
  "f_flight f_two ''a'' = Some 0"
  using lookups_coalesced [OF f_two_reach, of 0 0 "''a''" 0 0] by simp

text \<open>C23: However goroutines interleave, an address a call returns for a name is one the
  resolver gave for that very name: through the cache, as the leader of a flight, or from
  somebody else's flight.\<close>
theorem lookup_answers_belong:
  assumes "f_reach s" "f_pc s t = FRet h (Inr ip)"
  shows "(h, ip) \<in> f_answers s"
  using f_soundD(3) [OF f_reach_inv(2) [OF assms(1)], of t h ip] assms(2) by simp

text \<open>C22: no waiter is forgotten. While a goroutine waits for a flight, either the flight's result is
  out, or one goroutine leads the flight and has at most two steps to publish it; and this stays
  so in every run during which the waiter waits: the same leader can always take its next step,
  which brings it closer, nobody can set it back, and as soon as the result is out the waiter can
  return with it.\<close>
theorem lookup_waiter_returns:
  assumes "f_reach s" "f_pc s t = FWait f h"
  shows "\<exists>u. \<forall>s'. fstep\<^sup>*\<^sup>* s s' \<and> f_pc s' t = FWait f h \<longrightarrow>
    (\<exists>r. f_result s' f = Some r \<and> fstep s' (f_goto t (FRet h r) s')) \<or>
    f_leads (f_pc s' u) = Some (f, h) \<and> f_left (f_pc s' u) \<in> {1, 2} \<and>
      (\<exists>s''. fstep s' s'' \<and> (\<forall>v. v \<noteq> u \<longrightarrow> f_pc s'' v = f_pc s' v) \<and>
         (if f_left (f_pc s' u) = 1 then f_result s'' f \<noteq> None
          else f_leads (f_pc s'' u) = Some (f, h) \<and> f_left (f_pc s'' u) < f_left (f_pc s' u)))"
proof -
  note fl = f_reach_inv(1) [OF assms(1)]
  have "\<exists>u. f_serving u f h 2 s"
  proof (cases "f_result s f")
    case None
    with f_flightsD(4) [OF fl assms(2)] obtain u where u: "f_leads (f_pc s u) = Some (f, h)" "f < f_next s" by auto
    with f_flightsD(1) [OF fl u(1)] None have "\<not> f_done (f_pc s u)" by simp
    with u have "f_serving u f h 2 s" by (cases "f_pc s u") (auto simp: f_serving_def)
    then show ?thesis ..
  next
    case (Some r)
    with f_flightsD(4) [OF fl assms(2)] show ?thesis by (auto simp: f_serving_def)
  qed
  then obtain u where "f_serving u f h 2 s" ..
  then have serving: "f_serving u f h 2 s'" if "fstep\<^sup>*\<^sup>* s s'" for s' using f_serving_run [OF that] by blast
  show ?thesis
  proof (intro exI [of _ u] allI impI)
    fix s' assume s': "fstep\<^sup>*\<^sup>* s s' \<and> f_pc s' t = FWait f h"
    show "(\<exists>r. f_result s' f = Some r \<and> fstep s' (f_goto t (FRet h r) s')) \<or>
      f_leads (f_pc s' u) = Some (f, h) \<and> f_left (f_pc s' u) \<in> {1, 2} \<and>
        (\<exists>s''. fstep s' s'' \<and> (\<forall>v. v \<noteq> u \<longrightarrow> f_pc s'' v = f_pc s' v) \<and>
           (if f_left (f_pc s' u) = 1 then f_result s'' f \<noteq> None
            else f_leads (f_pc s'' u) = Some (f, h) \<and> f_left (f_pc s'' u) < f_left (f_pc s' u)))"
    proof (cases "f_result s' f")
      case (Some r)
      with s' flight_wake [of s' t f h r] show ?thesis by blast
    next
      case None
      with serving [of s'] s' have "f_leads (f_pc s' u) = Some (f, h)" "0 < f_left (f_pc s' u)" "f_left (f_pc s' u) \<le> 2"
        by (simp_all add: f_serving_def)
      with f_leader_moves [of s' u f h] show ?thesis by auto
    qed
  qed
qed

theorem lookup_waiter_returns_witness:
  "\<exists>u s'. f_pc f_two 1 = FWait 0 ''a'' \<and> f_leads (f_pc f_two u) = Some (0, ''a'') \<and> fstep f_two s' \<and>
     (f_left (f_pc f_two u) = 1 \<and> f_result s' 0 \<noteq> None \<or> f_left (f_pc s' u) < f_left (f_pc f_two u))"
proof -
  from lookup_waiter_returns [OF f_two_reach f_two_pc(2)] obtain u where
    u: "\<forall>s'. fstep\<^sup>*\<^sup>* f_two s' \<and> f_pc s' 1 = FWait 0 ''a'' \<longrightarrow>
      (\<exists>r. f_result s' 0 = Some r \<and> fstep s' (f_goto 1 (FRet ''a'' r) s')) \<or>
      f_leads (f_pc s' u) = Some (0, ''a'') \<and> f_left (f_pc s' u) \<in> {1, 2} \<and>
        (\<exists>s''. fstep s' s'' \<and> (\<forall>v. v \<noteq> u \<longrightarrow> f_pc s'' v = f_pc s' v) \<and>
           (if f_left (f_pc s' u) = 1 then f_result s'' 0 \<noteq> None
            else f_leads (f_pc s'' u) = Some (0, ''a'') \<and> f_left (f_pc s'' u) < f_left (f_pc s' u)))" by blast
  have "f_pc f_two (Suc 0) = FWait 0 ''a''" using f_two_pc(2) unfolding One_nat_def .
  with u [rule_format, of f_two] show ?thesis by (auto split: if_splits)
qed

text \<open>The same two goroutines after the resolver answered the leader.\<close>

lemma f_two_answer:
  obtains s where "f_reach s" "f_pc s 0 = FRet ''a'' (Inr ip)"
proof -
  have q: "f_resolve \<lparr>t_lookup = 0, t_sweep = 0, t_store = 0\<rparr> (\<lambda>_ _. Inr (ip, 60)) (\<lambda>_. False) ''a'' f_two =
      (Inr ip, snd (f_resolve \<lparr>t_lookup = 0, t_sweep = 0, t_store = 0\<rparr> (\<lambda>_ _. Inr (ip, 60)) (\<lambda>_. False) ''a'' f_two))"
    (is "?r = (_, ?s)")
    by (simp add: f_resolve_def attempts_2)
  note fields = f_resolve_fields [OF q]
  let ?a = "f_goto 0 (FPublish 0 ''a'' (Inr ip)) ?s"
  let ?b = "f_goto 0 (FClean 0 ''a'' (Inr ip)) (?a\<lparr>f_result := (f_result ?a)(0 \<mapsto> Inr ip)\<rparr>)"
  let ?c = "f_goto 0 (FRet ''a'' (Inr ip)) (?b\<lparr>f_flight := (f_flight ?b)(''a'' := None)\<rparr>)"
  have "fstep f_two ?a" by (rule flight_answer [OF f_two_pc(1) q])
  moreover have "fstep ?a ?b" by (rule flight_publish) simp
  moreover have "fstep ?b ?c" by (rule flight_clean) simp
  ultimately have "f_reach ?c" by (intro reach_trans [OF f_two_reach steps3])
  then show ?thesis by (rule that) simp
qed

theorem lookup_answers_belong_witness:
  "\<exists>s. f_reach s \<and> (''a'', [1, 1, 1, 1]) \<in> f_answers s"
  using lookup_answers_belong f_two_answer [of "[1, 1, 1, 1]"] by metis

end
