(* ===== verification/Doh_Dial.thy ===== *)
theory Doh_Dial
  imports Socks_H3
begin

text \<open>
  One attempt to bring up the shared DoH connection (\<open>dialDoH\<close>, \<open>tunnel/masque.go\<close>): a request
  stream, the CONNECT exchange on it, TLS inside it, and the HTTP/2 client on top; and \<open>close\<close> of
  the result. The calls made on the stream and on the TLS connection are logged.
\<close>

datatype doh_call =
    OpenRequestStream | OnStream stream_call | StreamCancelRead | StreamClose
  | TLSSetDeadline int | TLSHandshake | TLSClearDeadline | TLSClose | NewClientConn | ClientClose

datatype doh_error =
    StreamNotOpened | ConnectFailed edge_error | ConnectStatus nat | TLSDeadlineFailed | HandshakeFailed
  | TLSClearFailed | WrongProtocol string | ClientFailed

text \<open>What the stream, TLS and HTTP/2 answer.\<close>

record doh_env =
  de_open :: bool
  de_stream :: "connect_request \<Rightarrow> stream_script"
  de_tls_deadline :: bool
  de_handshake :: bool
  de_tls_clear :: bool
  de_proto :: string
  de_client :: bool

definition dohHandshakeTimeout :: int where
  "dohHandshakeTimeout = 10 * 1000000000"

text \<open>The parts of a connection that are there; \<open>close\<close> skips the others.\<close>

record doh_parts =
  dp_h2 :: bool
  dp_tls :: bool
  dp_stream :: bool

definition doh_release :: "doh_call list" where
  "doh_release = [StreamCancelRead, StreamClose]"

definition doh_close :: "doh_parts option \<Rightarrow> doh_call list" where
  "doh_close d =
     (case d of
        None \<Rightarrow> []
      | Some p \<Rightarrow>
          (if dp_h2 p then [ClientClose] else []) @
          (if dp_tls p then [TLSClose] else []) @
          (if dp_stream p then doh_release else []))"

definition dialDoH ::
    "doh_env \<Rightarrow> string \<Rightarrow> int option \<Rightarrow> int \<Rightarrow> string \<Rightarrow> (doh_error + doh_parts) \<times> doh_call list" where
  "dialDoH env token ctx_deadline now addr =
     (if \<not> de_open env then (Inl StreamNotOpened, [])
      else
        let req = \<lparr>req_target = addr, req_authorization = ''Bearer '' @ token, req_host = None\<rparr>;
            (resp, calls) = connectThroughEdge (de_stream env req) req
               (connectDeadline ctx_deadline now dohHandshakeTimeout);
            acts = OpenRequestStream # map OnStream calls;
            tls = acts @ [TLSSetDeadline (now + dohHandshakeTimeout)] in
        case resp of
          Inl err \<Rightarrow> (Inl (ConnectFailed err), acts @ doh_release)
        | Inr status \<Rightarrow>
            if status \<noteq> 200 then (Inl (ConnectStatus status), acts @ doh_release)
            else if \<not> de_tls_deadline env then (Inl TLSDeadlineFailed, tls @ doh_release)
            else if \<not> de_handshake env then (Inl HandshakeFailed, tls @ [TLSHandshake, TLSClose] @ doh_release)
            else if \<not> de_tls_clear env then
              (Inl TLSClearFailed, tls @ [TLSHandshake, TLSClearDeadline, TLSClose] @ doh_release)
            else if de_proto env \<noteq> ''h2'' then
              (Inl (WrongProtocol (de_proto env)), tls @ [TLSHandshake, TLSClearDeadline, TLSClose] @ doh_release)
            else if \<not> de_client env then
              (Inl ClientFailed, tls @ [TLSHandshake, TLSClearDeadline, NewClientConn, TLSClose] @ doh_release)
            else (Inr \<lparr>dp_h2 = True, dp_tls = True, dp_stream = True\<rparr>,
                  tls @ [TLSHandshake, TLSClearDeadline, NewClientConn]))"

lemma release_not_on_stream:
  "StreamCancelRead \<notin> OnStream ` A" "StreamClose \<notin> OnStream ` A" "TLSHandshake \<notin> OnStream ` A"
  by auto

text \<open>C25: a DoH dial that fails after it opened its stream ends by releasing that stream, and one that
  succeeds releases nothing, runs the handshake under a deadline that it then clears, and hands
  over a connection whose \<open>close\<close> closes the HTTP/2 client and TLS and releases the stream; it
  succeeds only if the server has negotiated HTTP/2.\<close>
theorem dialDoH_releases:
  "(case dialDoH env token ctx now addr of
      (Inl err, calls) \<Rightarrow> if calls = [] then \<not> de_open env
        else (\<exists>pre. calls = pre @ doh_release \<and> hd pre = OpenRequestStream \<and> set doh_release \<inter> set pre = {})
    | (Inr d, calls) \<Rightarrow> set doh_release \<inter> set calls = {} \<and>
        (\<exists>pre. calls = pre @ [TLSSetDeadline (now + dohHandshakeTimeout), TLSHandshake, TLSClearDeadline, NewClientConn]) \<and>
        doh_close (Some d) = [ClientClose, TLSClose] @ doh_release \<and>
        de_proto env = ''h2'')"
proof (cases "de_open env")
  case True
  let ?req = "\<lparr>req_target = addr, req_authorization = ''Bearer '' @ token, req_host = None\<rparr>"
  obtain resp calls where c: "connectThroughEdge (de_stream env ?req) ?req (connectDeadline ctx now dohHandshakeTimeout) =
      (resp, calls)" by fastforce
  show ?thesis
    using True c release_not_on_stream
    by (cases resp) (auto simp: dialDoH_def doh_release_def doh_close_def Let_def)
qed (simp add: dialDoH_def)

end
