(* ===== verification/Tunnel_Relay.thy ===== *)
theory Tunnel_Relay
  imports Custody
begin

text \<open>
  The relays that carry the bytes of a tunnel once it is up: the end of \<open>HandleSOCKS5\<close> of the
  HTTP/3 client (\<open>tunnel/masque.go\<close>), with its single \<open>release\<close> and its grace period after a
  half-close, and that of the HTTP/2 client (\<open>tunnel/h2_socks.go\<close>), which closes both ends as
  soon as one direction is over. A copy is a \<open>Read\<close> into its buffer and a \<open>Write\<close> that waits for the
  room the peer grants, byte by byte; a step is one of these, an end of one side, or one statement
  of the handler, and the two copies and the peers interleave in any order.
\<close>

section \<open>The two ends of a tunnel\<close>

text \<open>What a peer does with its sending direction: still open, closed cleanly, broken.\<close>

datatype sending = Open | Eof | Broken

text \<open>In each direction: the bytes the peer has sent, those of them the relay has not read, those
  \<open>io.Copy\<close> has read and not yet written, how many bytes the other side is still willing to take
  (flow control, or the room in a socket buffer), and those it was given; and whether the handler
  has closed the client's connection and the tunnel.\<close>

record ends =
  up_sent :: bytes
  up_queue :: bytes
  up_held :: bytes
  up_room :: nat
  up_out :: bytes
  client :: sending
  down_sent :: bytes
  down_queue :: bytes
  down_held :: bytes
  down_room :: nat
  down_out :: bytes
  edge :: sending
  closed :: bool

definition ends0 :: ends where
  "ends0 = \<lparr>up_sent = [], up_queue = [], up_held = [], up_room = 0, up_out = [], client = Open,
     down_sent = [], down_queue = [], down_held = [], down_room = 0, down_out = [], edge = Open, closed = False\<rparr>"

text \<open>The peers send, end and make room as they like. A shutdown of the proxy, which closes the client's
  connection, shows here as a client that breaks off.\<close>

inductive peer_step :: "ends \<Rightarrow> ends \<Rightarrow> bool" where
  client_sends: "client e = Open \<Longrightarrow> peer_step e (e\<lparr>up_sent := up_sent e @ [b], up_queue := up_queue e @ [b]\<rparr>)"
| client_ends: "client e = Open \<Longrightarrow> how \<noteq> Open \<Longrightarrow> peer_step e (e\<lparr>client := how\<rparr>)"
| client_takes: "peer_step e (e\<lparr>down_room := Suc (down_room e)\<rparr>)"
| edge_sends: "edge e = Open \<Longrightarrow> peer_step e (e\<lparr>down_sent := down_sent e @ [b], down_queue := down_queue e @ [b]\<rparr>)"
| edge_ends: "edge e = Open \<Longrightarrow> how \<noteq> Open \<Longrightarrow> peer_step e (e\<lparr>edge := how\<rparr>)"
| edge_takes: "peer_step e (e\<lparr>up_room := Suc (up_room e)\<rparr>)"

text \<open>One \<open>Read\<close> of \<open>io.Copy\<close>, of at most \<open>n\<close> bytes, and one byte of its \<open>Write\<close>, which waits for room.\<close>

definition read_up :: "nat \<Rightarrow> ends \<Rightarrow> ends option" where
  "read_up n e =
     (if closed e \<or> up_held e \<noteq> [] \<or> up_queue e = [] \<or> n = 0 \<or> client e = Broken then None
      else Some (e\<lparr>up_held := take n (up_queue e), up_queue := drop n (up_queue e)\<rparr>))"

definition write_up :: "ends \<Rightarrow> ends option" where
  "write_up e =
     (case up_held e of
        b # h \<Rightarrow> if up_room e = 0 then None
                 else Some (e\<lparr>up_held := h, up_room := up_room e - 1, up_out := up_out e @ [b]\<rparr>)
      | [] \<Rightarrow> None)"

definition read_down :: "nat \<Rightarrow> ends \<Rightarrow> ends option" where
  "read_down n e =
     (if closed e \<or> down_held e \<noteq> [] \<or> down_queue e = [] \<or> n = 0 \<or> edge e = Broken then None
      else Some (e\<lparr>down_held := take n (down_queue e), down_queue := drop n (down_queue e)\<rparr>))"

definition write_down :: "ends \<Rightarrow> ends option" where
  "write_down e =
     (case down_held e of
        b # h \<Rightarrow> if closed e \<or> down_room e = 0 then None
                 else Some (e\<lparr>down_held := h, down_room := down_room e - 1, down_out := down_out e @ [b]\<rparr>)
      | [] \<Rightarrow> None)"

text \<open>How a copy ends: with the end of its source, or with the error of a \<open>Read\<close> or \<open>Write\<close> in
  progress. A \<open>Write\<close> to the tunnel that waits for room does not notice what becomes of the client.\<close>

definition up_finished :: "ends \<Rightarrow> bool" where
  "up_finished e \<longleftrightarrow> \<not> closed e \<and> up_held e = [] \<and> up_queue e = [] \<and> client e = Eof"

definition down_finished :: "ends \<Rightarrow> bool" where
  "down_finished e \<longleftrightarrow> \<not> closed e \<and> down_held e = [] \<and> down_queue e = [] \<and> edge e = Eof"

definition up_broken :: "ends \<Rightarrow> bool" where
  "up_broken e \<longleftrightarrow> (if up_held e = [] then closed e \<or> client e = Broken else edge e = Broken)"

definition down_broken :: "ends \<Rightarrow> bool" where
  "down_broken e \<longleftrightarrow> closed e \<or> (if down_held e = [] then edge e = Broken else client e = Broken)"

text \<open>A \<open>Write\<close> to the tunnel during which the handler closes it. For QUIC it is not specified whether it
  returns; a TCP connection's does.\<close>

definition up_cut :: "ends \<Rightarrow> bool" where
  "up_cut e \<longleftrightarrow> up_held e \<noteq> [] \<and> closed e"

lemmas copy_defs = read_up_def write_up_def read_down_def write_down_def

section \<open>The HTTP/3 relay\<close>

text \<open>The handler's own goroutine: copying, draining after a clean half-close, waiting for the other
  copy, gone. The other copy: copying, about to release, gone (\<open>drained\<close> is closed).\<close>

datatype upward = Copying | Draining | Joining | Ended

datatype downward = Pulling | Releasing | Drained

text \<open>\<open>x_failed\<close> records that a copy ended with an error that the handler had not caused itself,
  \<open>x_graced\<close> that the grace period ran out, \<open>x_halfclosed\<close> that the send side was closed after the
  client's last byte.\<close>

record h3relay =
  x_ends :: ends
  x_up :: upward
  x_down :: downward
  x_released :: nat
  x_halfclosed :: bool
  x_graced :: bool
  x_failed :: bool

text \<open>\<open>release\<close> through its \<open>sync.Once\<close>: it cancels the read side, closes the send side and closes the
  client's connection, the first time it is called.\<close>

definition release :: "h3relay \<Rightarrow> h3relay" where
  "release s =
     (if closed (x_ends s) then s
      else s\<lparr>x_ends := (x_ends s)\<lparr>closed := True\<rparr>, x_released := Suc (x_released s)\<rparr>)"

inductive h3_relay_step :: "h3relay \<Rightarrow> h3relay \<Rightarrow> bool" where
  h3_peer: "peer_step (x_ends s) e \<Longrightarrow> h3_relay_step s (s\<lparr>x_ends := e\<rparr>)"
| h3_copy_up: "x_up s = Copying \<Longrightarrow> read_up n (x_ends s) = Some e \<or> write_up (x_ends s) = Some e \<Longrightarrow>
    h3_relay_step s (s\<lparr>x_ends := e\<rparr>)"
| h3_copy_down: "x_down s = Pulling \<Longrightarrow> read_down n (x_ends s) = Some e \<or> write_down (x_ends s) = Some e \<Longrightarrow>
    h3_relay_step s (s\<lparr>x_ends := e\<rparr>)"
| h3_client_error: "x_up s = Copying \<Longrightarrow> up_broken (x_ends s) \<or> up_cut (x_ends s) \<Longrightarrow>
    h3_relay_step s (release (s\<lparr>x_up := Joining, x_failed := x_failed s \<or> \<not> closed (x_ends s)\<rparr>))"
| h3_client_eof: "x_up s = Copying \<Longrightarrow> up_finished (x_ends s) \<Longrightarrow>
    h3_relay_step s (s\<lparr>x_up := Draining, x_halfclosed := True\<rparr>)"
| h3_drained: "x_up s = Draining \<Longrightarrow> x_down s = Drained \<Longrightarrow> h3_relay_step s (s\<lparr>x_up := Joining\<rparr>)"
| h3_grace: "x_up s = Draining \<Longrightarrow> h3_relay_step s (release (s\<lparr>x_up := Joining, x_graced := True\<rparr>))"
| h3_join: "x_up s = Joining \<Longrightarrow> x_down s = Drained \<Longrightarrow> h3_relay_step s (release (s\<lparr>x_up := Ended\<rparr>))"
| h3_down_over: "x_down s = Pulling \<Longrightarrow> down_finished (x_ends s) \<Longrightarrow> h3_relay_step s (s\<lparr>x_down := Releasing\<rparr>)"
| h3_down_error: "x_down s = Pulling \<Longrightarrow> down_broken (x_ends s) \<Longrightarrow>
    h3_relay_step s (s\<lparr>x_down := Releasing, x_failed := x_failed s \<or> \<not> closed (x_ends s)\<rparr>)"
| h3_down_release: "x_down s = Releasing \<Longrightarrow> h3_relay_step s (release (s\<lparr>x_down := Drained\<rparr>))"

definition h3relay0 :: h3relay where
  "h3relay0 = \<lparr>x_ends = ends0, x_up = Copying, x_down = Pulling, x_released = 0, x_halfclosed = False,
     x_graced = False, x_failed = False\<rparr>"

abbreviation x_reach :: "h3relay \<Rightarrow> bool" where
  "x_reach \<equiv> reach (\<lambda>s. s = h3relay0) h3_relay_step"

section \<open>The HTTP/2 relay\<close>

text \<open>Each copy runs or has sent its result; the handler waits for the first result, then for the
  second, then returns.\<close>

datatype awaiting = First | Second | Returned

record h2relay =
  y_ends :: ends
  y_up :: bool
  y_down :: bool
  y_results :: nat
  y_main :: awaiting

inductive h2_relay_step :: "h2relay \<Rightarrow> h2relay \<Rightarrow> bool" where
  h2_peer: "peer_step (y_ends s) e \<Longrightarrow> h2_relay_step s (s\<lparr>y_ends := e\<rparr>)"
| h2_copy_up: "y_up s \<Longrightarrow> read_up n (y_ends s) = Some e \<or> write_up (y_ends s) = Some e \<Longrightarrow>
    h2_relay_step s (s\<lparr>y_ends := e\<rparr>)"
| h2_copy_down: "y_down s \<Longrightarrow> read_down n (y_ends s) = Some e \<or> write_down (y_ends s) = Some e \<Longrightarrow>
    h2_relay_step s (s\<lparr>y_ends := e\<rparr>)"
| h2_up_over: "y_up s \<Longrightarrow> up_finished (y_ends s) \<or> up_broken (y_ends s) \<or> up_cut (y_ends s) \<Longrightarrow>
    h2_relay_step s (s\<lparr>y_up := False, y_results := Suc (y_results s)\<rparr>)"
| h2_down_over: "y_down s \<Longrightarrow> down_finished (y_ends s) \<or> down_broken (y_ends s) \<Longrightarrow>
    h2_relay_step s (s\<lparr>y_down := False, y_results := Suc (y_results s)\<rparr>)"
| h2_first: "y_main s = First \<Longrightarrow> y_results s = Suc n \<Longrightarrow>
    h2_relay_step s (s\<lparr>y_results := n, y_main := Second, y_ends := (y_ends s)\<lparr>closed := True\<rparr>\<rparr>)"
| h2_second: "y_main s = Second \<Longrightarrow> y_results s = Suc n \<Longrightarrow>
    h2_relay_step s (s\<lparr>y_results := n, y_main := Returned\<rparr>)"

definition h2relay0 :: h2relay where
  "h2relay0 = \<lparr>y_ends = ends0, y_up = True, y_down = True, y_results = 0, y_main = First\<rparr>"

abbreviation y_reach :: "h2relay \<Rightarrow> bool" where
  "y_reach \<equiv> reach (\<lambda>s. s = h2relay0) h2_relay_step"

section \<open>The bytes\<close>

text \<open>Nothing is invented, reordered or duplicated in either direction.\<close>

definition faithful :: "ends \<Rightarrow> bool" where
  "faithful e \<longleftrightarrow> up_sent e = up_out e @ up_held e @ up_queue e \<and>
     down_sent e = down_out e @ down_held e @ down_queue e"

lemma faithful_peer: "faithful e \<Longrightarrow> peer_step e e' \<Longrightarrow> faithful e'"
  by (erule peer_step.cases) (auto simp: faithful_def)

lemma faithful_up: "faithful e \<Longrightarrow> read_up n e = Some e' \<or> write_up e = Some e' \<Longrightarrow> faithful e'"
  by (auto simp: faithful_def copy_defs split: list.splits if_splits)

lemma faithful_down: "faithful e \<Longrightarrow> read_down n e = Some e' \<or> write_down e = Some e' \<Longrightarrow> faithful e'"
  by (auto simp: faithful_def copy_defs split: list.splits if_splits)

lemma faithful_closed [simp]: "faithful (e\<lparr>closed := True\<rparr>) = faithful e"
  by (simp add: faithful_def)

lemma release_fields [simp]:
  "x_up (release s) = x_up s" "x_down (release s) = x_down s" "x_halfclosed (release s) = x_halfclosed s"
  "x_graced (release s) = x_graced s" "x_failed (release s) = x_failed s"
  "closed (x_ends (release s))" "faithful (x_ends (release s)) = faithful (x_ends s)"
  "down_queue (x_ends (release s)) = down_queue (x_ends s)" "edge (x_ends (release s)) = edge (x_ends s)"
  "client (x_ends (release s)) = client (x_ends s)" "up_queue (x_ends (release s)) = up_queue (x_ends s)"
  "up_held (x_ends (release s)) = up_held (x_ends s)" "down_held (x_ends (release s)) = down_held (x_ends s)"
  "up_room (x_ends (release s)) = up_room (x_ends s)" "down_room (x_ends (release s)) = down_room (x_ends s)"
  by (auto simp: release_def)

lemma h3_faithful_step: "faithful (x_ends s) \<Longrightarrow> h3_relay_step s s' \<Longrightarrow> faithful (x_ends s')"
  by (erule h3_relay_step.cases) (auto dest: faithful_peer faithful_up faithful_down)

lemma h2_faithful_step: "faithful (y_ends s) \<Longrightarrow> h2_relay_step s s' \<Longrightarrow> faithful (y_ends s')"
  by (erule h2_relay_step.cases) (auto dest: faithful_peer faithful_up faithful_down)

section \<open>Release and drain\<close>

text \<open>The tunnel is released once, when it is closed; a tunnel that nobody broke off is closed only
  after the edge's last byte has been delivered.\<close>

definition x_inv :: "h3relay \<Rightarrow> bool" where
  "x_inv s \<longleftrightarrow>
     x_released s = (if closed (x_ends s) then 1 else 0) \<and>
     (x_down s = Drained \<or> x_up s = Joining \<or> x_up s = Ended \<longrightarrow> closed (x_ends s)) \<and>
     (x_up s = Ended \<longrightarrow> x_down s = Drained) \<and>
     (x_halfclosed s \<longrightarrow> client (x_ends s) = Eof \<and> up_held (x_ends s) = [] \<and> up_queue (x_ends s) = []) \<and>
     (x_down s \<noteq> Pulling \<or> closed (x_ends s) \<longrightarrow>
        x_graced s \<or> x_failed s \<or>
        edge (x_ends s) = Eof \<and> down_held (x_ends s) = [] \<and> down_queue (x_ends s) = [])"

lemma x_inv_peer:
  assumes "x_inv s" "peer_step (x_ends s) e"
  shows "x_inv (s\<lparr>x_ends := e\<rparr>)"
  using assms(2) by cases (use assms(1) in \<open>auto simp: x_inv_def\<close>)

lemma x_inv_release:
  assumes "x_inv s" "x_down s \<noteq> Pulling \<or> x_graced t \<or> x_failed t" "x_ends t = x_ends s" "x_released t = x_released s"
    and "x_up t = Ended \<Longrightarrow> x_down t = Drained" "x_halfclosed t = x_halfclosed s"
    and "x_graced s \<longrightarrow> x_graced t" "x_failed s \<longrightarrow> x_failed t"
  shows "x_inv (release t)"
  using assms by (auto simp: x_inv_def release_def)

lemma x_inv_step:
  assumes "x_inv s" "h3_relay_step s s'"
  shows "x_inv s'"
  using assms(2)
proof cases
  case (h3_peer e)
  then show ?thesis using x_inv_peer [OF assms(1)] by simp
next
  case (h3_copy_up n e)
  then show ?thesis using assms(1) by (auto simp: x_inv_def copy_defs split: list.splits if_splits)
next
  case (h3_copy_down n e)
  then show ?thesis using assms(1) by (auto simp: x_inv_def copy_defs split: list.splits if_splits)
next
  case h3_client_error
  then show ?thesis using assms(1) by (cases "closed (x_ends s)") (auto simp: x_inv_def release_def)
next
  case h3_client_eof
  then show ?thesis using assms(1) by (auto simp: x_inv_def up_finished_def)
next
  case h3_drained
  then show ?thesis using assms(1) by (auto simp: x_inv_def)
next
  case h3_grace
  then show ?thesis using assms(1) by (auto simp: x_inv_def release_def)
next
  case h3_join
  then show ?thesis using assms(1) by (auto simp: x_inv_def release_def)
next
  case h3_down_over
  then show ?thesis using assms(1) by (auto simp: x_inv_def down_finished_def)
next
  case h3_down_error
  then show ?thesis using assms(1) by (auto simp: x_inv_def)
next
  case h3_down_release
  then show ?thesis using assms(1) by (auto simp: x_inv_def release_def)
qed

lemma x_reach_inv:
  assumes "x_reach s"
  shows "x_inv s \<and> faithful (x_ends s)"
proof
  show "x_inv s"
    by (rule reach_induct_inv [OF assms]) (simp add: x_inv_def h3relay0_def ends0_def, rule x_inv_step)
  show "faithful (x_ends s)"
    by (rule reach_induct_inv [where ok = "\<lambda>s. faithful (x_ends s)", OF assms])
      (simp add: h3relay0_def ends0_def faithful_def, rule h3_faithful_step)
qed

section \<open>The handler ends\<close>

text \<open>A step of the handler that does not wait for a peer: the peers do nothing, and a \<open>Write\<close> that
  waits for room while the tunnel is closed under it is not relied upon to return.\<close>

definition handler_step :: "h3relay \<Rightarrow> h3relay \<Rightarrow> bool" where
  "handler_step s s' \<longleftrightarrow> h3_relay_step s s' \<and> client (x_ends s') = client (x_ends s) \<and>
     edge (x_ends s') = edge (x_ends s) \<and> up_sent (x_ends s') = up_sent (x_ends s) \<and>
     down_sent (x_ends s') = down_sent (x_ends s) \<and> up_room (x_ends s') \<le> up_room (x_ends s) \<and>
     down_room (x_ends s') \<le> down_room (x_ends s) \<and>
     (x_up s = Copying \<longrightarrow> up_cut (x_ends s) \<longrightarrow> \<not> up_broken (x_ends s) \<longrightarrow> x_up s' = Copying)"

text \<open>The handler's own goroutine is in a \<open>Write\<close> to an edge that takes no more bytes but has not
  broken off.\<close>

definition hangs :: "h3relay \<Rightarrow> bool" where
  "hangs s \<longleftrightarrow> x_up s = Copying \<and> up_held (x_ends s) \<noteq> [] \<and> up_room (x_ends s) = 0 \<and> edge (x_ends s) \<noteq> Broken"

fun up_weight :: "upward \<Rightarrow> nat" where
  "up_weight Copying = 3" | "up_weight Draining = 2" | "up_weight Joining = 1" | "up_weight Ended = 0"

fun down_weight :: "downward \<Rightarrow> nat" where
  "down_weight Pulling = 2" | "down_weight Releasing = 1" | "down_weight Drained = 0"

text \<open>The stages of the two goroutines, ordered by how much is left of them.\<close>

instantiation upward :: linorder
begin

definition less_eq_upward :: "upward \<Rightarrow> upward \<Rightarrow> bool" where
  "a \<le> b \<longleftrightarrow> up_weight b \<le> up_weight a"

definition less_upward :: "upward \<Rightarrow> upward \<Rightarrow> bool" where
  "a < b \<longleftrightarrow> up_weight b < up_weight a"

instance
proof
  fix a b :: upward
  assume "a \<le> b" "b \<le> a"
  then show "a = b" by (cases a; cases b) (simp_all add: less_eq_upward_def)
qed (auto simp: less_eq_upward_def less_upward_def)

end

instantiation downward :: linorder
begin

definition less_eq_downward :: "downward \<Rightarrow> downward \<Rightarrow> bool" where
  "a \<le> b \<longleftrightarrow> down_weight b \<le> down_weight a"

definition less_downward :: "downward \<Rightarrow> downward \<Rightarrow> bool" where
  "a < b \<longleftrightarrow> down_weight b < down_weight a"

instance
proof
  fix a b :: downward
  assume "a \<le> b" "b \<le> a"
  then show "a = b" by (cases a; cases b) (simp_all add: less_eq_downward_def)
qed (auto simp: less_eq_downward_def less_downward_def)

end

lemmas stage_orders = less_eq_upward_def less_upward_def less_eq_downward_def less_downward_def

text \<open>No step takes a goroutine back to an earlier stage, reopens the tunnel, or takes back a byte.\<close>

lemma h3_relay_advances:
  assumes "h3_relay_step s s'"
  shows "x_up s \<le> x_up s' \<and> x_down s \<le> x_down s' \<and> (closed (x_ends s) \<longrightarrow> closed (x_ends s'))"
  using assms
proof cases
  case (h3_peer e)
  from h3_peer(2) show ?thesis by cases (simp_all add: h3_peer(1))
qed (auto simp: stage_orders copy_defs split: list.splits if_splits)

lemma h3_relay_advances_run:
  "h3_relay_step\<^sup>*\<^sup>* s s' \<Longrightarrow>
     x_up s \<le> x_up s' \<and> x_down s \<le> x_down s' \<and> (closed (x_ends s) \<longrightarrow> closed (x_ends s'))"
  by (induction rule: rtranclp_induct) (auto dest: h3_relay_advances intro: order_trans)

text \<open>What the handler has left to do: the stages, and the bytes it may still copy.\<close>

definition x_weight :: "h3relay \<Rightarrow> nat" where
  "x_weight s = up_weight (x_up s) + down_weight (x_down s) +
     2 * length (up_queue (x_ends s)) + length (up_held (x_ends s)) +
     2 * length (down_queue (x_ends s)) + length (down_held (x_ends s))"

lemma peer_step_visible:
  "peer_step e e' \<Longrightarrow> client e' = client e \<Longrightarrow> edge e' = edge e \<Longrightarrow> up_sent e' = up_sent e \<Longrightarrow>
     down_sent e' = down_sent e \<Longrightarrow> up_room e' \<le> up_room e \<Longrightarrow> down_room e < down_room e'"
  by (erule peer_step.cases) auto

lemma copy_up_less:
  "read_up n e = Some e' \<or> write_up e = Some e' \<Longrightarrow>
     2 * length (up_queue e') + length (up_held e') < 2 * length (up_queue e) + length (up_held e) \<and>
     down_queue e' = down_queue e \<and> down_held e' = down_held e"
  by (cases "up_queue e"; cases n) (auto simp: copy_defs split: list.splits if_splits)

lemma copy_down_less:
  "read_down n e = Some e' \<or> write_down e = Some e' \<Longrightarrow>
     2 * length (down_queue e') + length (down_held e') < 2 * length (down_queue e) + length (down_held e) \<and>
     up_queue e' = up_queue e \<and> up_held e' = up_held e"
  by (cases "down_queue e"; cases n) (auto simp: copy_defs split: list.splits if_splits)

lemma handler_decreases:
  assumes "handler_step s s'"
  shows "x_weight s' < x_weight s"
proof -
  have "h3_relay_step s s'" using assms by (simp add: handler_step_def)
  then show ?thesis
  proof cases
    case (h3_peer e)
    with assms peer_step_visible [OF h3_peer(2)] show ?thesis by (simp add: handler_step_def)
  next
    case (h3_copy_up n e)
    with copy_up_less [OF h3_copy_up(3)] show ?thesis by (simp add: x_weight_def)
  next
    case (h3_copy_down n e)
    with copy_down_less [OF h3_copy_down(3)] show ?thesis by (simp add: x_weight_def)
  qed (auto simp: x_weight_def)
qed

lemma handler_runs_end: "(handler_step ^^ n) s t \<Longrightarrow> n + x_weight t \<le> x_weight s"
proof (induction n arbitrary: t)
  case (Suc n)
  then obtain m where m: "(handler_step ^^ n) s m" "handler_step m t" by auto
  from Suc.IH [OF m(1)] handler_decreases [OF m(2)] show ?case by simp
qed simp

lemma release_sent [simp]:
  "up_sent (x_ends (release s)) = up_sent (x_ends s)" "down_sent (x_ends (release s)) = down_sent (x_ends s)"
  by (auto simp: release_def)

lemma handler_progress:
  assumes "x_inv s" "client (x_ends s) \<noteq> Open" "x_up s \<noteq> Ended" "\<not> hangs s"
  shows "\<exists>s'. handler_step s s'"
proof (cases "x_up s")
  case Copying
  consider "up_broken (x_ends s)" | b h where "\<not> up_broken (x_ends s)" "up_held (x_ends s) = b # h" "up_room (x_ends s) \<noteq> 0"
    | "\<not> up_broken (x_ends s)" "up_held (x_ends s) = []" "\<not> closed (x_ends s)" "client (x_ends s) = Eof"
    using assms(2,4) Copying
    by (cases "up_held (x_ends s)"; cases "client (x_ends s)") (auto simp: hangs_def up_broken_def split: if_splits)
  then show ?thesis
  proof cases
    case 1
    with h3_client_error [OF Copying] Copying show ?thesis
      by (intro exI [of _ "release (s\<lparr>x_up := Joining, x_failed := x_failed s \<or> \<not> closed (x_ends s)\<rparr>)"])
        (simp add: handler_step_def)
  next
    case (2 b h)
    let ?e = "(x_ends s)\<lparr>up_held := h, up_room := up_room (x_ends s) - 1, up_out := up_out (x_ends s) @ [b]\<rparr>"
    have "write_up (x_ends s) = Some ?e" using 2 by (simp add: write_up_def)
    with h3_copy_up [OF Copying] Copying show ?thesis
      by (intro exI [of _ "s\<lparr>x_ends := ?e\<rparr>"]) (simp add: handler_step_def)
  next
    case 3
    show ?thesis
    proof (cases "up_queue (x_ends s)")
      case Nil
      with 3 have "up_finished (x_ends s)" by (simp add: up_finished_def)
      with h3_client_eof [OF Copying] 3 show ?thesis
        by (intro exI [of _ "s\<lparr>x_up := Draining, x_halfclosed := True\<rparr>"]) (simp add: handler_step_def up_cut_def)
    next
      case (Cons b q)
      let ?e = "(x_ends s)\<lparr>up_held := [b], up_queue := q\<rparr>"
      have "read_up 1 (x_ends s) = Some ?e" using 3 Cons by (simp add: read_up_def)
      with h3_copy_up [OF Copying, of 1 ?e] Copying show ?thesis
        by (intro exI [of _ "s\<lparr>x_ends := ?e\<rparr>"]) (simp add: handler_step_def)
    qed
  qed
next
  case Draining
  from h3_grace [OF this] Draining show ?thesis
    by (intro exI [of _ "release (s\<lparr>x_up := Joining, x_graced := True\<rparr>)"]) (simp add: handler_step_def)
next
  case Joining
  then have c: "closed (x_ends s)" using assms(1) by (simp add: x_inv_def)
  show ?thesis
  proof (cases "x_down s")
    case Pulling
    from c have "down_broken (x_ends s)" by (simp add: down_broken_def)
    from h3_down_error [OF Pulling this] Pulling show ?thesis
      by (intro exI [of _ "s\<lparr>x_down := Releasing, x_failed := x_failed s \<or> \<not> closed (x_ends s)\<rparr>"])
        (simp add: handler_step_def)
  next
    case Releasing
    from h3_down_release [OF this] Releasing show ?thesis
      by (intro exI [of _ "release (s\<lparr>x_down := Drained\<rparr>)"]) (simp add: handler_step_def)
  next
    case Drained
    from h3_join [OF Joining this] Joining show ?thesis
      by (intro exI [of _ "release (s\<lparr>x_up := Ended\<rparr>)"]) (simp add: handler_step_def)
  qed
qed (use assms(3) in simp)

section \<open>Properties\<close>

text \<open>C7: the relay of the HTTP/3 backend delivers in each direction a prefix of what was sent, and
  closes the send side only when the edge has been given the client's last byte. When the handler
  ends the tunnel has been released exactly once; and unless a copy failed or the grace period
  ran out after a half-close, the client has been given everything the edge sent. (What the client
  still sends after the edge has finished is dropped.)\<close>
theorem h3_relay_delivers:
  assumes "x_reach s"
  shows "up_sent (x_ends s) = up_out (x_ends s) @ up_held (x_ends s) @ up_queue (x_ends s) \<and>
    down_sent (x_ends s) = down_out (x_ends s) @ down_held (x_ends s) @ down_queue (x_ends s) \<and>
    (x_halfclosed s \<longrightarrow> client (x_ends s) = Eof \<and> up_out (x_ends s) = up_sent (x_ends s)) \<and>
    (x_up s = Ended \<longrightarrow> x_released s = 1 \<and>
       (x_graced s \<or> x_failed s \<or> edge (x_ends s) = Eof \<and> down_out (x_ends s) = down_sent (x_ends s)))"
  using x_reach_inv [OF assms] by (auto simp: x_inv_def faithful_def)

text \<open>A tunnel in which the edge sends one byte and closes.\<close>

definition one_byte :: ends where
  "one_byte = ends0\<lparr>down_sent := [7], down_out := [7], edge := Eof\<rparr>"

lemma one_byte_reach: "x_reach (h3relay0\<lparr>x_ends := one_byte\<rparr>)"
proof -
  let ?s = "\<lambda>e. h3relay0\<lparr>x_ends := e\<rparr>"
  have peer: "x_reach (?s e')" if "x_reach (?s e)" "peer_step e e'" for e e'
    using reach_step [OF that(1) h3_peer, of e'] that(2) by simp
  have copy: "x_reach (?s e')" if "x_reach (?s e)" "read_down 1 e = Some e' \<or> write_down e = Some e'" for e e'
    using reach_step [OF that(1) h3_copy_down, of 1 e'] that(2) by (simp add: h3relay0_def)
  have "x_reach (?s ends0)" by (rule reach_start) (simp add: h3relay0_def)
  from peer [OF this client_takes] have "x_reach (?s (ends0\<lparr>down_room := 1\<rparr>))" by (simp add: ends0_def)
  from peer [OF this edge_sends [of _ 7]] have "x_reach (?s (ends0\<lparr>down_room := 1, down_sent := [7], down_queue := [7]\<rparr>))"
    by (simp add: ends0_def)
  from copy [OF this, of "ends0\<lparr>down_room := 1, down_sent := [7], down_held := [7]\<rparr>"]
  have "x_reach (?s (ends0\<lparr>down_room := 1, down_sent := [7], down_held := [7]\<rparr>))"
    by (simp add: ends0_def read_down_def)
  from copy [OF this, of "ends0\<lparr>down_sent := [7], down_out := [7]\<rparr>"]
  have "x_reach (?s (ends0\<lparr>down_sent := [7], down_out := [7]\<rparr>))" by (simp add: ends0_def write_down_def)
  from peer [OF this edge_ends [of _ Eof]] show ?thesis by (simp add: one_byte_def ends0_def)
qed

theorem h3_relay_delivers_witness:
  "\<exists>s. x_reach s \<and> x_up s = Ended \<and> x_released s = 1 \<and> \<not> x_graced s \<and> \<not> x_failed s \<and> down_out (x_ends s) = down_sent (x_ends s)"
proof -
  let ?a = "h3relay0\<lparr>x_ends := one_byte, x_down := Releasing\<rparr>"
  let ?b = "release (?a\<lparr>x_down := Drained\<rparr>)"
  let ?c = "release (?b\<lparr>x_up := Joining, x_failed := x_failed ?b \<or> \<not> closed (x_ends ?b)\<rparr>)"
  let ?d = "release (?c\<lparr>x_up := Ended\<rparr>)"
  have "h3_relay_step (h3relay0\<lparr>x_ends := one_byte\<rparr>) ?a"
    using h3_down_over [of "h3relay0\<lparr>x_ends := one_byte\<rparr>"]
    by (simp add: h3relay0_def one_byte_def ends0_def down_finished_def)
  moreover have "h3_relay_step ?a ?b" by (rule h3_down_release) simp
  moreover have "h3_relay_step ?b ?c" by (rule h3_client_error) (simp_all add: h3relay0_def up_broken_def one_byte_def ends0_def)
  moreover have "h3_relay_step ?c ?d" by (rule h3_join) simp_all
  ultimately have "x_reach ?d" by (intro reach_trans [OF one_byte_reach steps4])
  moreover have "x_up ?d = Ended" "\<not> x_graced ?d" "\<not> x_failed ?d" by (simp_all add: h3relay0_def)
  ultimately show ?thesis using h3_relay_delivers [of ?d] by blast
qed

text \<open>C15: once the client is gone, cleanly or not, the handler ends by itself unless the edge has stopped
  taking bytes: whatever the peers do not do, a run of its own steps is at most as long as the
  stages and bytes that are left, and when no such step is left the handler has returned and has
  released the tunnel once, or it hangs in a \<open>Write\<close> to an edge that grants no more room.\<close>
theorem h3_relay_ends:
  assumes "x_reach s" "client (x_ends s) \<noteq> Open" "(handler_step ^^ n) s t"
  shows "n \<le> 5 + 2 * length (up_queue (x_ends s)) + length (up_held (x_ends s)) +
      2 * length (down_queue (x_ends s)) + length (down_held (x_ends s)) \<and>
    ((\<exists>u. handler_step t u) \<or> x_up t = Ended \<and> closed (x_ends t) \<and> x_released t = 1 \<or> hangs t)"
proof
  have "up_weight (x_up s) \<le> 3" "down_weight (x_down s) \<le> 2" by (cases "x_up s"; simp) (cases "x_down s"; simp)
  with handler_runs_end [OF assms(3)]
  show "n \<le> 5 + 2 * length (up_queue (x_ends s)) + length (up_held (x_ends s)) +
      2 * length (down_queue (x_ends s)) + length (down_held (x_ends s))" by (simp add: x_weight_def)
  have "handler_step\<^sup>*\<^sup>* s t" by (rule relpowp_imp_rtranclp [OF assms(3)])
  then have "x_inv t \<and> client (x_ends t) \<noteq> Open"
    by induction (use assms(2) x_reach_inv [OF assms(1)] x_inv_step in \<open>auto simp: handler_step_def\<close>)
  then show "(\<exists>u. handler_step t u) \<or> x_up t = Ended \<and> closed (x_ends t) \<and> x_released t = 1 \<or> hangs t"
    using handler_progress [of t] by (auto simp: x_inv_def)
qed

text \<open>The client of \<open>one_byte\<close> breaks off: its handler notices, waits for the other copy, and ends.\<close>

theorem h3_relay_ends_witness:
  "\<exists>t. (handler_step ^^ 1) (h3relay0\<lparr>x_ends := one_byte\<lparr>client := Broken\<rparr>\<rparr>) t \<and>
     x_up t = Joining \<and> (\<exists>u. handler_step t u)"
proof -
  let ?s = "h3relay0\<lparr>x_ends := one_byte\<lparr>client := Broken\<rparr>\<rparr>"
  let ?t = "release (?s\<lparr>x_up := Joining, x_failed := x_failed ?s \<or> \<not> closed (x_ends ?s)\<rparr>)"
  have "h3_relay_step (h3relay0\<lparr>x_ends := one_byte\<rparr>) ?s"
    using h3_peer [of "h3relay0\<lparr>x_ends := one_byte\<rparr>" "one_byte\<lparr>client := Broken\<rparr>"] client_ends [of one_byte Broken]
    by (simp add: one_byte_def ends0_def h3relay0_def)
  then have r: "x_reach ?s" by (rule reach_step [OF one_byte_reach])
  have c: "x_up ?s = Copying" "up_broken (x_ends ?s)" by (simp_all add: h3relay0_def up_broken_def one_byte_def ends0_def)
  then have "handler_step ?s ?t" using h3_client_error [of ?s] by (simp add: handler_step_def)
  then have one: "(handler_step ^^ 1) ?s ?t" by (simp only: relpowp_1)
  from h3_relay_ends [OF r _ one] have "(\<exists>u. handler_step ?t u) \<or> x_up ?t = Ended \<or> hangs ?t" by simp
  then have "\<exists>u. handler_step ?t u" by (simp add: hangs_def)
  with one show ?thesis by (intro exI [of _ ?t]) simp
qed

text \<open>And it can hang: a client sends one byte that the edge has no room for, and breaks off. The
  handler stays in its \<open>Write\<close>, with the deadlines cleared, holding the stream.\<close>
theorem h3_relay_can_hang:
  "\<exists>s. x_reach s \<and> client (x_ends s) = Broken \<and> \<not> closed (x_ends s) \<and> hangs s \<and> (\<nexists>t. handler_step s t)"
proof -
  let ?s = "\<lambda>e. h3relay0\<lparr>x_ends := e\<rparr>"
  have peer: "x_reach (?s e')" if "x_reach (?s e)" "peer_step e e'" for e e'
    using reach_step [OF that(1) h3_peer, of e'] that(2) by simp
  have "x_reach (?s ends0)" by (rule reach_start) (simp add: h3relay0_def)
  from peer [OF this client_sends [of _ 7]] have "x_reach (?s (ends0\<lparr>up_sent := [7], up_queue := [7]\<rparr>))"
    by (simp add: ends0_def)
  from reach_step [OF this h3_copy_up, of 1 "ends0\<lparr>up_sent := [7], up_held := [7]\<rparr>"]
  have "x_reach (?s (ends0\<lparr>up_sent := [7], up_held := [7]\<rparr>))" by (simp add: h3relay0_def read_up_def ends0_def)
  from peer [OF this client_ends [of _ Broken]]
  have r: "x_reach (?s (ends0\<lparr>up_sent := [7], up_held := [7], client := Broken\<rparr>))" (is "x_reach ?h")
    by (simp add: ends0_def)
  have "\<not> handler_step ?h t" for t
  proof
    assume h: "handler_step ?h t"
    then have "h3_relay_step ?h t" by (simp add: handler_step_def)
    then show False
    proof cases
      case (h3_peer e)
      with h peer_step_visible [OF h3_peer(2)] show False by (simp add: handler_step_def)
    qed (auto simp: h3relay0_def ends0_def copy_defs up_broken_def up_cut_def up_finished_def down_finished_def down_broken_def)
  qed
  with r show ?thesis by (intro exI [of _ ?h]) (simp add: hangs_def h3relay0_def ends0_def)
qed

text \<open>The relay of the HTTP/2 backend loses the answer to a client that half-closes: it can end
  with the client's direction cleanly finished, nothing broken, and bytes of the edge never
  delivered, because the first copy to finish closes both ends.\<close>
theorem h2_relay_truncates:
  "\<exists>s. y_reach s \<and> y_main s = Returned \<and> client (y_ends s) = Eof \<and> up_out (y_ends s) = up_sent (y_ends s) \<and>
     edge (y_ends s) \<noteq> Broken \<and> down_out (y_ends s) \<noteq> down_sent (y_ends s)"
proof -
  let ?e1 = "ends0\<lparr>client := Eof\<rparr>"
  let ?s1 = "h2relay0\<lparr>y_ends := ?e1\<rparr>"
  let ?s2 = "?s1\<lparr>y_up := False, y_results := 1\<rparr>"
  let ?e2 = "?e1\<lparr>down_sent := [7], down_queue := [7]\<rparr>"
  let ?s3 = "?s2\<lparr>y_ends := ?e2\<rparr>"
  let ?s4 = "?s3\<lparr>y_results := 0, y_main := Second, y_ends := ?e2\<lparr>closed := True\<rparr>\<rparr>"
  let ?s5 = "?s4\<lparr>y_down := False, y_results := 1\<rparr>"
  let ?s6 = "?s5\<lparr>y_results := 0, y_main := Returned\<rparr>"
  have r0: "y_reach h2relay0" by (rule reach_start) simp
  have r1: "y_reach ?s1" by (rule reach_step [OF r0], rule h2_peer)
    (use client_ends [of ends0 Eof] in \<open>simp add: h2relay0_def ends0_def\<close>)
  have r2: "y_reach ?s2" using h2_up_over [of ?s1]
    by (intro reach_step [OF r1]) (simp add: h2relay0_def up_finished_def ends0_def)
  have r3: "y_reach ?s3" by (rule reach_step [OF r2], rule h2_peer)
    (use edge_sends [of ?e1 7] in \<open>simp add: ends0_def\<close>)
  have r4: "y_reach ?s4" using h2_first [of ?s3 0] by (intro reach_step [OF r3]) (simp add: h2relay0_def)
  have r5: "y_reach ?s5" using h2_down_over [of ?s4]
    by (intro reach_step [OF r4]) (simp add: h2relay0_def down_broken_def)
  have r6: "y_reach ?s6" using h2_second [of ?s5 0] by (intro reach_step [OF r5]) simp
  show ?thesis by (rule exI [of _ ?s6]) (use r6 in \<open>simp add: ends0_def\<close>)
qed

end
