(* ===== verification/Go_Strings.thy ===== *)
theory Go_Strings
  imports Warp_Prelude
begin

text \<open>
  The functions of Go's packages \<open>strings\<close> and \<open>encoding/base64\<close> that the program uses, on
  strings of bytes: \<open>TrimSpace\<close>, \<open>Trim\<close>, \<open>Split\<close>, \<open>Cut\<close>, \<open>ToLower\<close>, and the standard base64
  encoding with padding.
\<close>

section \<open>Trimming and splitting\<close>

text \<open>\<open>strings.TrimSpace\<close> for ASCII white space; white space outside ASCII stays.\<close>

definition is_space :: "char \<Rightarrow> bool" where
  "is_space c \<longleftrightarrow> c = CHR '' '' \<or> (9 \<le> (of_char c :: nat) \<and> (of_char c :: nat) \<le> 13)"

definition trimSpace :: "string \<Rightarrow> string" where
  "trimSpace s = rev (dropWhile is_space (rev (dropWhile is_space s)))"

text \<open>\<open>strings.Trim\<close> with an ASCII cut set.\<close>

definition trim :: "string \<Rightarrow> string \<Rightarrow> string" where
  "trim cutset s = rev (dropWhile (\<lambda>c. c \<in> set cutset) (rev (dropWhile (\<lambda>c. c \<in> set cutset) s)))"

text \<open>\<open>strings.Split\<close> at one character, \<open>strings.Cut\<close> at one, \<open>strings.ToLower\<close> on ASCII.\<close>

fun split_on :: "char \<Rightarrow> string \<Rightarrow> string list" where
  "split_on c [] = [[]]"
| "split_on c (x # xs) =
     (if x = c then [] # split_on c xs
      else case split_on c xs of [] \<Rightarrow> [[x]] | l # ls \<Rightarrow> (x # l) # ls)"

definition cut :: "char \<Rightarrow> string \<Rightarrow> (string \<times> string) option" where
  "cut c s = (case index_byte c s of None \<Rightarrow> None | Some i \<Rightarrow> Some (take i s, drop (i + 1) s))"

definition toLower :: "string \<Rightarrow> string" where
  "toLower s = map (\<lambda>c. if 65 \<le> (of_char c :: nat) \<and> (of_char c :: nat) \<le> 90
                        then char_of (of_char c + 32 :: nat) else c) s"

lemma dropWhile_none: "(\<And>c. c \<in> set s \<Longrightarrow> \<not> P c) \<Longrightarrow> dropWhile P s = s"
  by (cases s) auto

lemma dropWhile_all: "list_all P p \<Longrightarrow> dropWhile P (p @ s) = dropWhile P s"
  by (induction p) auto

lemma trimSpace_surround:
  assumes "\<And>c. c \<in> set s \<Longrightarrow> \<not> is_space c" "list_all is_space p" "list_all is_space q"
  shows "trimSpace (p @ s @ q) = s"
proof (cases s)
  case Nil
  then show ?thesis
    using dropWhile_all [OF assms(2), of q] assms(3)
    by (auto simp: trimSpace_def list_all_iff dest: set_dropWhileD)
next
  case (Cons c cs)
  then have "dropWhile is_space (p @ s @ q) = s @ q"
    using assms(1) dropWhile_all [OF assms(2), of "s @ q"] by simp
  moreover have "dropWhile is_space (rev q @ rev s) = rev s"
    using dropWhile_all [of is_space "rev q" "rev s"] dropWhile_none [of "rev s" is_space] assms(1,3)
    by simp
  ultimately show ?thesis by (simp add: trimSpace_def)
qed

lemma trim_none: "(\<And>c. c \<in> set s \<Longrightarrow> c \<notin> set cs) \<Longrightarrow> trim cs s = s"
  using dropWhile_none [of s "\<lambda>c. c \<in> set cs"] dropWhile_none [of "rev s" "\<lambda>c. c \<in> set cs"]
  by (simp add: trim_def)

lemma trim_both:
  assumes "\<And>c. c \<in> set s \<Longrightarrow> c \<notin> set cs" "set p \<subseteq> set cs" "set q \<subseteq> set cs" "s \<noteq> []"
  shows "trim cs (p @ s @ q) = s"
proof -
  obtain a as where s: "s = a # as" using assms(4) by (cases s) auto
  have "list_all (\<lambda>c. c \<in> set cs) p" using assms(2) by (auto simp: list_all_iff)
  from dropWhile_all [OF this, of "s @ q"] s assms(1)
  have "dropWhile (\<lambda>c. c \<in> set cs) (p @ s @ q) = s @ q" by simp
  moreover have "dropWhile (\<lambda>c. c \<in> set cs) (rev q @ rev s) = rev s"
    using dropWhile_all [of "\<lambda>c. c \<in> set cs" "rev q" "rev s"] dropWhile_none [of "rev s" "\<lambda>c. c \<in> set cs"]
      assms(1,3) by (auto simp: list_all_iff)
  ultimately show ?thesis by (simp add: trim_def)
qed

text \<open>Splitting never drops a character: joining the lines gives the text back.\<close>

lemma split_on_nonempty [simp]: "split_on c s \<noteq> []"
  by (induction s) (auto split: list.splits)

lemma split_on_line: "c \<notin> set l \<Longrightarrow> split_on c (l @ c # r) = l # split_on c r"
  by (induction l) auto

lemma split_on_single: "c \<notin> set l \<Longrightarrow> split_on c l = [l]"
  by (induction l) auto

lemma cut_append: "c \<notin> set k \<Longrightarrow> cut c (k @ c # v) = Some (k, v)"
  using index_byte_append [of c k v] by (simp add: cut_def)

section \<open>Base64\<close>

definition b64_char :: "nat \<Rightarrow> char" where
  "b64_char k =
     char_of (if k < 26 then 65 + k else if k < 52 then 71 + k else if k < 62 then k - 4
              else if k = 62 then 43 else (47 :: nat))"

definition b64_val :: "char \<Rightarrow> nat option" where
  "b64_val c =
     (let n = (of_char c :: nat) in
      if 65 \<le> n \<and> n \<le> 90 then Some (n - 65)
      else if 97 \<le> n \<and> n \<le> 122 then Some (n - 71)
      else if 48 \<le> n \<and> n \<le> 57 then Some (n + 4)
      else if n = 43 then Some 62 else if n = 47 then Some 63 else None)"

text \<open>Three bytes as one number, four characters of six bits; the rest is padded.\<close>

definition b64_group :: "nat \<Rightarrow> string" where
  "b64_group v = [b64_char (v div 262144 mod 64), b64_char (v div 4096 mod 64),
                  b64_char (v div 64 mod 64), b64_char (v mod 64)]"

definition b64_num :: "byte \<Rightarrow> byte \<Rightarrow> byte \<Rightarrow> nat" where
  "b64_num a b c = unat a * 65536 + unat b * 256 + unat c"

fun b64_encode :: "bytes \<Rightarrow> string" where
  "b64_encode [] = []"
| "b64_encode [a] = take 2 (b64_group (b64_num a 0 0)) @ ''==''"
| "b64_encode [a, b] = take 3 (b64_group (b64_num a b 0)) @ ''=''"
| "b64_encode (a # b # c # r) = b64_group (b64_num a b c) @ b64_encode r"

definition b64_bytes :: "nat \<Rightarrow> bytes" where
  "b64_bytes v = [word_of_nat (v div 65536), word_of_nat (v div 256), word_of_nat v]"

text \<open>\<open>DecodeString\<close> skips line breaks anywhere; bits after the last whole byte are ignored.\<close>

fun b64_decode_groups :: "string \<Rightarrow> bytes option" where
  "b64_decode_groups [] = Some []"
| "b64_decode_groups (a # b # c # d # r) =
     (case (b64_val a, b64_val b) of
        (Some x, Some y) \<Rightarrow>
          if c = CHR ''='' then
            (if d = CHR ''='' \<and> r = [] then Some (take 1 (b64_bytes (x * 262144 + y * 4096))) else None)
          else
            (case b64_val c of
               None \<Rightarrow> None
             | Some z \<Rightarrow>
                 if d = CHR ''='' then
                   (if r = [] then Some (take 2 (b64_bytes (x * 262144 + y * 4096 + z * 64))) else None)
                 else
                   (case b64_val d of
                      None \<Rightarrow> None
                    | Some w \<Rightarrow>
                        map_option (\<lambda>bs. b64_bytes (x * 262144 + y * 4096 + z * 64 + w) @ bs) (b64_decode_groups r)))
      | _ \<Rightarrow> None)"
| "b64_decode_groups _ = None"

definition b64_decode :: "string \<Rightarrow> bytes option" where
  "b64_decode s = b64_decode_groups (filter (\<lambda>c. (of_char c :: nat) \<noteq> 10 \<and> (of_char c :: nat) \<noteq> 13) s)"

text \<open>The characters of the encoding: 64 different ones, none of them white space or padding.\<close>

lemma of_char_b64:
  "k < 64 \<Longrightarrow> (of_char (b64_char k) :: nat) =
     (if k < 26 then 65 + k else if k < 52 then 71 + k else if k < 62 then k - 4 else if k = 62 then 43 else 47)"
  by (simp add: b64_char_def)

lemma b64_char_props [simp]:
  assumes "k < 64"
  shows "b64_val (b64_char k) = Some k" "\<not> is_space (b64_char k)" "b64_char k \<noteq> CHR ''=''"
    "(of_char (b64_char k) :: nat) \<noteq> 10" "(of_char (b64_char k) :: nat) \<noteq> 13"
proof -
  show "b64_val (b64_char k) = Some k" using assms by (auto simp: b64_val_def Let_def of_char_b64)
  have n: "(of_char (b64_char k) :: nat) \<ge> 43 \<and> (of_char (b64_char k) :: nat) \<noteq> 61"
    using assms by (auto simp: of_char_b64)
  then show "\<not> is_space (b64_char k)" "b64_char k \<noteq> CHR ''=''"
    "(of_char (b64_char k) :: nat) \<noteq> 10" "(of_char (b64_char k) :: nat) \<noteq> 13"
    by (auto simp: is_space_def)
qed

lemma b64_num_less: "b64_num a b c < 16777216"
  using unat_byte_less [of a] unat_byte_less [of b] unat_byte_less [of c] by (simp add: b64_num_def)

lemma b64_num_top: "b64_num a b c div 262144 < 64"
  using b64_num_less [of a b c] by (simp add: less_mult_imp_div_less)

lemma six_bits:
  assumes "v < (16777216 :: nat)"
  shows "v div 262144 mod 64 * 262144 + v div 4096 mod 64 * 4096 + v div 64 mod 64 * 64 + v mod 64 = v"
proof -
  have d: "v div 4096 = v div 64 div 64" "v div 262144 = v div 64 div 64 div 64"
    by (simp_all add: div_mult2_eq [symmetric])
  have "v div 262144 < 64" using assms by (simp add: less_mult_imp_div_less)
  then have "v div 64 div 64 div 64 mod 64 = v div 64 div 64 div 64" using d by simp
  then show ?thesis
    using div_mult_mod_eq [of v 64] div_mult_mod_eq [of "v div 64" 64]
      div_mult_mod_eq [of "v div 64 div 64" 64] unfolding d by linarith
qed

lemma b64_bytes_num: "b64_bytes (b64_num a b c) = [a, b, c]"
proof -
  have l: "unat a < 256" "unat b < 256" "unat c < 256" by (rule unat_byte_less)+
  have d: "b64_num a b c div 65536 = unat a" "b64_num a b c div 256 = unat a * 256 + unat b"
    using l by (simp_all add: b64_num_def)
  have r: "(word_of_nat (x * 256 + unat w) :: byte) = w" for x and w :: byte
    by (simp add: word_unat_eq_iff unat_of_nat unat_byte_less del: of_nat_add of_nat_mult)
  have "(word_of_nat (b64_num a b c) :: byte) = c"
    using r [of "unat a * 256 + unat b" c] by (simp add: b64_num_def algebra_simps)
  with d r [of "unat a" b] show ?thesis by (simp add: b64_bytes_def)
qed

text \<open>The characters of a group and what they decode to; a padded group has zero bytes at its end.\<close>

lemma b64_group_decode:
  "b64_decode_groups (b64_group (b64_num a b c) @ r) =
     map_option (\<lambda>bs. a # b # c # bs) (b64_decode_groups r)"
  using six_bits [OF b64_num_less, of a b c] b64_bytes_num [of a b c] b64_num_top [of a b c]
  by (simp add: b64_group_def option.map_comp o_def cong: option.map_cong)

lemma b64_pad1: "b64_decode_groups (take 3 (b64_group (b64_num a b 0)) @ ''='') = Some [a, b]"
proof -
  let ?v = "b64_num a b 0"
  have "?v mod 64 = 0" by (simp add: b64_num_def)
  then show ?thesis
    using six_bits [OF b64_num_less, of a b 0] b64_bytes_num [of a b 0] b64_num_top [of a b 0] by (simp add: b64_group_def)
qed

lemma b64_pad2: "b64_decode_groups (take 2 (b64_group (b64_num a 0 0)) @ ''=='') = Some [a]"
proof -
  let ?v = "b64_num a 0 0"
  have "?v mod 64 = 0" "?v div 64 mod 64 = 0" by (simp_all add: b64_num_def)
  then show ?thesis
    using six_bits [OF b64_num_less, of a 0 0] b64_bytes_num [of a 0 0] b64_num_top [of a 0 0] by (simp add: b64_group_def)
qed

lemma b64_decode_groups_encode: "b64_decode_groups (b64_encode bs) = Some bs"
  by (induction bs rule: b64_encode.induct) (simp_all only: b64_encode.simps b64_group_decode b64_pad1 b64_pad2, simp_all)

lemma b64_group_chars:
  assumes "c \<in> set (b64_group v)"
  shows "\<exists>k < 64. c = b64_char k"
proof -
  have "x mod 64 < 64" for x :: nat by simp
  with assms show ?thesis unfolding b64_group_def by (metis (no_types, lifting) empty_iff insert_iff list.set)
qed

lemma b64_encode_chars: "c \<in> set (b64_encode bs) \<Longrightarrow> (\<exists>k < 64. c = b64_char k) \<or> c = CHR ''=''"
proof (induction bs rule: b64_encode.induct)
  case (4 x y z r)
  then show ?case using b64_group_chars [of c "b64_num x y z"] by auto
qed (use b64_group_chars in \<open>auto dest!: in_set_takeD\<close>)

lemma b64_encode_plain:
  assumes "c \<in> set (b64_encode bs)"
  shows "\<not> is_space c \<and> (of_char c :: nat) \<noteq> 10 \<and> (of_char c :: nat) \<noteq> 13"
  using b64_encode_chars [OF assms] b64_char_props by (auto simp: is_space_def [of "CHR ''=''"])

lemma b64_roundtrip: "b64_decode (trimSpace (b64_encode bs)) = Some bs"
proof -
  have "trimSpace (b64_encode bs) = b64_encode bs"
    using trimSpace_surround [of "b64_encode bs" "[]" "[]"] b64_encode_plain by simp
  moreover have "filter (\<lambda>c. (of_char c :: nat) \<noteq> 10 \<and> (of_char c :: nat) \<noteq> 13) (b64_encode bs) = b64_encode bs"
    using b64_encode_plain by (intro filter_True) blast
  ultimately show ?thesis by (simp add: b64_decode_def b64_decode_groups_encode)
qed

end
