(* ===== verification/H2_Setup.thy ===== *)
theory H2_Setup
  imports Go_IP_Text Go_Strings
begin

text \<open>
  Setting up the HTTP/2 client (\<open>tunnel/h2.go\<close>): the assigned addresses of the userspace network
  stack, the constructor, and one attempt to bring up a CONNECT-IP tunnel to an edge. The TUN
  device, the TLS handshake and the CONNECT-IP dial are answers of the environment.
\<close>

section \<open>Assigned addresses\<close>

text \<open>\<open>netip.Addr.Unmap\<close> and \<open>netip.ParsePrefix\<close>, of which the callers use the address.\<close>

fun unmap :: "addr \<Rightarrow> addr" where
  "unmap (Addr4 b) = Addr4 b"
| "unmap (Addr6 b zone) = (if length b = 16 \<and> take 12 b = v4InV6Prefix then Addr4 (drop 12 b) else Addr6 b zone)"

fun max_bits :: "addr \<Rightarrow> int" where
  "max_bits (Addr4 b) = 32"
| "max_bits (Addr6 b zone) = 128"

fun addr_zone :: "addr \<Rightarrow> string" where
  "addr_zone (Addr4 b) = []"
| "addr_zone (Addr6 b zone) = zone"

definition parsePrefix :: "string \<Rightarrow> (addr \<times> int) option" where
  "parsePrefix s =
     (case last_index_byte CHR ''/'' s of
        None \<Rightarrow> None
      | Some i \<Rightarrow>
          (case parse_addr (take i s) of
             None \<Rightarrow> None
           | Some ip \<Rightarrow>
               if addr_zone ip \<noteq> [] then None
               else
                 let bits = drop (i + 1) s in
                 if length bits > 1 \<and> ((of_char (hd bits) :: nat) < 49 \<or> (of_char (hd bits) :: nat) > 57)
                 then None
                 else case atoi bits of
                        None \<Rightarrow> None
                      | Some n \<Rightarrow> if n < 0 \<or> n > max_bits ip then None else Some (ip, n)))"

definition parseAssignedAddress :: "string \<Rightarrow> addr option" where
  "parseAssignedAddress value =
     (let value = trimSpace value in
      case parsePrefix value of
        Some (ip, bits) \<Rightarrow> Some (unmap ip)
      | None \<Rightarrow> map_option unmap (parse_addr value))"

fun is4 :: "addr \<Rightarrow> bool" where
  "is4 (Addr4 b) = True"
| "is4 (Addr6 b zone) = False"

fun asSlice :: "addr \<Rightarrow> ip" where
  "asSlice (Addr4 b) = b"
| "asSlice (Addr6 b zone) = b"

datatype setup_error =
    NoEdges | NoTLS | InvalidAssigned nat string | WrongFamily string nat | NoAddress
  | TunFailed | DialFailed | SetupClosed

record assigned =
  a_addresses :: "addr list"
  a_local4 :: "ip option"
  a_local6 :: "ip option"

fun assigned_addresses :: "(string \<times> nat) list \<Rightarrow> assigned \<Rightarrow> setup_error + assigned" where
  "assigned_addresses [] a = (if a_addresses a = [] then Inl NoAddress else Inr a)"
| "assigned_addresses ((value, family) # items) a =
     (if trimSpace value = [] then assigned_addresses items a
      else case parseAssignedAddress value of
        None \<Rightarrow> Inl (InvalidAssigned family value)
      | Some addr \<Rightarrow>
          if (family = 4) \<noteq> is4 addr then Inl (WrongFamily value family)
          else
            let a = a\<lparr>a_addresses := a_addresses a @ [addr]\<rparr> in
            assigned_addresses items
              (if is4 addr then a\<lparr>a_local4 := Some (asSlice addr)\<rparr> else a\<lparr>a_local6 := Some (asSlice addr)\<rparr>))"

definition no_assigned :: assigned where
  "no_assigned = \<lparr>a_addresses = [], a_local4 = None, a_local6 = None\<rparr>"

section \<open>The constructor\<close>

text \<open>What the constructor does besides computing: the TUN device, the first dial, the two
  goroutines. \<open>installed\<close> is the answer of \<open>setCurrent\<close>.\<close>

datatype setup_act = CreateTUN "addr list" | CloseTUN | CancelClient | DialFirst | CloseBundle | StartPump | StartMaintain

definition NewH2Client ::
    "(addr list \<Rightarrow> bool) \<Rightarrow> bool \<Rightarrow> bool \<Rightarrow> string list \<Rightarrow> bool \<Rightarrow> string \<Rightarrow> string \<Rightarrow>
     (setup_error + assigned) \<times> setup_act list" where
  "NewH2Client tun_ok dial_ok installed edgeAddrs tls_given assigned4 assigned6 =
     (if edgeAddrs = [] then (Inl NoEdges, [])
      else if \<not> tls_given then (Inl NoTLS, [])
      else case assigned_addresses [(assigned4, 4), (assigned6, 6)] no_assigned of
        Inl err \<Rightarrow> (Inl err, [])
      | Inr a \<Rightarrow>
          if \<not> tun_ok (a_addresses a) then (Inl TunFailed, [])
          else if \<not> dial_ok then
            (Inl DialFailed, [CreateTUN (a_addresses a), DialFirst, CancelClient, CloseTUN])
          else if \<not> installed then
            (Inl SetupClosed, [CreateTUN (a_addresses a), DialFirst, CloseBundle, CancelClient, CloseTUN])
          else (Inr a, [CreateTUN (a_addresses a), DialFirst, StartPump, StartMaintain]))"

section \<open>One attempt\<close>

text \<open>The parts of an \<open>h2Bundle\<close> in the order they are opened; \<open>close\<close> goes through them in the
  code's order, skipping what is nil.\<close>

datatype h2_part = TCPConn | TLSConn | H2Conn | LifeCtx | IPConn

datatype h2_dial_act = OpenPart h2_part | ClosePart h2_part

datatype connect_end = Established | ConnectError | SetupOver | ClientOver | ConnectTimeout

datatype h2_dial_error = DialTCP | Handshake | NewConn | ConnectIP | SetupCause | ClientClosed | InitTimeout

record h2_attempt =
  t_tcp :: bool
  t_tls :: bool
  t_client :: bool
  t_connect :: connect_end

record h2_bundle =
  b_ipConn :: bool
  b_client :: bool
  b_netConn :: bool

definition h2_bundle_close :: "h2_bundle \<Rightarrow> h2_dial_act list" where
  "h2_bundle_close b =
     [ClosePart LifeCtx] @
     (if b_ipConn b then [ClosePart IPConn] else []) @
     (if b_client b then [ClosePart H2Conn] else []) @
     (if b_netConn b then [ClosePart TLSConn] else [])"

definition h2_dialAddr :: "h2_attempt \<Rightarrow> (h2_dial_error + h2_bundle) \<times> h2_dial_act list" where
  "h2_dialAddr e =
     (if \<not> t_tcp e then (Inl DialTCP, [])
      else if \<not> t_tls e then (Inl Handshake, [OpenPart TCPConn, ClosePart TCPConn])
      else if \<not> t_client e then (Inl NewConn, [OpenPart TCPConn, OpenPart TLSConn, ClosePart TLSConn])
      else
        let bundle = \<lparr>b_ipConn = False, b_client = True, b_netConn = True\<rparr>;
            acts = [OpenPart TCPConn, OpenPart TLSConn, OpenPart H2Conn, OpenPart LifeCtx] in
        case t_connect e of
          Established \<Rightarrow> (Inr (bundle\<lparr>b_ipConn := True\<rparr>), acts @ [OpenPart IPConn])
        | ConnectError \<Rightarrow> (Inl ConnectIP, acts @ h2_bundle_close bundle)
        | SetupOver \<Rightarrow> (Inl SetupCause, acts @ h2_bundle_close bundle)
        | ClientOver \<Rightarrow> (Inl ClientClosed, acts @ h2_bundle_close bundle)
        | ConnectTimeout \<Rightarrow> (Inl InitTimeout, acts @ h2_bundle_close bundle))"

text \<open>Closing the TLS connection closes the TCP connection under it.\<close>

fun closes_part :: "h2_dial_act \<Rightarrow> h2_part set" where
  "closes_part (OpenPart p) = {}"
| "closes_part (ClosePart TLSConn) = {TLSConn, TCPConn}"
| "closes_part (ClosePart p) = {p}"

definition opened :: "h2_dial_act list \<Rightarrow> h2_part set" where
  "opened acts = {p. OpenPart p \<in> set acts}"

definition closed_parts :: "h2_dial_act list \<Rightarrow> h2_part set" where
  "closed_parts acts = (\<Union>a \<in> set acts. closes_part a)"

section \<open>Lemmas on assigned addresses\<close>

text \<open>The text of an address has neither white space nor a slash.\<close>

lemma not_space:
  "is_hex c \<Longrightarrow> \<not> is_space c" "\<not> is_space CHR '':''" "\<not> is_space CHR ''.''" "is_digit c \<Longrightarrow> \<not> is_space c"
  "is_hex c \<Longrightarrow> c \<noteq> CHR ''/''" "is_digit c \<Longrightarrow> c \<noteq> CHR ''/''" "\<not> is_space CHR ''/''"
  by (auto simp: is_space_def is_hex_def is_digit_def)

lemma ip_text_chars:
  assumes "c \<in> set (ip_string a)" "valid_ip a"
  shows "is_hex c \<or> is_digit c \<or> c = CHR '':'' \<or> c = CHR ''.''"
proof (cases "to4 a")
  case None
  then have "ip_string a = ipv6_string (groups_of a)"
    using assms(2) by (auto simp: ip_string_def valid_ip_def)
  with assms(1) ipv6_string_chars [OF groups_of_small, of c a] show ?thesis by auto
next
  case (Some v)
  then have "ip_string a = ipv4_string v" using assms(2) by (auto simp: ip_string_def valid_ip_def)
  with assms(1) show ?thesis using itoa_set_digit by (auto simp: ipv4_string_def)
qed

definition addr_of :: "ip \<Rightarrow> addr" where
  "addr_of a = (case to4 a of Some v \<Rightarrow> Addr4 v | None \<Rightarrow> Addr6 a [])"

lemma parse_addr_ip_string:
  assumes "valid_ip a"
  shows "parse_addr (ip_string a) = Some (addr_of a)"
proof (cases "to4 a")
  case None
  then have "length a = 16" using assms by (auto simp: valid_ip_def)
  then show ?thesis using None parse_addr_ipv6_string [of a] by (auto simp: ip_string_def addr_of_def)
next
  case (Some v)
  then show ?thesis
    using assms parse_addr_ipv4_string [OF to4_length [OF Some]]
    by (auto simp: ip_string_def addr_of_def valid_ip_def)
qed

text \<open>A valid address never comes out of \<open>addr_of\<close> as a mapped one.\<close>

lemma unmap_addr_of: "valid_ip a \<Longrightarrow> unmap (addr_of a) = addr_of a"
proof (cases "to4 a")
  case None
  have False if "take 12 a = v4InV6Prefix" "length a = 16"
  proof -
    have "a = v4InV6Prefix @ drop 12 a" by (subst that(1) [symmetric]) simp
    with to4_mapped [of "drop 12 a"] that(2) None show False by simp
  qed
  with None show ?thesis by (auto simp: addr_of_def)
qed (simp add: addr_of_def)

lemma last_slash: "CHR ''/'' \<notin> set b \<Longrightarrow> last_index_byte CHR ''/'' (a @ CHR ''/'' # b) = Some (length a)"
  by (rule last_index_byte_append)

lemma parsePrefix_text:
  assumes "valid_ip a" "int n \<le> max_bits (addr_of a)"
  shows "parsePrefix (ip_string a @ CHR ''/'' # itoa n) = Some (addr_of a, int n)"
proof -
  have n: "n \<le> 128" using assms(2) by (cases "addr_of a") auto
  have no: "CHR ''/'' \<notin> set (itoa n)" using itoa_set_digit not_space(6) by blast
  have z: "addr_zone (addr_of a) = []" by (simp add: addr_of_def split: option.splits)
  have hd: "\<not> ((of_char (hd (itoa n)) :: nat) < 49 \<or> (of_char (hd (itoa n)) :: nat) > 57)" if "length (itoa n) > 1"
  proof -
    from that obtain c cs where c: "itoa n = c # cs" "cs \<noteq> []" by (cases "itoa n") auto
    with itoa_head [OF c] itoa_set_digit [of c n] show ?thesis by (auto simp: is_digit_def digit_val_def)
  qed
  show ?thesis
    using assms no z hd n parse_addr_ip_string [OF assms(1)]
    by (auto simp: parsePrefix_def last_slash Let_def simp del: last_index_byte.simps)
qed

lemma parsePrefix_no_slash: "CHR ''/'' \<notin> set s \<Longrightarrow> parsePrefix s = None"
  by (simp add: parsePrefix_def flip: last_index_byte_None)

section \<open>Properties\<close>

text \<open>An assigned address is accepted as a bare address and with any prefix length its family
  has, inside any ASCII white space, and is then the address itself, an IPv4-mapped one as
  IPv4.\<close>
theorem parseAssignedAddress_text:
  assumes "valid_ip a" "list_all is_space p" "list_all is_space q"
  shows "parseAssignedAddress (p @ ip_string a @ q) = Some (addr_of a) \<and>
         (\<forall>n. int n \<le> max_bits (addr_of a) \<longrightarrow>
            parseAssignedAddress (p @ (ip_string a @ CHR ''/'' # itoa n) @ q) = Some (addr_of a))"
proof -
  have c: "\<not> is_space c \<and> c \<noteq> CHR ''/''" if "c \<in> set (ip_string a)" for c
    using ip_text_chars [OF that assms(1)] not_space by auto
  have t: "trimSpace (p @ ip_string a @ q) = ip_string a"
    using c by (intro trimSpace_surround assms) blast
  have u: "trimSpace (p @ (ip_string a @ CHR ''/'' # itoa n) @ q) = ip_string a @ CHR ''/'' # itoa n" for n
    using c not_space itoa_set_digit [of _ n] by (intro trimSpace_surround assms) auto
  have "parsePrefix (ip_string a) = None" using c by (intro parsePrefix_no_slash) blast
  with t u parsePrefix_text [OF assms(1)] unmap_addr_of [OF assms(1)] parse_addr_ip_string [OF assms(1)]
  show ?thesis by (simp add: parseAssignedAddress_def del: append_Cons append_assoc)
qed

theorem parseAssignedAddress_text_witness:
  "parseAssignedAddress ('' '' @ (ip_string [172, 16, 0, 2] @ CHR ''/'' # itoa 32) @ []) = Some (addr_of [172, 16, 0, 2])"
  using parseAssignedAddress_text [of "[172, 16, 0, 2]" "'' ''" "[]"]
  by (simp add: valid_ip_def is_space_def addr_of_def)

text \<open>An attempt that fails has closed everything it opened, and one that succeeds has closed
  nothing and holds all the parts.\<close>
theorem h2_dialAddr_closes:
  "(case h2_dialAddr e of
      (Inr b, acts) \<Rightarrow> opened acts = {TCPConn, TLSConn, H2Conn, LifeCtx, IPConn} \<and> closed_parts acts = {} \<and>
        b = \<lparr>b_ipConn = True, b_client = True, b_netConn = True\<rparr>
    | (Inl err, acts) \<Rightarrow> opened acts \<subseteq> closed_parts acts)"
  by (auto simp: h2_dialAddr_def h2_bundle_close_def opened_def closed_parts_def Let_def
      split: connect_end.splits)

end
