(* ===== verification/H2_Client.thy ===== *)
theory H2_Client
  imports Custody
begin

text \<open>
  The life of the HTTP/2 client (\<open>tunnel/h2.go\<close>) after its first connection: the supervisor
  \<open>maintain\<close>, the two pumps it starts for each bundle (\<open>inboundPump\<close>, \<open>keepalive\<close>), the client's
  \<open>outboundPump\<close> with \<open>waitCurrent\<close>, and \<open>Close\<close>. A step is one critical section, one channel
  operation or one blocking call of one of these goroutines.
\<close>

section \<open>State\<close>

definition h2MTU :: int where
  "h2MTU = 1280"

datatype failure = ErrClosed | SendFailed | ReceiveFailed | NetstackFailed | PingFailed

datatype pump = Inbound | Keepalive

text \<open>Where the supervisor is: waiting for a failure of the bundle it serves, about to clear it,
  about to close it, waiting for its pumps, waiting to redial, dialling, about to install a new
  bundle, gone.\<close>

datatype supervisor =
    Serving nat | Clearing nat | Closing nat | Joining nat | Delaying | Dialling | Dialled nat | Gone

text \<open>Where \<open>outboundPump\<close> is: in \<open>tunDev.Read\<close>; at the head of \<open>waitCurrent\<close>'s loop; blocked on the
  channel \<open>connChanged\<close> it saw, which is named by its generation; holding a bundle; gone. The
  number is the size of the packet read.\<close>

datatype outbound = Reading | Looking int | Blocked nat int | Sending nat int | Stopped

text \<open>Where \<open>Close\<close> is, after each of its statements.\<close>

datatype closer = NotClosing | Swapped "nat option" | Cancelled "nat option" | Retired | TunClosed | Finished

record h2client =
  h_current :: "nat option"
  h_gen :: nat
  h_closed :: bool
  h_ctxdone :: bool
  h_next :: nat
  h_retired :: "nat set"
  h_failonce :: "nat set"
  h_failed :: "nat \<Rightarrow> failure option"
  h_pumps :: "(nat \<times> pump) set"
  h_sup :: supervisor
  h_out :: outbound
  h_close :: closer
  h_tunopen :: bool
  h_tunfail :: bool

text \<open>\<open>h_gen\<close> counts the channels \<open>connChanged\<close> made so far: the channel of generation \<open>g\<close> is
  closed exactly when \<open>g < h_gen\<close>. \<open>h_retired\<close> holds the bundles whose \<open>close\<close> has run, which is
  when their \<open>done\<close> is closed; \<open>h_failed b\<close> is what the buffered channel \<open>failed\<close> holds.
  \<open>h_tunopen\<close> is the device of the network stack, and \<open>h_tunfail\<close> records that a read from it
  failed although it was open.\<close>

section \<open>Operations\<close>

definition fail :: "nat \<Rightarrow> failure option \<Rightarrow> h2client \<Rightarrow> h2client" where
  "fail b err s =
     (let err = (case err of None \<Rightarrow> ErrClosed | Some e \<Rightarrow> e) in
      if b \<in> h_failonce s then s
      else s\<lparr>h_failonce := insert b (h_failonce s),
             h_failed := (if h_failed s b = None then (h_failed s)(b := Some err) else h_failed s)\<rparr>)"

definition bundle_retire :: "nat option \<Rightarrow> h2client \<Rightarrow> h2client" where
  "bundle_retire b s = (case b of None \<Rightarrow> s | Some x \<Rightarrow> s\<lparr>h_retired := insert x (h_retired s)\<rparr>)"

definition setCurrent :: "nat \<Rightarrow> h2client \<Rightarrow> bool \<times> h2client" where
  "setCurrent b s =
     (if h_closed s \<or> h_ctxdone s then (False, s)
      else (True, s\<lparr>h_current := Some b, h_gen := Suc (h_gen s)\<rparr>))"

definition clearCurrent :: "nat \<Rightarrow> h2client \<Rightarrow> h2client" where
  "clearCurrent b s =
     (if h_current s \<noteq> Some b then s else s\<lparr>h_current := None, h_gen := Suc (h_gen s)\<rparr>)"

text \<open>One turn of \<open>waitCurrent\<close>'s loop, up to its \<open>select\<close>.\<close>

definition waitCurrent :: "int \<Rightarrow> h2client \<Rightarrow> outbound" where
  "waitCurrent n s =
     (if h_closed s then Stopped
      else case h_current s of
        Some b \<Rightarrow> Sending b n
      | None \<Rightarrow> Blocked (h_gen s) n)"

text \<open>One turn of \<open>inboundPump\<close> on a packet of length \<open>n\<close> or an error, and one tick of \<open>keepalive\<close>;
  \<open>True\<close> means that the pump returns.\<close>

definition inbound_turn :: "nat \<Rightarrow> (failure + nat) \<Rightarrow> bool \<Rightarrow> h2client \<Rightarrow> bool \<times> h2client" where
  "inbound_turn b read write_ok s =
     (case read of
        Inl e \<Rightarrow> if b \<in> h_retired s then (True, s) else (True, fail b (Some ReceiveFailed) s)
      | Inr n \<Rightarrow>
          if n = 0 then (False, s)
          else if write_ok then (False, s)
          else if h_ctxdone s then (True, s)
          else (True, fail b (Some NetstackFailed) s))"

definition keepalive_turn :: "nat \<Rightarrow> bool \<Rightarrow> h2client \<Rightarrow> bool \<times> h2client" where
  "keepalive_turn b ping_ok s = (if ping_ok then (False, s) else (True, fail b (Some PingFailed) s))"

definition outbound_read :: "int option \<Rightarrow> outbound" where
  "outbound_read r =
     (case r of
        None \<Rightarrow> Stopped
      | Some n \<Rightarrow> if n \<le> 0 \<or> n > h2MTU then Reading else Looking n)"

definition pump_end :: "nat \<Rightarrow> pump \<Rightarrow> bool \<times> h2client \<Rightarrow> h2client" where
  "pump_end b p r = (if fst r then (snd r)\<lparr>h_pumps := h_pumps (snd r) - {(b, p)}\<rparr> else snd r)"

section \<open>Steps\<close>

inductive hstep :: "h2client \<Rightarrow> h2client \<Rightarrow> bool" where
  serve_cancelled: "h_sup s = Serving b \<Longrightarrow> h_ctxdone s \<Longrightarrow> hstep s (s\<lparr>h_sup := Clearing b\<rparr>)"
| serve_failed: "h_sup s = Serving b \<Longrightarrow> h_failed s b = Some e \<Longrightarrow>
    hstep s (s\<lparr>h_failed := (h_failed s)(b := None), h_sup := Clearing b\<rparr>)"
| serve_clear: "h_sup s = Clearing b \<Longrightarrow> hstep s ((clearCurrent b s)\<lparr>h_sup := Closing b\<rparr>)"
| serve_close: "h_sup s = Closing b \<Longrightarrow> hstep s ((bundle_retire (Some b) s)\<lparr>h_sup := Joining b\<rparr>)"
| serve_join: "h_sup s = Joining b \<Longrightarrow> h_pumps s = {} \<Longrightarrow>
    hstep s (s\<lparr>h_sup := (if h_ctxdone s then Gone else Delaying)\<rparr>)"
| delay_cancelled: "h_sup s = Delaying \<Longrightarrow> h_ctxdone s \<Longrightarrow> hstep s (s\<lparr>h_sup := Gone\<rparr>)"
| delay_over: "h_sup s = Delaying \<Longrightarrow> hstep s (s\<lparr>h_sup := Dialling\<rparr>)"
| redial_failed: "h_sup s = Dialling \<Longrightarrow> hstep s (s\<lparr>h_sup := (if h_ctxdone s then Gone else Delaying)\<rparr>)"
| redial_done: "h_sup s = Dialling \<Longrightarrow> hstep s (s\<lparr>h_sup := Dialled (h_next s), h_next := Suc (h_next s)\<rparr>)"
| install: "h_sup s = Dialled b \<Longrightarrow> setCurrent b s = (True, s1) \<Longrightarrow>
    hstep s (s1\<lparr>h_sup := Serving b, h_pumps := {(b, Inbound), (b, Keepalive)}\<rparr>)"
| install_refused: "h_sup s = Dialled b \<Longrightarrow> setCurrent b s = (False, s1) \<Longrightarrow>
    hstep s ((bundle_retire (Some b) s1)\<lparr>h_sup := Gone\<rparr>)"
| pump_inbound: "(b, Inbound) \<in> h_pumps s \<Longrightarrow> hstep s (pump_end b Inbound (inbound_turn b r w s))"
| pump_tick: "(b, Keepalive) \<in> h_pumps s \<Longrightarrow> hstep s (pump_end b Keepalive (keepalive_turn b ping s))"
| pump_done: "(b, Keepalive) \<in> h_pumps s \<Longrightarrow> b \<in> h_retired s \<or> h_ctxdone s \<Longrightarrow>
    hstep s (s\<lparr>h_pumps := h_pumps s - {(b, Keepalive)}\<rparr>)"
| out_packet: "h_out s = Reading \<Longrightarrow> h_tunopen s \<Longrightarrow> hstep s (s\<lparr>h_out := outbound_read (Some n)\<rparr>)"
| out_closed: "h_out s = Reading \<Longrightarrow> \<not> h_tunopen s \<Longrightarrow> hstep s (s\<lparr>h_out := outbound_read None\<rparr>)"
| out_broken: "h_out s = Reading \<Longrightarrow> h_tunopen s \<Longrightarrow>
    hstep s (s\<lparr>h_out := outbound_read None, h_tunfail := True\<rparr>)"
| out_look: "h_out s = Looking n \<Longrightarrow> hstep s (s\<lparr>h_out := waitCurrent n s\<rparr>)"
| out_woken: "h_out s = Blocked g n \<Longrightarrow> g < h_gen s \<Longrightarrow> hstep s (s\<lparr>h_out := Looking n\<rparr>)"
| out_cancelled: "h_out s = Blocked g n \<Longrightarrow> h_ctxdone s \<Longrightarrow> hstep s (s\<lparr>h_out := Stopped\<rparr>)"
| out_sent: "h_out s = Sending b n \<Longrightarrow> hstep s (s\<lparr>h_out := Reading\<rparr>)"
| out_failed: "h_out s = Sending b n \<Longrightarrow> hstep s ((fail b (Some SendFailed) s)\<lparr>h_out := Reading\<rparr>)"
| close_swap: "h_close s = NotClosing \<Longrightarrow>
    hstep s (s\<lparr>h_closed := True, h_current := None, h_gen := Suc (h_gen s), h_close := Swapped (h_current s)\<rparr>)"
| close_cancel: "h_close s = Swapped b \<Longrightarrow> hstep s (s\<lparr>h_ctxdone := True, h_close := Cancelled b\<rparr>)"
| close_bundle: "h_close s = Cancelled b \<Longrightarrow> hstep s ((bundle_retire b s)\<lparr>h_close := Retired\<rparr>)"
| close_tun: "h_close s = Retired \<Longrightarrow> hstep s (s\<lparr>h_tunopen := False, h_close := TunClosed\<rparr>)"
| close_join: "h_close s = TunClosed \<Longrightarrow> h_sup s = Gone \<Longrightarrow> h_out s = Stopped \<Longrightarrow>
    hstep s (s\<lparr>h_close := Finished\<rparr>)"

text \<open>What \<open>NewH2ClientContext\<close> returns: bundle 0 installed, both goroutines started.\<close>

definition h2client0 :: h2client where
  "h2client0 = \<lparr>h_current = Some 0, h_gen = 1, h_closed = False, h_ctxdone = False, h_next = 1,
     h_retired = {}, h_failonce = {}, h_failed = (\<lambda>_. None),
     h_pumps = {(0, Inbound), (0, Keepalive)}, h_sup = Serving 0, h_out = Reading, h_close = NotClosing,
     h_tunopen = True, h_tunfail = False\<rparr>"

abbreviation h_reach :: "h2client \<Rightarrow> bool" where
  "h_reach \<equiv> reach (\<lambda>s. s = h2client0) hstep"

section \<open>The invariant\<close>

text \<open>The bundle the supervisor is still to close.\<close>

fun to_close :: "supervisor \<Rightarrow> nat option" where
  "to_close (Serving b) = Some b"
| "to_close (Clearing b) = Some b"
| "to_close (Closing b) = Some b"
| "to_close (Dialled b) = Some b"
| "to_close _ = None"

text \<open>\<open>Close\<close> and its effects.\<close>

definition h_closing :: "h2client \<Rightarrow> bool" where
  "h_closing s \<longleftrightarrow>
     (h_closed s \<longleftrightarrow> h_close s \<noteq> NotClosing) \<and>
     (h_ctxdone s \<longleftrightarrow> (\<forall>b. h_close s \<noteq> Swapped b) \<and> h_close s \<noteq> NotClosing) \<and>
     (h_closed s \<longrightarrow> h_current s = None) \<and>
     (\<forall>b. h_close s \<in> {Swapped (Some b), Cancelled (Some b)} \<longrightarrow> b < h_next s)"

text \<open>Every bundle but the supervisor's has been closed, and that one is open until \<open>Close\<close> gets
  to it; the current bundle is the one that is served.\<close>

definition h_custody :: "h2client \<Rightarrow> bool" where
  "h_custody s \<longleftrightarrow>
     {..<h_next s} = h_retired s \<union> set_option (to_close (h_sup s)) \<and>
     (\<forall>b. to_close (h_sup s) = Some b \<longrightarrow> b \<in> h_retired s \<longrightarrow> h_ctxdone s) \<and>
     (\<forall>b. h_current s = Some b \<longrightarrow> h_sup s = Serving b \<or> h_sup s = Clearing b) \<and>
     (h_sup s = Gone \<longrightarrow> h_closed s)"

text \<open>A pump that is gone has left its reason where the supervisor looks.\<close>

definition h_signals :: "h2client \<Rightarrow> bool" where
  "h_signals s \<longleftrightarrow>
     (\<forall>b p. h_sup s = Serving b \<longrightarrow> (b, p) \<notin> h_pumps s \<longrightarrow> h_ctxdone s \<or> h_failed s b \<noteq> None) \<and>
     (\<forall>b. h_sup s = Serving b \<longrightarrow> b \<in> h_failonce s \<longrightarrow> h_failed s b \<noteq> None) \<and>
     (\<forall>b. h_sup s = Dialled b \<or> h_next s \<le> b \<longrightarrow> b \<notin> h_failonce s \<and> h_failed s b = None) \<and>
     (\<forall>b p. (b, p) \<in> h_pumps s \<longrightarrow> b < h_next s \<and> h_sup s \<in> {Serving b, Clearing b, Closing b, Joining b})"

text \<open>A blocked sender has nothing to send on.\<close>

definition h_sender :: "h2client \<Rightarrow> bool" where
  "h_sender s \<longleftrightarrow>
     (case h_out s of
        Blocked g n \<Rightarrow> (g < h_gen s \<or> g = h_gen s \<and> h_current s = None \<and> \<not> h_closed s) \<and> 0 < n \<and> n \<le> h2MTU
      | Sending b n \<Rightarrow> b < h_next s \<and> h_sup s \<noteq> Dialled b \<and> 0 < n \<and> n \<le> h2MTU
      | Looking n \<Rightarrow> 0 < n \<and> n \<le> h2MTU
      | _ \<Rightarrow> True)"

definition h_inv :: "h2client \<Rightarrow> bool" where
  "h_inv s \<longleftrightarrow> h_closing s \<and> h_custody s \<and> h_signals s \<and> h_sender s"

lemma fail_fields [simp]:
  "h_current (fail b e s) = h_current s" "h_gen (fail b e s) = h_gen s" "h_closed (fail b e s) = h_closed s"
  "h_ctxdone (fail b e s) = h_ctxdone s" "h_next (fail b e s) = h_next s" "h_retired (fail b e s) = h_retired s"
  "h_pumps (fail b e s) = h_pumps s" "h_sup (fail b e s) = h_sup s" "h_out (fail b e s) = h_out s"
  "h_close (fail b e s) = h_close s" "h_tunopen (fail b e s) = h_tunopen s" "h_tunfail (fail b e s) = h_tunfail s"
  "h_failonce (fail b e s) = insert b (h_failonce s)"
  "c \<noteq> b \<Longrightarrow> h_failed (fail b e s) c = h_failed s c"
  by (auto simp: fail_def Let_def)

lemma fail_told: "b \<notin> h_failonce s \<or> h_failed s b \<noteq> None \<Longrightarrow> h_failed (fail b e s) b \<noteq> None"
  by (auto simp: fail_def Let_def)

lemma bundle_retire_fields [simp]:
  "h_current (bundle_retire b s) = h_current s" "h_gen (bundle_retire b s) = h_gen s"
  "h_closed (bundle_retire b s) = h_closed s" "h_ctxdone (bundle_retire b s) = h_ctxdone s"
  "h_next (bundle_retire b s) = h_next s" "h_retired (bundle_retire b s) = h_retired s \<union> set_option b"
  "h_pumps (bundle_retire b s) = h_pumps s" "h_sup (bundle_retire b s) = h_sup s"
  "h_tunopen (bundle_retire b s) = h_tunopen s" "h_tunfail (bundle_retire b s) = h_tunfail s"
  "h_out (bundle_retire b s) = h_out s" "h_close (bundle_retire b s) = h_close s"
  "h_failonce (bundle_retire b s) = h_failonce s" "h_failed (bundle_retire b s) = h_failed s"
  by (auto simp: bundle_retire_def split: option.splits)

text \<open>What a turn of a pump does to the client: nothing, or one failure of its bundle.\<close>

lemma inbound_turn_cases:
  "inbound_turn b r w s = (False, s) \<or> inbound_turn b r w s = (True, s) \<and> (b \<in> h_retired s \<or> h_ctxdone s) \<or>
   (\<exists>e. inbound_turn b r w s = (True, fail b e s))"
  unfolding inbound_turn_def by (cases r) auto

lemma keepalive_turn_cases:
  "keepalive_turn b ping s = (False, s) \<or> (\<exists>e. keepalive_turn b ping s = (True, fail b e s))"
  unfolding keepalive_turn_def by auto

lemma setCurrent_True:
  "setCurrent b s = (True, s1) \<longleftrightarrow>
     \<not> h_closed s \<and> \<not> h_ctxdone s \<and> s1 = s\<lparr>h_current := Some b, h_gen := Suc (h_gen s)\<rparr>"
  by (auto simp: setCurrent_def)

lemma setCurrent_False: "setCurrent b s = (False, s1) \<longleftrightarrow> (h_closed s \<or> h_ctxdone s) \<and> s1 = s"
  by (auto simp: setCurrent_def)

text \<open>Steps that touch only the sender, or end a pump with or without a failure.\<close>

inductive pump_ends :: "h2client \<Rightarrow> h2client \<Rightarrow> bool" where
  quiet: "pump_ends s s"
| excused: "(b, p) \<in> h_pumps s \<Longrightarrow> b \<in> h_retired s \<or> h_ctxdone s \<Longrightarrow>
    pump_ends s (s\<lparr>h_pumps := h_pumps s - {(b, p)}\<rparr>)"
| failing: "(b, p) \<in> h_pumps s \<Longrightarrow>
    pump_ends s ((fail b e s)\<lparr>h_pumps := h_pumps s - {(b, p)}\<rparr>)"

lemma pump_inbound_ends: "(b, Inbound) \<in> h_pumps s \<Longrightarrow> pump_ends s (pump_end b Inbound (inbound_turn b r w s))"
  using inbound_turn_cases [of b r w s] by (auto simp: pump_end_def intro: pump_ends.intros)

lemma pump_tick_ends: "(b, Keepalive) \<in> h_pumps s \<Longrightarrow> pump_ends s (pump_end b Keepalive (keepalive_turn b ping s))"
  using keepalive_turn_cases [of b ping s] by (auto simp: pump_end_def intro: pump_ends.intros)

text \<open>Which fields the parts of the invariant look at.\<close>

lemma h_frame [simp]:
  "h_closing (fail b e s) = h_closing s" "h_custody (fail b e s) = h_custody s" "h_sender (fail b e s) = h_sender s"
  "h_closing (s\<lparr>h_pumps := P\<rparr>) = h_closing s" "h_custody (s\<lparr>h_pumps := P\<rparr>) = h_custody s"
  "h_sender (s\<lparr>h_pumps := P\<rparr>) = h_sender s" "h_closing (s\<lparr>h_out := q\<rparr>) = h_closing s"
  "h_custody (s\<lparr>h_out := q\<rparr>) = h_custody s" "h_signals (s\<lparr>h_out := q\<rparr>) = h_signals s"
  "h_custody (s\<lparr>h_close := q'\<rparr>) = h_custody s" "h_signals (s\<lparr>h_close := q'\<rparr>) = h_signals s"
  "h_sender (s\<lparr>h_close := q'\<rparr>) = h_sender s" "h_closing (s\<lparr>h_tunopen := o1\<rparr>) = h_closing s"
  "h_custody (s\<lparr>h_tunopen := o1\<rparr>) = h_custody s" "h_signals (s\<lparr>h_tunopen := o1\<rparr>) = h_signals s"
  "h_sender (s\<lparr>h_tunopen := o1\<rparr>) = h_sender s" "h_closing (s\<lparr>h_tunfail := o1\<rparr>) = h_closing s"
  "h_custody (s\<lparr>h_tunfail := o1\<rparr>) = h_custody s" "h_signals (s\<lparr>h_tunfail := o1\<rparr>) = h_signals s"
  "h_sender (s\<lparr>h_tunfail := o1\<rparr>) = h_sender s"
  by (simp_all add: h_closing_def h_custody_def h_sender_def h_signals_def cong: outbound.case_cong)

lemma h_signalsI:
  assumes "\<And>b p. h_sup s = Serving b \<Longrightarrow> (b, p) \<notin> h_pumps s \<Longrightarrow> h_ctxdone s \<or> h_failed s b \<noteq> None"
    and "\<And>b. h_sup s = Serving b \<Longrightarrow> b \<in> h_failonce s \<Longrightarrow> h_failed s b \<noteq> None"
    and "\<And>b. h_sup s = Dialled b \<or> h_next s \<le> b \<Longrightarrow> b \<notin> h_failonce s \<and> h_failed s b = None"
    and "\<And>b p. (b, p) \<in> h_pumps s \<Longrightarrow> b < h_next s \<and> h_sup s \<in> {Serving b, Clearing b, Closing b, Joining b}"
  shows "h_signals s"
  unfolding h_signals_def using assms by blast

lemma h_signalsD:
  assumes "h_signals s"
  shows "h_sup s = Serving b \<Longrightarrow> (b, p) \<notin> h_pumps s \<Longrightarrow> h_ctxdone s \<or> h_failed s b \<noteq> None"
    and "h_sup s = Serving b \<Longrightarrow> b \<in> h_failonce s \<Longrightarrow> h_failed s b \<noteq> None"
    and "h_sup s = Dialled b \<or> h_next s \<le> b \<Longrightarrow> b \<notin> h_failonce s \<and> h_failed s b = None"
    and "(b, p) \<in> h_pumps s \<Longrightarrow> b < h_next s \<and> h_sup s \<in> {Serving b, Clearing b, Closing b, Joining b}"
  using assms unfolding h_signals_def by blast+

lemma h_custodyI:
  assumes "{..<h_next s} = h_retired s \<union> set_option (to_close (h_sup s))"
    and "\<And>b. to_close (h_sup s) = Some b \<Longrightarrow> b \<in> h_retired s \<Longrightarrow> h_ctxdone s"
    and "\<And>b. h_current s = Some b \<Longrightarrow> h_sup s = Serving b \<or> h_sup s = Clearing b"
    and "h_sup s = Gone \<Longrightarrow> h_closed s"
  shows "h_custody s"
  unfolding h_custody_def using assms by blast

lemma h_custodyD:
  assumes "h_custody s"
  shows "{..<h_next s} = h_retired s \<union> set_option (to_close (h_sup s))"
    and "to_close (h_sup s) = Some b \<Longrightarrow> b \<in> h_retired s \<Longrightarrow> h_ctxdone s"
    and "h_current s = Some b \<Longrightarrow> h_sup s = Serving b \<or> h_sup s = Clearing b"
    and "h_sup s = Gone \<Longrightarrow> h_closed s"
  using assms unfolding h_custody_def by blast+

lemma to_close_lt: "h_custody s \<Longrightarrow> to_close (h_sup s) = Some b \<Longrightarrow> b < h_next s"
  using h_custodyD(1) [of s] by (auto simp: set_eq_iff)

lemma h_signals_fail:
  assumes "h_signals s" "b < h_next s" "h_sup s \<noteq> Dialled b"
  shows "h_signals (fail b e s)"
proof (rule h_signalsI)
  have told: "h_failed (fail b e s) b \<noteq> None" if "h_sup s = Serving b"
    using h_signalsD(2) [OF assms(1) that] by (intro fail_told) blast
  show "h_failed (fail b e s) c \<noteq> None" if "h_sup (fail b e s) = Serving c" "c \<in> h_failonce (fail b e s)" for c
    using that told h_signalsD(2) [OF assms(1), of c] by (cases "c = b") auto
  show "h_ctxdone (fail b e s) \<or> h_failed (fail b e s) c \<noteq> None"
    if "h_sup (fail b e s) = Serving c" "(c, p) \<notin> h_pumps (fail b e s)" for c p
    using that told h_signalsD(1) [OF assms(1), of c p] by (cases "c = b") auto
  show "c \<notin> h_failonce (fail b e s) \<and> h_failed (fail b e s) c = None"
    if "h_sup (fail b e s) = Dialled c \<or> h_next (fail b e s) \<le> c" for c
    using that assms(2,3) h_signalsD(3) [OF assms(1), of c] by (cases "c = b") auto
qed (use h_signalsD(4) [OF assms(1)] in auto)

lemma h_signals_drop:
  assumes "h_signals s" "(b, p) \<in> h_pumps s" "h_sup s = Serving b \<Longrightarrow> h_ctxdone s \<or> h_failed s b \<noteq> None"
    and "s' = s\<lparr>h_pumps := h_pumps s - {(b, p)}\<rparr>"
  shows "h_signals s'"
proof (rule h_signalsI; unfold assms(4); simp)
  show "h_ctxdone s \<or> (\<exists>y. h_failed s c = Some y)"
    if "h_sup s = Serving c" "(c, q) \<in> h_pumps s \<longrightarrow> c = b \<and> q = p" for c q
    using that assms(3) h_signalsD(1) [OF assms(1) that(1), of q] by (cases "(c, q) \<in> h_pumps s") auto
  show "\<exists>y. h_failed s c = Some y" if "h_sup s = Serving c" "c \<in> h_failonce s" for c
    using h_signalsD(2) [OF assms(1) that] by blast
  show "c \<notin> h_failonce s \<and> h_failed s c = None" if "h_sup s = Dialled c \<or> h_next s \<le> c" for c
    by (rule h_signalsD(3) [OF assms(1) that])
  show "c < h_next s \<and> (h_sup s = Serving c \<or> h_sup s = Clearing c \<or> h_sup s = Closing c \<or> h_sup s = Joining c)"
    if "(c, q) \<in> h_pumps s \<and> (c = b \<longrightarrow> q \<noteq> p)" for c q
    using h_signalsD(4) [OF assms(1), of c q] that by blast
qed

lemma h_inv_pump:
  assumes "h_inv s" "pump_ends s s'"
  shows "h_inv s'"
  using assms(2)
proof cases
  case (excused b p)
  have sg: "h_signals s" and cu: "h_custody s" using assms(1) by (simp_all add: h_inv_def)
  have c: "h_ctxdone s" if "h_sup s = Serving b"
    using h_custodyD(2) [OF cu, of b] that excused(3) by auto
  have "h_signals s'"
    by (rule h_signals_drop [OF sg excused(2)]) (use c excused(1) in blast)+
  then show ?thesis using assms(1) excused by (simp add: h_inv_def)
next
  case (failing b p e)
  have sg: "h_signals s" and cu: "h_custody s" using assms(1) by (simp_all add: h_inv_def)
  have sup: "b < h_next s \<and> h_sup s \<in> {Serving b, Clearing b, Closing b, Joining b}" by (rule h_signalsD(4) [OF sg failing(2)])
  with sg have f: "h_signals (fail b e s)" by (intro h_signals_fail) auto
  have "h_failed (fail b e s) b \<noteq> None" if "h_sup s = Serving b"
    using h_signalsD(2) [OF f] that by simp
  then have "h_signals s'"
    by (intro h_signals_drop [OF f]) (use failing(1,2) in auto)
  then show ?thesis using assms(1) failing by (simp add: h_inv_def)
qed (use assms in simp)

text \<open>A step of the supervisor to a place other than serving.\<close>

lemma h_signals_sup:
  assumes "h_signals s" "h_next s \<le> h_next s'" "h_failonce s' = h_failonce s" "h_pumps s' = h_pumps s"
    and "\<And>c. h_failed s c = None \<Longrightarrow> h_failed s' c = None" "\<And>c. h_sup s' \<noteq> Serving c"
    and "\<And>c. h_sup s' = Dialled c \<Longrightarrow> h_sup s = Dialled c \<or> h_next s \<le> c"
    and "\<And>c p. (c, p) \<in> h_pumps s \<Longrightarrow> h_sup s' \<in> {Clearing c, Closing c, Joining c}"
  shows "h_signals s'"
proof (rule h_signalsI)
  show "c \<notin> h_failonce s' \<and> h_failed s' c = None" if "h_sup s' = Dialled c \<or> h_next s' \<le> c" for c
  proof -
    have "h_sup s = Dialled c \<or> h_next s \<le> c" using that assms(2,7) le_trans by blast
    from h_signalsD(3) [OF assms(1) this] show ?thesis using assms(3,5) by simp
  qed
  show "c < h_next s' \<and> h_sup s' \<in> {Serving c, Clearing c, Closing c, Joining c}" if "(c, p) \<in> h_pumps s'" for c p
    using that assms(2,4) assms(8) [of c p] h_signalsD(4) [OF assms(1), of c p] by auto
qed (use assms(6) in auto)

lemma h_sender_sup:
  assumes "h_sender s" "h_out s' = h_out s" "h_gen s \<le> h_gen s'" "h_next s \<le> h_next s'"
    and "h_gen s' = h_gen s \<Longrightarrow> h_current s' = h_current s" "h_closed s' = h_closed s"
    and "\<And>c. h_sup s' = Dialled c \<Longrightarrow> h_next s \<le> c"
  shows "h_sender s'"
  using assms by (cases "h_out s") (auto simp: h_sender_def)

lemma clearCurrent_fields [simp]:
  "h_closed (clearCurrent b s) = h_closed s" "h_ctxdone (clearCurrent b s) = h_ctxdone s"
  "h_next (clearCurrent b s) = h_next s" "h_retired (clearCurrent b s) = h_retired s"
  "h_pumps (clearCurrent b s) = h_pumps s" "h_sup (clearCurrent b s) = h_sup s"
  "h_tunopen (clearCurrent b s) = h_tunopen s" "h_tunfail (clearCurrent b s) = h_tunfail s"
  "h_out (clearCurrent b s) = h_out s" "h_close (clearCurrent b s) = h_close s"
  "h_failonce (clearCurrent b s) = h_failonce s" "h_failed (clearCurrent b s) = h_failed s"
  "h_gen s \<le> h_gen (clearCurrent b s)"
  "h_gen (clearCurrent b s) = h_gen s \<Longrightarrow> h_current (clearCurrent b s) = h_current s"
  "h_current (clearCurrent b s) = Some c \<longleftrightarrow> h_current s = Some c \<and> c \<noteq> b"
  "h_current s = None \<Longrightarrow> h_current (clearCurrent b s) = None"
  by (auto simp: clearCurrent_def)

lemma h_inv_sup:
  assumes "h_inv s" "h_next s \<le> h_next s'" "h_failonce s' = h_failonce s" "h_pumps s' = h_pumps s"
    and "h_out s' = h_out s" "h_gen s \<le> h_gen s'" "h_close s' = h_close s"
    and "h_closed s' = h_closed s" "h_ctxdone s' = h_ctxdone s"
    and "h_current s' = None \<or> h_current s' = h_current s" "h_gen s' = h_gen s \<Longrightarrow> h_current s' = h_current s"
    and "\<And>c. h_failed s c = None \<Longrightarrow> h_failed s' c = None" "\<And>c. h_sup s' \<noteq> Serving c"
    and "\<And>c. h_sup s' = Dialled c \<Longrightarrow> h_next s \<le> c"
    and "\<And>c p. (c, p) \<in> h_pumps s \<Longrightarrow> h_sup s' \<in> {Clearing c, Closing c, Joining c}"
    and "{..<h_next s'} = h_retired s' \<union> set_option (to_close (h_sup s'))"
    and "\<And>b. to_close (h_sup s') = Some b \<Longrightarrow> b \<in> h_retired s' \<Longrightarrow> h_ctxdone s'"
    and "\<And>b. h_current s' = Some b \<Longrightarrow> h_sup s' = Clearing b"
    and "h_sup s' = Gone \<Longrightarrow> h_closed s'"
  shows "h_inv s'"
proof -
  have "h_signals s'" by (rule h_signals_sup [of s]) (use assms in \<open>auto simp: h_inv_def\<close>)
  moreover have "h_custody s'" using assms(16-19) by (intro h_custodyI) simp_all
  moreover have "h_sender s'" by (rule h_sender_sup [of s]) (use assms in \<open>auto simp: h_inv_def\<close>)
  moreover have "h_closing s'" using assms(1,2,7-10) by (auto simp: h_inv_def h_closing_def)
  ultimately show ?thesis by (simp add: h_inv_def)
qed

lemma only_pumps: "p \<noteq> Inbound \<Longrightarrow> p \<noteq> Keepalive \<Longrightarrow> False"
  by (cases p) simp_all

lemma h_inv_step:
  assumes "h_inv s" "hstep s s'"
  shows "h_inv s'"
proof -
  have cl: "h_closing s" and cu: "h_custody s" and sg: "h_signals s" and se: "h_sender s"
    using assms(1) by (simp_all add: h_inv_def)
  show ?thesis
    using assms(2)
  proof cases
    case (serve_cancelled b)
    show ?thesis
      by (rule h_inv_sup [OF assms(1)])
        (use serve_cancelled h_signalsD(4) [OF sg] h_custodyD [OF cu] in \<open>auto simp: h_closing_def setCurrent_False\<close>)
  next
    case (serve_failed b e)
    show ?thesis
      by (rule h_inv_sup [OF assms(1)])
        (use serve_failed h_signalsD(4) [OF sg] h_custodyD [OF cu] in \<open>auto simp: h_closing_def setCurrent_False\<close>)
  next
    case (serve_clear b)
    show ?thesis
      by (rule h_inv_sup [OF assms(1)])
        (use serve_clear h_signalsD(4) [OF sg] h_custodyD [OF cu] in \<open>auto simp: h_closing_def setCurrent_False\<close>)
  next
    case (serve_close b)
    show ?thesis
      by (rule h_inv_sup [OF assms(1)])
        (use serve_close h_signalsD(4) [OF sg] h_custodyD [OF cu] in \<open>auto simp: h_closing_def setCurrent_False\<close>)
  next
    case (serve_join b)
    show ?thesis
      by (rule h_inv_sup [OF assms(1)])
        (use serve_join h_signalsD(4) [OF sg] h_custodyD [OF cu] cl in \<open>auto simp: h_closing_def setCurrent_False\<close>)
  next
    case (delay_cancelled)
    show ?thesis
      by (rule h_inv_sup [OF assms(1)])
        (use delay_cancelled h_signalsD(4) [OF sg] h_custodyD [OF cu] cl in \<open>auto simp: h_closing_def setCurrent_False\<close>)
  next
    case (delay_over)
    show ?thesis
      by (rule h_inv_sup [OF assms(1)])
        (use delay_over h_signalsD(4) [OF sg] h_custodyD [OF cu] in \<open>auto simp: h_closing_def setCurrent_False\<close>)
  next
    case (redial_failed)
    show ?thesis
      by (rule h_inv_sup [OF assms(1)])
        (use redial_failed h_signalsD(4) [OF sg] h_custodyD [OF cu] cl in \<open>auto simp: h_closing_def setCurrent_False\<close>)
  next
    case (redial_done)
    show ?thesis
      by (rule h_inv_sup [OF assms(1)])
        (use redial_done h_signalsD(4) [OF sg] h_custodyD [OF cu] in \<open>auto simp: lessThan_Suc\<close>)
  next
    case (install_refused b s1)
    show ?thesis
      by (rule h_inv_sup [OF assms(1)])
        (use install_refused h_signalsD(4) [OF sg] h_custodyD [OF cu] cl in \<open>auto simp: h_closing_def setCurrent_False\<close>)
  next
    case (pump_inbound b r w)
    then show ?thesis using h_inv_pump [OF assms(1) pump_inbound_ends] by simp
  next
    case (pump_tick b ping)
    then show ?thesis using h_inv_pump [OF assms(1) pump_tick_ends] by simp
  next
    case (pump_done b)
    then show ?thesis using h_inv_pump [OF assms(1) excused] by simp
  next
    case (out_packet n)
    then show ?thesis using assms(1) by (auto simp: h_inv_def h_sender_def outbound_read_def)
  next
    case out_closed
    then show ?thesis using assms(1) by (auto simp: h_inv_def h_sender_def outbound_read_def)
  next
    case out_broken
    then show ?thesis using assms(1) by (auto simp: h_inv_def h_sender_def outbound_read_def)
  next
    case (out_look n)
    then show ?thesis using cl cu sg se to_close_lt [OF cu] h_custodyD(3) [OF cu]
      by (auto simp: h_inv_def h_sender_def waitCurrent_def split: option.splits)
  next
    case (out_woken g n)
    then show ?thesis using assms(1) by (simp add: h_inv_def h_sender_def)
  next
    case (out_cancelled g n)
    then show ?thesis using assms(1) by (simp add: h_inv_def h_sender_def)
  next
    case (out_sent b n)
    then show ?thesis using assms(1) by (simp add: h_inv_def h_sender_def)
  next
    case (out_failed b n)
    then have "b < h_next s" "h_sup s \<noteq> Dialled b" using se by (simp_all add: h_sender_def)
    with h_signals_fail [OF sg] out_failed cl cu show ?thesis by (simp add: h_inv_def h_sender_def)
  next
    case (close_tun)
    then show ?thesis using assms(1) by (simp add: h_inv_def h_closing_def)
  next
    case (close_join)
    then show ?thesis using assms(1) by (simp add: h_inv_def h_closing_def)
  next
    case (install b s1)
    note eq = setCurrent_True [THEN iffD1, OF install(3)]
    have new: "b \<notin> h_failonce s" "h_failed s b = None" "h_next s > b" "b \<notin> h_retired s"
      using h_signalsD(3) [OF sg, of b] install(2) to_close_lt [OF cu] h_custodyD(2) [OF cu, of b] eq by auto
    have "h_signals s'"
      by (rule h_signalsI) (use install eq new h_signalsD(3) [OF sg] in \<open>auto dest: only_pumps\<close>)
    moreover have "h_custody s'"
      by (rule h_custodyI) (use install eq new h_custodyD(1) [OF cu] in auto)
    moreover have "h_sender s'" using se install eq by (cases "h_out s") (auto simp: h_sender_def)
    ultimately show ?thesis using cl install eq by (auto simp: h_inv_def h_closing_def)
  next
    case close_swap
    have "h_custody s'"
      by (rule h_custodyI) (use close_swap h_custodyD [OF cu] in auto)
    moreover have "h_signals s'"
      by (rule h_signalsI) (use close_swap h_signalsD [OF sg] in auto)
    moreover have "h_sender s'" using se close_swap by (cases "h_out s") (auto simp: h_sender_def)
    moreover have "b < h_next s" if "h_current s = Some b" for b
      using h_custodyD(3) [OF cu that] to_close_lt [OF cu] by auto
    ultimately show ?thesis using cl close_swap by (auto simp: h_inv_def h_closing_def)
  next
    case (close_cancel b)
    have "h_custody s'"
      by (rule h_custodyI) (use close_cancel h_custodyD [OF cu] in auto)
    moreover have "h_signals s'"
      by (rule h_signalsI) (use close_cancel h_signalsD [OF sg] in auto)
    moreover have "h_sender s'" using se close_cancel by (cases "h_out s") (auto simp: h_sender_def)
    ultimately show ?thesis using cl close_cancel by (auto simp: h_inv_def h_closing_def)
  next
    case (close_bundle b)
    have lt: "set_option b \<subseteq> {..<h_next s}" "h_ctxdone s" "h_current s = None"
      using cl close_bundle(2) by (auto simp: h_closing_def)
    have "h_custody s'"
      by (rule h_custodyI) (use close_bundle lt h_custodyD [OF cu] in auto)
    moreover have "h_signals s'"
      by (rule h_signalsI) (use close_bundle h_signalsD [OF sg] in auto)
    moreover have "h_sender s'" using se close_bundle by (cases "h_out s") (auto simp: h_sender_def)
    ultimately show ?thesis using cl close_bundle by (auto simp: h_inv_def h_closing_def)
  qed
qed

section \<open>Custody\<close>

definition h_made :: "h2client \<Rightarrow> nat set" where
  "h_made s = {..<h_next s}"

text \<open>What the supervisor is still to close and has not been closed by \<open>Close\<close> either.\<close>

definition h_held :: "h2client \<Rightarrow> nat set" where
  "h_held s = set_option (to_close (h_sup s)) - h_retired s"

lemma h_inv_start: "h_inv h2client0"
  by (auto simp: h_inv_def h2client0_def h_closing_def h_custody_def h_signals_def h_sender_def lessThan_Suc
      dest: only_pumps)

interpretation h2: custody "\<lambda>s. s = h2client0" hstep h_inv h_made h_retired h_held
proof unfold_locales
  show "h_made s = h_retired s \<union> h_held s" if "h_inv s" for s
    using that h_custodyD(1) [of s] by (auto simp: h_inv_def h_made_def h_held_def)
qed (use h_inv_start h_inv_step in \<open>auto simp: h_held_def\<close>)

section \<open>The device\<close>

definition h_device :: "h2client \<Rightarrow> bool" where
  "h_device s \<longleftrightarrow> (h_tunopen s \<longleftrightarrow> h_close s \<noteq> TunClosed \<and> h_close s \<noteq> Finished) \<and>
     (h_out s = Stopped \<longrightarrow> h_closed s \<or> h_tunfail s)"

lemma pump_ends_fields:
  "pump_ends s s' \<Longrightarrow> h_sup s' = h_sup s \<and> h_out s' = h_out s \<and> h_close s' = h_close s \<and>
     h_tunopen s' = h_tunopen s \<and> h_tunfail s' = h_tunfail s \<and> h_closed s' = h_closed s \<and> h_pumps s' \<subseteq> h_pumps s"
  by (erule pump_ends.cases) auto

lemma h_device_step:
  assumes "h_closing s" "h_device s" "hstep s s'"
  shows "h_device s'"
  using assms(3)
proof cases
  case (pump_inbound b r w)
  then show ?thesis using assms(2) pump_ends_fields [OF pump_inbound_ends [OF pump_inbound(2), of r w]]
    by (simp add: h_device_def)
next
  case (pump_tick b ping)
  then show ?thesis using assms(2) pump_ends_fields [OF pump_tick_ends [OF pump_tick(2), of ping]]
    by (simp add: h_device_def)
qed (use assms(1,2) in \<open>auto simp: h_device_def h_closing_def setCurrent_True setCurrent_False waitCurrent_def
    outbound_read_def split: option.splits if_splits\<close>)

lemma h_device_reach:
  assumes "h_reach s"
  shows "h_device s"
proof -
  have "h_inv s \<and> h_device s"
  proof (rule reach_induct_inv [OF assms])
    show "h_inv t \<and> h_device t" if "t = h2client0" for t
      using h_inv_start that by (simp add: h_device_def h2client0_def)
    show "h_inv u \<and> h_device u" if "h_inv t \<and> h_device t" "hstep t u" for t u
      using that h_inv_step [of t u] h_device_step [of t u] by (simp add: h_inv_def)
  qed
  then show ?thesis ..
qed

section \<open>Shutdown\<close>

text \<open>A step that the program has made possible itself and that does not wait for the network or for
  packets: a call that blocks returns because its context is cancelled, its connection closed, or
  the device closed. (What the code relies on here is documented behaviour of the transport and
  of the network stack: a read or write on a connection that has been closed, and a read on a
  device that has been closed, return with an error.)\<close>

definition unblocked :: "h2client \<Rightarrow> h2client \<Rightarrow> bool" where
  "unblocked s s' \<longleftrightarrow> hstep s s' \<and>
     (h_close s' \<noteq> h_close s \<or>
      h_sup s' \<noteq> h_sup s \<and> (h_sup s = Delaying \<or> h_sup s = Dialling \<longrightarrow> h_ctxdone s \<and> h_sup s' = Gone) \<or>
      (\<exists>b p. (b, p) \<in> h_pumps s \<and> h_pumps s' = h_pumps s - {(b, p)} \<and>
         (b \<in> h_retired s \<or> p = Keepalive \<and> h_ctxdone s)) \<or>
      h_out s' \<noteq> h_out s \<and>
        (case h_out s of Reading \<Rightarrow> \<not> h_tunopen s | Sending b n \<Rightarrow> b \<in> h_retired s | _ \<Rightarrow> True))"

fun sup_weight :: "supervisor \<Rightarrow> nat" where
  "sup_weight (Serving b) = 5"
| "sup_weight (Clearing b) = 4"
| "sup_weight (Closing b) = 3"
| "sup_weight (Joining b) = 2"
| "sup_weight Gone = 0"
| "sup_weight _ = 1"

fun out_weight :: "outbound \<Rightarrow> nat" where
  "out_weight Stopped = 0"
| "out_weight (Looking n) = 1"
| "out_weight (Sending b n) = 3"
| "out_weight _ = 2"

fun close_weight :: "closer \<Rightarrow> nat" where
  "close_weight NotClosing = 5"
| "close_weight (Swapped b) = 4"
| "close_weight (Cancelled b) = 3"
| "close_weight Retired = 2"
| "close_weight TunClosed = 1"
| "close_weight Finished = 0"

definition h_weight :: "h2client \<Rightarrow> nat" where
  "h_weight s = sup_weight (h_sup s) + card (h_pumps s) + out_weight (h_out s) + close_weight (h_close s)"

lemma pumps_two:
  assumes "h_signals s"
  shows "finite (h_pumps s)" "card (h_pumps s) \<le> 2"
proof -
  have "\<exists>c. h_pumps s \<subseteq> {(c, Inbound), (c, Keepalive)}"
  proof (cases "h_pumps s = {}")
    case False
    then obtain c p where "(c, p) \<in> h_pumps s" by auto
    then have "d = c" if "(d, q) \<in> h_pumps s" for d q
      using h_signalsD(4) [OF assms, of c p] h_signalsD(4) [OF assms that] by auto
    then show ?thesis by (intro exI [of _ c]) (use only_pumps in auto)
  qed simp
  then obtain c where c: "h_pumps s \<subseteq> {(c, Inbound), (c, Keepalive)}" by blast
  then show "finite (h_pumps s)" by (rule finite_subset) simp
  from card_mono [OF _ c] show "card (h_pumps s) \<le> 2" by simp
qed

lemma sup_weight_le: "sup_weight p \<le> 5"
  by (cases p) simp_all

lemma out_weight_le: "out_weight p \<le> 3"
  by (cases p) simp_all

text \<open>While the client is being closed no step adds to what is left to do, and an unblocked one
  takes something off it.\<close>

lemma pump_turn_weight:
  assumes "h_signals s" "pump_ends s s'"
  shows "h_weight s' \<le> h_weight s \<and> (unblocked s s' \<longrightarrow> h_weight s' < h_weight s)"
  using assms(2)
proof cases
  case quiet
  have "h_pumps s - {(b, p)} \<noteq> h_pumps s" if "(b, p) \<in> h_pumps s" for b p using that by blast
  with quiet show ?thesis by (auto simp: unblocked_def)
next
  case (excused b p)
  with card_Diff1_less [OF pumps_two(1) [OF assms(1)]] show ?thesis by (auto simp: h_weight_def)
next
  case (failing b p e)
  with card_Diff1_less [OF pumps_two(1) [OF assms(1)]] show ?thesis by (auto simp: h_weight_def)
qed

lemma closing_weight:
  assumes "h_inv s" "h_closed s" "hstep s s'"
  shows "h_weight s' \<le> h_weight s \<and> (unblocked s s' \<longrightarrow> h_weight s' < h_weight s)"
proof -
  have sg: "h_signals s" and cl: "h_closing s" using assms(1) by (simp_all add: h_inv_def)
  have stay: "(\<exists>b p. (b, p) \<in> h_pumps s \<and> h_pumps s = h_pumps s - {(b, p)} \<and> Q b p) = False" for Q by blast
  show ?thesis
    using assms(3)
  proof cases
    case (pump_inbound b r w)
    then show ?thesis using pump_turn_weight [OF sg pump_inbound_ends] by blast
  next
    case (pump_tick b ping)
    then show ?thesis using pump_turn_weight [OF sg pump_tick_ends] by blast
  next
    case (pump_done b)
    then show ?thesis using pump_turn_weight [OF sg excused] by blast
  next
    case (install b s1)
    then show ?thesis using assms(2) by (simp add: setCurrent_True)
  next
    case (install_refused b s1)
    then show ?thesis by (simp add: h_weight_def setCurrent_False)
  next
    case (out_packet n)
    then show ?thesis by (simp add: h_weight_def outbound_read_def unblocked_def stay)
  next
    case (out_look n)
    then show ?thesis using assms(2) by (simp add: h_weight_def waitCurrent_def)
  next
    case close_swap
    then show ?thesis using assms(2) cl by (simp add: h_closing_def)
  qed (simp_all add: h_weight_def unblocked_def stay outbound_read_def)
qed

lemma closed_stays:
  assumes "hstep s s'" "h_closed s"
  shows "h_closed s'"
  using assms(1)
proof cases
  case (pump_inbound b r w)
  then show ?thesis using assms(2) pump_ends_fields [OF pump_inbound_ends [OF pump_inbound(2), of r w]] by simp
next
  case (pump_tick b ping)
  then show ?thesis using assms(2) pump_ends_fields [OF pump_tick_ends [OF pump_tick(2), of ping]] by simp
qed (use assms(2) in \<open>simp_all add: setCurrent_True setCurrent_False\<close>)

text \<open>Until \<open>Close\<close> has returned some step is unblocked.\<close>

lemma pump_unblocked:
  assumes "(b, p) \<in> h_pumps s" "h_ctxdone s" "b \<in> h_retired s"
  shows "\<exists>s'. unblocked s s'"
proof (cases p)
  case Inbound
  have "hstep s (pump_end b Inbound (inbound_turn b (Inl ReceiveFailed) False s))"
    using assms(1) Inbound by (intro pump_inbound) simp
  then show ?thesis
    using assms Inbound by (intro exI [of _ "s\<lparr>h_pumps := h_pumps s - {(b, Inbound)}\<rparr>"])
      (auto simp: unblocked_def pump_end_def inbound_turn_def)
next
  case Keepalive
  with assms pump_done [of b s] show ?thesis
    by (intro exI [of _ "s\<lparr>h_pumps := h_pumps s - {(b, Keepalive)}\<rparr>"]) (auto simp: unblocked_def)
qed

lemma sup_unblocked:
  assumes "h_inv s" "h_ctxdone s" "h_closed s" "h_sup s \<noteq> Gone"
  shows "\<exists>s'. unblocked s s'"
proof (cases "h_sup s")
  case (Serving b)
  with serve_cancelled [OF Serving assms(2)] show ?thesis
    by (intro exI [of _ "s\<lparr>h_sup := Clearing b\<rparr>"]) (simp add: unblocked_def)
next
  case (Clearing b)
  with serve_clear [OF Clearing] show ?thesis
    by (intro exI [of _ "(clearCurrent b s)\<lparr>h_sup := Closing b\<rparr>"]) (simp add: unblocked_def)
next
  case (Closing b)
  with serve_close [OF Closing] show ?thesis
    by (intro exI [of _ "(bundle_retire (Some b) s)\<lparr>h_sup := Joining b\<rparr>"]) (simp add: unblocked_def)
next
  case (Joining b)
  show ?thesis
  proof (cases "h_pumps s = {}")
    case True
    with serve_join [OF Joining True] Joining show ?thesis
      by (intro exI [of _ "s\<lparr>h_sup := (if h_ctxdone s then Gone else Delaying)\<rparr>"]) (simp add: unblocked_def)
  next
    case False
    then obtain c p where p: "(c, p) \<in> h_pumps s" by auto
    have "c \<in> {..<h_next s}" using assms(1) p h_signalsD(4) by (auto simp: h_inv_def)
    then have "c \<in> h_retired s" using assms(1) Joining h_custodyD(1) [of s] by (auto simp: h_inv_def)
    with pump_unblocked [OF p assms(2)] show ?thesis by blast
  qed
next
  case Delaying
  with delay_cancelled [OF Delaying assms(2)] assms(2) show ?thesis
    by (intro exI [of _ "s\<lparr>h_sup := Gone\<rparr>"]) (simp add: unblocked_def)
next
  case Dialling
  with redial_failed [OF Dialling] assms(2) show ?thesis
    by (intro exI [of _ "s\<lparr>h_sup := Gone\<rparr>"]) (simp add: unblocked_def)
next
  case (Dialled b)
  have "setCurrent b s = (False, s)" using assms(3) by (simp add: setCurrent_False)
  from install_refused [OF Dialled this] Dialled show ?thesis
    by (intro exI [of _ "(bundle_retire (Some b) s)\<lparr>h_sup := Gone\<rparr>"]) (simp add: unblocked_def)
qed (use assms(4) in simp)

lemma out_unblocked:
  assumes "h_inv s" "h_ctxdone s" "h_closed s" "\<not> h_tunopen s" "h_sup s = Gone" "h_out s \<noteq> Stopped"
  shows "\<exists>s'. unblocked s s'"
proof (cases "h_out s")
  case Reading
  with out_closed [OF Reading assms(4)] assms(4) show ?thesis
    by (intro exI [of _ "s\<lparr>h_out := outbound_read None\<rparr>"]) (simp add: unblocked_def outbound_read_def)
next
  case (Looking n)
  with out_look [OF Looking] assms(3) show ?thesis
    by (intro exI [of _ "s\<lparr>h_out := waitCurrent n s\<rparr>"]) (simp add: unblocked_def waitCurrent_def)
next
  case (Blocked g n)
  with out_cancelled [OF Blocked assms(2)] show ?thesis
    by (intro exI [of _ "s\<lparr>h_out := Stopped\<rparr>"]) (simp add: unblocked_def)
next
  case (Sending b n)
  have "b \<in> {..<h_next s}" using assms(1) Sending by (simp add: h_inv_def h_sender_def)
  moreover have "{..<h_next s} = h_retired s" using assms(1,5) h_custodyD(1) [of s] by (simp add: h_inv_def)
  ultimately have "b \<in> h_retired s" by blast
  with out_failed [OF Sending] Sending show ?thesis
    by (intro exI [of _ "(fail b (Some SendFailed) s)\<lparr>h_out := Reading\<rparr>"]) (simp add: unblocked_def)
qed (use assms(6) in simp)

lemma close_unblocked:
  assumes "h_inv s" "h_device s" "h_close s \<noteq> NotClosing" "h_close s \<noteq> Finished"
  shows "\<exists>s'. unblocked s s'"
proof (cases "h_close s")
  case (Swapped b)
  from close_cancel [OF Swapped] Swapped show ?thesis
    by (intro exI [of _ "s\<lparr>h_ctxdone := True, h_close := Cancelled b\<rparr>"]) (simp add: unblocked_def)
next
  case (Cancelled b)
  from close_bundle [OF Cancelled] Cancelled show ?thesis
    by (intro exI [of _ "(bundle_retire b s)\<lparr>h_close := Retired\<rparr>"]) (simp add: unblocked_def)
next
  case Retired
  from close_tun [OF Retired] Retired show ?thesis
    by (intro exI [of _ "s\<lparr>h_tunopen := False, h_close := TunClosed\<rparr>"]) (simp add: unblocked_def)
next
  case TunClosed
  have cl: "h_ctxdone s" "h_closed s" "\<not> h_tunopen s"
    using assms(1,2) TunClosed by (auto simp: h_inv_def h_closing_def h_device_def)
  show ?thesis
  proof (cases "h_sup s = Gone \<and> h_out s = Stopped")
    case True
    with close_join [OF TunClosed] TunClosed show ?thesis
      by (intro exI [of _ "s\<lparr>h_close := Finished\<rparr>"]) (simp add: unblocked_def)
  next
    case False
    then show ?thesis using sup_unblocked [OF assms(1) cl(1,2)] out_unblocked [OF assms(1) cl] by blast
  qed
qed (use assms in simp_all)

text \<open>All of it along a run.\<close>

lemma closing_run:
  assumes "h_reach s" "h_closed s" "hstep\<^sup>*\<^sup>* s m"
  shows "h_reach m" "h_inv m" "h_device m" "h_closed m" "h_weight m \<le> h_weight s"
proof -
  have "h_reach m \<and> h_closed m \<and> h_weight m \<le> h_weight s"
    using assms(3)
  proof induction
    case (step m n)
    then have "h_reach n" by (blast intro: reach_step)
    with step closing_weight [OF h2.reach_inv, of m n] closed_stays [of m n] show ?case by fastforce
  qed (use assms in simp)
  then show "h_reach m" "h_inv m" "h_device m" "h_closed m" "h_weight m \<le> h_weight s"
    using h2.reach_inv h_device_reach by blast+
qed

text \<open>Once \<open>Close\<close> has returned nothing of the client runs any more.\<close>

definition h_final :: "h2client \<Rightarrow> bool" where
  "h_final s \<longleftrightarrow> (h_close s = Finished \<longrightarrow> h_sup s = Gone \<and> h_out s = Stopped)"

lemma h_final_step:
  assumes "h_final s" "hstep s s'"
  shows "h_final s'"
  using assms(2)
proof cases
  case (pump_inbound b r w)
  then show ?thesis using assms(1) pump_ends_fields [OF pump_inbound_ends [OF pump_inbound(2), of r w]]
    by (simp add: h_final_def)
next
  case (pump_tick b ping)
  then show ?thesis using assms(1) pump_ends_fields [OF pump_tick_ends [OF pump_tick(2), of ping]]
    by (simp add: h_final_def)
qed (use assms(1) in \<open>auto simp: h_final_def setCurrent_True setCurrent_False\<close>)

lemma h_final_reach: "h_reach s \<Longrightarrow> h_final s"
  by (erule reach_induct_inv) (simp add: h_final_def h2client0_def, rule h_final_step)

section \<open>Properties\<close>

text \<open>C6: while the client is not being closed none of its goroutines dies unnoticed. If a bundle's
  inbound pump or keepalive is gone, a failure is in the bundle's channel, so that the
  supervisor's next step can start the reconnection; the supervisor itself is not gone; and the
  sender is gone only if a read from the open device of the network stack has failed, after
  which, as the code has it, nothing is sent any more.\<close>
theorem h2_no_silent_death:
  assumes "h_reach s" "\<not> h_closed s"
  shows "(h_sup s = Serving b \<longrightarrow> (b, p) \<notin> h_pumps s \<longrightarrow>
      (\<exists>e. h_failed s b = Some e \<and> hstep s (s\<lparr>h_failed := (h_failed s)(b := None), h_sup := Clearing b\<rparr>))) \<and>
    h_sup s \<noteq> Gone \<and> (h_out s = Stopped \<longrightarrow> h_tunfail s)"
proof -
  from h2.reach_inv [OF assms(1)] have sg: "h_signals s" and cu: "h_custody s" and cl: "h_closing s"
    by (simp_all add: h_inv_def)
  have "\<exists>e. h_failed s b = Some e \<and> hstep s (s\<lparr>h_failed := (h_failed s)(b := None), h_sup := Clearing b\<rparr>)"
    if "h_sup s = Serving b" "(b, p) \<notin> h_pumps s"
  proof -
    from h_signalsD(1) [OF sg that] assms(2) cl obtain e where "h_failed s b = Some e" by (auto simp: h_closing_def)
    with serve_failed [OF that(1)] show ?thesis by blast
  qed
  moreover have "h_sup s \<noteq> Gone" using h_custodyD(4) [OF cu] assms(2) by blast
  ultimately show ?thesis using h_device_reach [OF assms(1)] assms(2) by (simp add: h_device_def)
qed

text \<open>The first bundle after its connection has failed under a read.\<close>

definition h_broken :: h2client where
  "h_broken = pump_end 0 Inbound (inbound_turn 0 (Inl ReceiveFailed) True h2client0)"

lemma h_broken_reach: "h_reach h_broken"
  unfolding h_broken_def by (rule reach_step, rule reach_start, rule refl, rule pump_inbound)
    (simp add: h2client0_def)

theorem h2_no_silent_death_witness:
  "\<exists>e. h_failed h_broken 0 = Some e \<and>
    hstep h_broken (h_broken\<lparr>h_failed := (h_failed h_broken)(0 := None), h_sup := Clearing 0\<rparr>)"
  using h2_no_silent_death [OF h_broken_reach, of 0 Inbound]
  by (simp add: h_broken_def pump_end_def inbound_turn_def fail_def h2client0_def)

text \<open>C14: every bundle the HTTP/2 client ever dialled is closed, except the one its supervisor has
  in hand, of which there is at most one; and that one is open while the client is not being
  closed. The bundle a sender finds in \<open>current\<close> is that one.\<close>
theorem h2_bundles_accounted:
  assumes "h_reach s"
  shows "{..<h_next s} = h_retired s \<union> set_option (to_close (h_sup s)) \<and>
         (\<forall>b. h_current s = Some b \<longrightarrow> to_close (h_sup s) = Some b \<and> b \<notin> h_retired s)"
proof -
  from h2.reach_inv [OF assms] have cu: "h_custody s" and cl: "h_closing s" by (simp_all add: h_inv_def)
  have "to_close (h_sup s) = Some b \<and> b \<notin> h_retired s" if "h_current s = Some b" for b
    using h_custodyD(2,3) [OF cu, of b] that cl by (auto simp: h_closing_def)
  with h_custodyD(1) [OF cu] show ?thesis by blast
qed

theorem h2_bundles_accounted_witness:
  "{..<h_next h_broken} = h_retired h_broken \<union> set_option (to_close (h_sup h_broken))"
  using h2_bundles_accounted [OF h_broken_reach] by simp

text \<open>C12: \<open>Close\<close> returns, whatever the network and the clients of the stack do or fail to do: from any
  state in which it has begun, every run takes at most 14 unblocked steps, and until \<open>Close\<close> has
  returned there is always one to take, because \<open>Close\<close> has cancelled the context and closed what
  the goroutines block on. Once it has returned the supervisor, the sender and the pumps are gone
  and every bundle ever dialled is closed.\<close>
theorem h2_close_finishes:
  assumes "h_reach s" "h_close s \<noteq> NotClosing" "hstep\<^sup>*\<^sup>* s m"
  shows "h_weight s \<le> 14 \<and> h_weight m \<le> h_weight s \<and>
    (\<forall>m'. unblocked m m' \<longrightarrow> hstep m m' \<and> h_weight m' < h_weight m) \<and>
    (if h_close m = Finished
     then h_sup m = Gone \<and> h_out m = Stopped \<and> h_pumps m = {} \<and> h_retired m = {..<h_next m}
     else \<exists>m'. unblocked m m')"
proof -
  have c: "h_closed s" and sg: "h_signals s"
    using h2.reach_inv [OF assms(1)] assms(2) by (auto simp: h_inv_def h_closing_def)
  have w: "h_weight s \<le> 14"
    using sup_weight_le [of "h_sup s"] out_weight_le [of "h_out s"] pumps_two(2) [OF sg] assms(2)
    by (cases "h_close s") (simp_all add: h_weight_def)
  note run = closing_run [OF assms(1) c assms(3)]
  have dec: "hstep m m' \<and> h_weight m' < h_weight m" if "unblocked m m'" for m'
    using closing_weight [OF run(2,4)] that by (auto simp: unblocked_def)
  show ?thesis
  proof (cases "h_close m = Finished")
    case True
    then have f: "h_sup m = Gone" "h_out m = Stopped" using h_final_reach [OF run(1)] by (simp_all add: h_final_def)
    have "h_signals m" using run(2) by (simp add: h_inv_def)
    then have "h_pumps m = {}" using h_signalsD(4) [of m] f(1) by fastforce
    moreover have "h_retired m = {..<h_next m}"
      using h2.no_leak [OF run(1)] f(1) by (simp add: h_held_def h_made_def)
    ultimately show ?thesis using True f w run(5) dec by simp
  next
    case False
    moreover have "h_close m \<noteq> NotClosing" using run(2,4) by (auto simp: h_inv_def h_closing_def)
    ultimately show ?thesis using close_unblocked [OF run(2,3)] w run(5) dec by simp
  qed
qed

text \<open>\<open>Close\<close> has just begun on the client whose connection has failed.\<close>

definition h_closing_demo :: h2client where
  "h_closing_demo = h_broken\<lparr>h_closed := True, h_current := None, h_gen := Suc (h_gen h_broken),
      h_close := Swapped (h_current h_broken)\<rparr>"

theorem h2_close_finishes_witness:
  "h_close h_closing_demo = Swapped (Some 0) \<and> h_weight h_closing_demo \<le> 14 \<and> (\<exists>m'. unblocked h_closing_demo m')"
proof -
  have b: "h_close h_broken = NotClosing" "h_current h_broken = Some 0"
    by (simp_all add: h_broken_def pump_end_def inbound_turn_def fail_def h2client0_def)
  have "h_reach h_closing_demo"
    unfolding h_closing_demo_def by (rule reach_step [OF h_broken_reach close_swap [OF b(1)]])
  from h2_close_finishes [OF this, of h_closing_demo] b(2) show ?thesis by (simp add: h_closing_demo_def)
qed

text \<open>C13: no wake-up is missed: a sender that waits for a connection either sees its channel closed
  already, or there is no connection and the client is open; and a packet that is being sent
  has between 1 and 1280 bytes, the size of the tunnel.\<close>
theorem h2_sender_not_stuck:
  assumes "h_reach s"
  shows "(case h_out s of
            Blocked g n \<Rightarrow> hstep s (s\<lparr>h_out := Looking n\<rparr>) \<or> h_current s = None \<and> \<not> h_closed s
          | Sending b n \<Rightarrow> b < h_next s \<and> 0 < n \<and> n \<le> 1280
          | _ \<Rightarrow> True)"
proof -
  from h2.reach_inv [OF assms] have "h_sender s" by (simp add: h_inv_def)
  then show ?thesis using out_woken [of s] by (auto simp: h_sender_def h2MTU_def split: outbound.splits)
qed

text \<open>The client once the supervisor has taken the broken bundle out of service and the sender has
  read a packet of 100 bytes.\<close>

definition h_waiting :: h2client where
  "h_waiting = (let s = h_broken\<lparr>h_failed := (h_failed h_broken)(0 := None), h_sup := Clearing 0\<rparr> in
     ((clearCurrent 0 s)\<lparr>h_sup := Closing 0\<rparr>)\<lparr>h_out := Blocked 2 100\<rparr>)"

lemma h_waiting_reach: "h_reach h_waiting"
proof -
  let ?s = "h_broken\<lparr>h_failed := (h_failed h_broken)(0 := None), h_sup := Clearing 0\<rparr>"
  let ?t = "(clearCurrent 0 ?s)\<lparr>h_sup := Closing 0\<rparr>"
  have b: "h_sup h_broken = Serving 0" "h_failed h_broken 0 = Some ReceiveFailed" "h_out h_broken = Reading"
      "h_tunopen h_broken" "h_current h_broken = Some 0" "h_gen h_broken = 1" "\<not> h_closed h_broken"
    by (simp_all add: h_broken_def pump_end_def inbound_turn_def fail_def h2client0_def)
  have "hstep h_broken ?s" by (rule serve_failed [OF b(1,2)])
  moreover have "hstep ?s ?t" by (rule serve_clear) simp
  moreover have "hstep ?t (?t\<lparr>h_out := Looking 100\<rparr>)"
    using out_packet [of ?t 100] b by (simp add: outbound_read_def h2MTU_def)
  moreover have "hstep (?t\<lparr>h_out := Looking 100\<rparr>) h_waiting"
    using out_look [of "?t\<lparr>h_out := Looking 100\<rparr>" 100] b
    by (simp add: h_waiting_def waitCurrent_def clearCurrent_def Let_def numeral_2_eq_2)
  ultimately show ?thesis by (intro reach_trans [OF h_broken_reach steps4])
qed

theorem h2_sender_not_stuck_witness:
  "h_out h_waiting = Blocked 2 100 \<and>
   (hstep h_waiting (h_waiting\<lparr>h_out := Looking 100\<rparr>) \<or> h_current h_waiting = None \<and> \<not> h_closed h_waiting)"
proof -
  have "h_out h_waiting = Blocked 2 100" by (simp add: h_waiting_def Let_def)
  with h2_sender_not_stuck [OF h_waiting_reach] show ?thesis by simp
qed

end
