(* ===== verification/Registration.thy ===== *)
theory Registration
  imports Go_Net Go_IP_Text Go_Strings
begin

text \<open>
  The registration (\<open>registration/registration.go\<close>): the two-step \<open>Register\<close>, \<open>Save\<close>, \<open>Load\<close>,
  \<open>Delete\<close> and \<open>DeleteRegistration\<close> over a world that holds the state file and the devices
  known to the WARP API, and the verifier that pins the edge's key. X.509, ECDSA, PEM and JSON
  are parameters; base64 and the host:port strings are the ones modelled here. A client certificate
  depends on the moment and the random bytes with which it is made.
\<close>

section \<open>The codecs the code calls\<close>

text \<open>A parsed key that may be of another kind than ECDSA.\<close>

datatype 'a some_key = Ecdsa 'a | OtherKey

text \<open>The template of the client certificate, with times in seconds; and the moment at which one is made:
  the time and the random bytes of its signature. Whether a certificate can be made depends on the
  key only; the certificate itself is a new one at every moment.\<close>

record cert_template =
  SerialNumber :: int
  CommonName :: string
  NotBefore :: int
  NotAfter :: int

type_synonym moment = "int \<times> bytes"

record ('priv, 'pub, 'cert) crypto =
  ParsePKIXPublicKey :: "bytes \<Rightarrow> 'pub some_key option"
  MarshalPKIXPublicKey :: "'pub \<Rightarrow> bytes option"
  ParseECPrivateKey :: "bytes \<Rightarrow> 'priv option"
  ParsePKCS8PrivateKey :: "bytes \<Rightarrow> 'priv some_key option"
  MarshalECPrivateKey :: "'priv \<Rightarrow> bytes option"
  PublicOf :: "'priv \<Rightarrow> 'pub"
  CreateCertificate :: "'priv \<Rightarrow> (cert_template \<Rightarrow> bytes \<Rightarrow> 'cert) option"
  CertificateKey :: "bytes \<Rightarrow> 'pub some_key option"
  PemDecode :: "string \<Rightarrow> bytes option"

section \<open>Keys\<close>

datatype key_error = BadBase64 | BadPublicKey | NotECDSA | BadPEM | BadPrivateKey | MarshalFailed

definition publicKeyToBase64 :: "('priv, 'pub, 'cert) crypto \<Rightarrow> 'pub \<Rightarrow> key_error + string" where
  "publicKeyToBase64 c pub =
     (case MarshalPKIXPublicKey c pub of None \<Rightarrow> Inl MarshalFailed | Some der \<Rightarrow> Inr (b64_encode der))"

definition privateKeyToBase64 :: "('priv, 'pub, 'cert) crypto \<Rightarrow> 'priv \<Rightarrow> key_error + string" where
  "privateKeyToBase64 c key =
     (case MarshalECPrivateKey c key of None \<Rightarrow> Inl MarshalFailed | Some der \<Rightarrow> Inr (b64_encode der))"

definition publicKeyFromDER :: "('priv, 'pub, 'cert) crypto \<Rightarrow> bytes \<Rightarrow> key_error + 'pub" where
  "publicKeyFromDER c der =
     (case ParsePKIXPublicKey c der of
        None \<Rightarrow> Inl BadPublicKey
      | Some OtherKey \<Rightarrow> Inl NotECDSA
      | Some (Ecdsa pub) \<Rightarrow> Inr pub)"

definition decodePublicKey :: "('priv, 'pub, 'cert) crypto \<Rightarrow> string \<Rightarrow> key_error + 'pub" where
  "decodePublicKey c s =
     (case b64_decode (trimSpace s) of None \<Rightarrow> Inl BadBase64 | Some der \<Rightarrow> publicKeyFromDER c der)"

definition pemPublicKeyToBase64 :: "('priv, 'pub, 'cert) crypto \<Rightarrow> string \<Rightarrow> key_error + string" where
  "pemPublicKeyToBase64 c s =
     (case PemDecode c s of
        None \<Rightarrow> Inl BadPEM
      | Some der \<Rightarrow>
          (case publicKeyFromDER c der of
             Inl err \<Rightarrow> Inl err
           | Inr pub \<Rightarrow> publicKeyToBase64 c pub))"

definition decodePrivateKey :: "('priv, 'pub, 'cert) crypto \<Rightarrow> string \<Rightarrow> key_error + 'priv" where
  "decodePrivateKey c s =
     (case b64_decode (trimSpace s) of
        None \<Rightarrow> Inl BadBase64
      | Some der \<Rightarrow>
          (case ParseECPrivateKey c der of
             Some key \<Rightarrow> Inr key
           | None \<Rightarrow>
               (case ParsePKCS8PrivateKey c der of
                  None \<Rightarrow> Inl BadPrivateKey
                | Some OtherKey \<Rightarrow> Inl NotECDSA
                | Some (Ecdsa key) \<Rightarrow> Inr key)))"

definition buildClientCert ::
    "('priv, 'pub, 'cert) crypto \<Rightarrow> moment \<Rightarrow> string \<Rightarrow> 'priv \<Rightarrow> 'cert option" where
  "buildClientCert c m regID privKey =
     (let now = fst m;
          template = \<lparr>SerialNumber = now, CommonName = regID @ ''.masque2.cloudflareclient.com'',
                       NotBefore = now, NotAfter = now + 24 * 60 * 60\<rparr>
      in map_option (\<lambda>make. make template (snd m)) (CreateCertificate c privKey))"

text \<open>At another moment there is another certificate for the same name and key.\<close>

lemma buildClientCert_again:
  "buildClientCert c m regID key = Some cert \<Longrightarrow> \<exists>cert'. buildClientCert c m' regID key = Some cert'"
  by (auto simp: buildClientCert_def Let_def)

section \<open>The registration and its file\<close>

record registration =
  ID :: string
  Token :: string
  Account :: string
  KeyType :: string
  TunnelType :: string
  PrivateKeyB64 :: string
  PublicKeyB64 :: string
  EndpointV4 :: string
  EndpointV6 :: string
  EndpointPorts :: "int list"
  PeerPublicKey :: string
  AssignedIPv4 :: string
  AssignedIPv6 :: string

text \<open>A registration in memory also has its key and its certificate.\<close>

record ('priv, 'cert) loaded =
  l_reg :: registration
  l_key :: 'priv
  l_cert :: 'cert

text \<open>The JSON codec: the whole registration, and the two fields that deregistering needs.\<close>

record json_codec =
  MarshalIndent :: "registration \<Rightarrow> string option"
  Unmarshal :: "string \<Rightarrow> registration option"
  UnmarshalIdent :: "string \<Rightarrow> (string \<times> string) option"

text \<open>The requests to the API, without the time stamp and the fields that are the same in every
  request.\<close>

record register_request =
  rq_key :: string
  rq_serial :: string
  rq_key_type :: string
  rq_tun_type :: string

record enroll_request =
  eq_key :: string
  eq_key_type :: string
  eq_tun_type :: string

datatype api_call =
    PostReg register_request | PatchReg string string enroll_request | DeleteReg string string

text \<open>The world: the state file, the devices (id, token) of which the API has confirmed that they
  exist and not yet that they are gone, and the calls made to the API.\<close>

record world =
  w_file :: "string option"
  w_devices :: "(string \<times> string) set"
  w_calls :: "api_call list"

definition call :: "api_call \<Rightarrow> world \<Rightarrow> world" where
  "call a w = w\<lparr>w_calls := w_calls w @ [a]\<rparr>"

lemma call_fields [simp]:
  "w_file (call a w) = w_file w" "w_devices (call a w) = w_devices w" "w_calls (call a w) = w_calls w @ [a]"
  by (simp_all add: call_def)

text \<open>How the operating system answers: a read may fail for another reason than absence; a write
  truncates the file first and may stop early.\<close>

datatype write_result = Written | NotOpened | Truncated nat

datatype load_error = FileAbsent | ReadFailed | BadJSON | BadKey key_error | NoCertificate

definition Load :: "('priv, 'pub, 'cert) crypto \<Rightarrow> json_codec \<Rightarrow> moment \<Rightarrow> bool \<Rightarrow> world \<Rightarrow> load_error + ('priv, 'cert) loaded" where
  "Load c j m readable w =
     (case w_file w of
        None \<Rightarrow> Inl FileAbsent
      | Some data \<Rightarrow>
          if \<not> readable then Inl ReadFailed
          else case Unmarshal j data of
            None \<Rightarrow> Inl BadJSON
          | Some reg \<Rightarrow>
              (case decodePrivateKey c (PrivateKeyB64 reg) of
                 Inl err \<Rightarrow> Inl (BadKey err)
               | Inr privKey \<Rightarrow>
                   (case buildClientCert c m (ID reg) privKey of
                      None \<Rightarrow> Inl NoCertificate
                    | Some cert \<Rightarrow> Inr \<lparr>l_reg = reg, l_key = privKey, l_cert = cert\<rparr>)))"

definition Save :: "json_codec \<Rightarrow> write_result \<Rightarrow> registration \<Rightarrow> world \<Rightarrow> bool \<times> world" where
  "Save j io r w =
     (case MarshalIndent j r of
        None \<Rightarrow> (False, w)
      | Some data \<Rightarrow>
          (case io of
             Written \<Rightarrow> (True, w\<lparr>w_file := Some data\<rparr>)
           | NotOpened \<Rightarrow> (False, w)
           | Truncated n \<Rightarrow> (False, w\<lparr>w_file := Some (take n data)\<rparr>)))"

section \<open>Deregistering\<close>

text \<open>What becomes of a request: it cannot be built, nobody answers, or a status comes with a body.\<close>

datatype 'a response = NotSent | NoResponse | Response nat 'a

definition Delete :: "unit response \<Rightarrow> registration \<Rightarrow> world \<Rightarrow> bool \<times> world" where
  "Delete resp r w =
     (case resp of
        NotSent \<Rightarrow> (False, w)
      | NoResponse \<Rightarrow> (False, call (DeleteReg (ID r) (Token r)) w)
      | Response status _ \<Rightarrow>
          let w = call (DeleteReg (ID r) (Token r)) w in
          if status \<noteq> 200 \<and> status \<noteq> 204 then (False, w)
          else (True, w\<lparr>w_devices := w_devices w - {(ID r, Token r)}\<rparr>))"

datatype delete_error = DReadFailed | DBadJSON | DNoIdent | DRemoveFailed

definition blank :: registration where
  "blank = \<lparr>ID = [], Token = [], Account = [], KeyType = [], TunnelType = [], PrivateKeyB64 = [],
     PublicKeyB64 = [], EndpointV4 = [], EndpointV6 = [], EndpointPorts = [], PeerPublicKey = [],
     AssignedIPv4 = [], AssignedIPv6 = []\<rparr>"

definition DeleteRegistration ::
    "json_codec \<Rightarrow> bool \<Rightarrow> unit response \<Rightarrow> bool \<Rightarrow> world \<Rightarrow> (delete_error + unit) \<times> world" where
  "DeleteRegistration j readable resp removable w =
     (case w_file w of
        None \<Rightarrow> (Inl DReadFailed, w)
      | Some data \<Rightarrow>
          if \<not> readable then (Inl DReadFailed, w)
          else case UnmarshalIdent j data of
            None \<Rightarrow> (Inl DBadJSON, w)
          | Some (ident, token) \<Rightarrow>
              if ident = [] \<or> token = [] then (Inl DNoIdent, w)
              else
                let (deleted, w) = Delete resp (blank\<lparr>ID := ident, Token := token\<rparr>) w in
                if removable then (Inr (), w\<lparr>w_file := None\<rparr>) else (Inl DRemoveFailed, w))"

section \<open>Registering\<close>

record created =
  c_id :: string
  c_token :: string

record peer =
  p_key :: string
  p_v4 :: string
  p_v6 :: string
  p_ports :: "int list"

record enrolled =
  e_id :: string
  e_key_type :: string
  e_tun_type :: string
  e_account :: string
  e_peers :: "peer list"
  e_addr4 :: string
  e_addr6 :: string

definition endpoint_v4 :: "string \<Rightarrow> string" where
  "endpoint_v4 v4 =
     (if v4 = [] then []
      else case splitHostPort v4 of Inr (host, _) \<Rightarrow> host | Inl _ \<Rightarrow> v4)"

definition endpoint_v6 :: "string \<Rightarrow> string" where
  "endpoint_v6 v6 =
     (if v6 = [] then []
      else case splitHostPort v6 of Inr (host, _) \<Rightarrow> host | Inl _ \<Rightarrow> trim ''[]'' v6)"

datatype register_error =
    RequestNotBuilt | EnrollNotBuilt | RequestFailed | CreateStatus nat | CreateBody | NoKey | NoPublicDER
  | EnrollFailed | EnrollStatus nat | EnrollBody | EncodeFailed key_error | PeerKey key_error | CertFailed

text \<open>The key of the first step is thrown away: a clamped random scalar. An error of the random source
  or of the curve leaves the empty string.\<close>

definition clamp :: "bytes \<Rightarrow> bytes" where
  "clamp k = (let k = k[0 := k ! 0 AND 248]; k = k[31 := k ! 31 AND 127] in k[31 := k ! 31 OR 64])"

definition generateRandomWgPubkey :: "bytes option \<Rightarrow> (bytes \<Rightarrow> bytes option) \<Rightarrow> string" where
  "generateRandomWgPubkey random x25519 =
     (case random of
        None \<Rightarrow> []
      | Some privateKey \<Rightarrow>
          (case x25519 (clamp privateKey) of None \<Rightarrow> [] | Some publicKey \<Rightarrow> b64_encode publicKey))"

definition generateRandomSerial :: "bytes option \<Rightarrow> string" where
  "generateRandomSerial random = (case random of None \<Rightarrow> [] | Some b \<Rightarrow> hex_string b)"

text \<open>\<open>Register\<close> with what the environment answers: the random bytes, the two responses with their
  parsed bodies, and the key pair.\<close>

record 'priv register_env =
  r_random :: "bytes option"
  r_x25519 :: "bytes \<Rightarrow> bytes option"
  r_serial :: "bytes option"
  r_create :: "created option response"
  r_key :: "'priv option"
  r_enroll :: "enrolled option response"
  r_moment :: moment

text \<open>The code after the second response.\<close>

definition finish_registration ::
    "('priv, 'pub, 'cert) crypto \<Rightarrow> moment \<Rightarrow> created \<Rightarrow> 'priv \<Rightarrow> enrolled \<Rightarrow> register_error + ('priv, 'cert) loaded" where
  "finish_registration c m reg privKey e =
     (let (peerPubKey, ports, v4, v6) =
        (case e_peers e of
           [] \<Rightarrow> ([], [], [], [])
         | p # _ \<Rightarrow> (p_key p, p_ports p, endpoint_v4 (p_v4 p), endpoint_v6 (p_v6 p))) in
      case privateKeyToBase64 c privKey of
        Inl err \<Rightarrow> Inl (EncodeFailed err)
      | Inr privB64 \<Rightarrow>
      (case publicKeyToBase64 c (PublicOf c privKey) of
        Inl err \<Rightarrow> Inl (EncodeFailed err)
      | Inr pubB64 \<Rightarrow>
      (case (if peerPubKey = [] then Inr [] else pemPublicKeyToBase64 c peerPubKey) of
        Inl err \<Rightarrow> Inl (PeerKey err)
      | Inr peerB64 \<Rightarrow>
      (case buildClientCert c m (e_id e) privKey of
        None \<Rightarrow> Inl CertFailed
      | Some cert \<Rightarrow>
          Inr \<lparr>l_reg = \<lparr>ID = e_id e, Token = c_token reg, Account = e_account e, KeyType = e_key_type e,
                  TunnelType = e_tun_type e, PrivateKeyB64 = privB64, PublicKeyB64 = pubB64,
                  EndpointV4 = v4, EndpointV6 = v6, EndpointPorts = ports, PeerPublicKey = peerB64,
                  AssignedIPv4 = e_addr4 e, AssignedIPv6 = e_addr6 e\<rparr>,
               l_key = privKey, l_cert = cert\<rparr>))))"

text \<open>The second step, and all of it.\<close>

definition enroll ::
    "('priv, 'pub, 'cert) crypto \<Rightarrow> 'priv register_env \<Rightarrow> created \<Rightarrow> 'priv \<Rightarrow> bytes \<Rightarrow> world \<Rightarrow>
     (register_error + ('priv, 'cert) loaded) \<times> world" where
  "enroll c env reg privKey der w =
     (let patch = PatchReg (c_id reg) (c_token reg)
                    \<lparr>eq_key = b64_encode der, eq_key_type = ''secp256r1'', eq_tun_type = ''masque''\<rparr> in
      case r_enroll env of
        NotSent \<Rightarrow> (Inl EnrollNotBuilt, w)
      | NoResponse \<Rightarrow> (Inl EnrollFailed, call patch w)
      | Response status body \<Rightarrow>
          let w = call patch w in
          if status \<noteq> 200 then (Inl (EnrollStatus status), w)
          else case body of
            None \<Rightarrow> (Inl EnrollBody, w)
          | Some e \<Rightarrow> (finish_registration c (r_moment env) reg privKey e, w))"

definition Register ::
    "('priv, 'pub, 'cert) crypto \<Rightarrow> 'priv register_env \<Rightarrow> world \<Rightarrow> (register_error + ('priv, 'cert) loaded) \<times> world" where
  "Register c env w =
     (let post = PostReg \<lparr>rq_key = generateRandomWgPubkey (r_random env) (r_x25519 env),
                   rq_serial = generateRandomSerial (r_serial env),
                   rq_key_type = ''curve25519'', rq_tun_type = ''wireguard''\<rparr> in
      case r_create env of
        NotSent \<Rightarrow> (Inl RequestNotBuilt, w)
      | NoResponse \<Rightarrow> (Inl RequestFailed, call post w)
      | Response status body \<Rightarrow>
          let w = call post w in
          if status \<noteq> 200 then (Inl (CreateStatus status), w)
          else case body of
            None \<Rightarrow> (Inl CreateBody, w)
          | Some reg \<Rightarrow>
              let w = w\<lparr>w_devices := insert (c_id reg, c_token reg) (w_devices w)\<rparr> in
              (case r_key env of
                 None \<Rightarrow> (Inl NoKey, w)
               | Some privKey \<Rightarrow>
                   (case MarshalPKIXPublicKey c (PublicOf c privKey) of
                      None \<Rightarrow> (Inl NoPublicDER, w)
                    | Some der \<Rightarrow> enroll c env reg privKey der w)))"

section \<open>Pinning\<close>

datatype pin_error = NoCertificates | BadCertificate | EdgeNotECDSA | KeyMismatch

definition verify_edge :: "('priv, 'pub, 'cert) crypto \<Rightarrow> 'pub \<Rightarrow> bytes list \<Rightarrow> pin_error + unit" where
  "verify_edge c expected rawCerts =
     (case rawCerts of
        [] \<Rightarrow> Inl NoCertificates
      | cert # _ \<Rightarrow>
          (case CertificateKey c cert of
             None \<Rightarrow> Inl BadCertificate
           | Some OtherKey \<Rightarrow> Inl EdgeNotECDSA
           | Some (Ecdsa got) \<Rightarrow> if got \<noteq> expected then Inl KeyMismatch else Inr ()))"

text \<open>No verifier, an error, or the verifier.\<close>

definition PeerPublicKeyVerifier ::
    "('priv, 'pub, 'cert) crypto \<Rightarrow> registration \<Rightarrow> key_error + (bytes list \<Rightarrow> pin_error + unit) option" where
  "PeerPublicKeyVerifier c r =
     (if PeerPublicKey r = [] then Inr None
      else case decodePublicKey c (PeerPublicKey r) of
        Inl err \<Rightarrow> Inl err
      | Inr expected \<Rightarrow> Inr (Some (verify_edge c expected)))"

section \<open>Lemmas on keys and endpoints\<close>

text \<open>What the codecs promise: what they write they read back.\<close>

definition codecs_ok :: "('priv, 'pub, 'cert) crypto \<Rightarrow> json_codec \<Rightarrow> bool" where
  "codecs_ok c j \<longleftrightarrow>
     (\<forall>pub der. MarshalPKIXPublicKey c pub = Some der \<longrightarrow> ParsePKIXPublicKey c der = Some (Ecdsa pub)) \<and>
     (\<forall>key der. MarshalECPrivateKey c key = Some der \<longrightarrow> ParseECPrivateKey c der = Some key) \<and>
     (\<forall>r data. MarshalIndent j r = Some data \<longrightarrow>
        Unmarshal j data = Some r \<and> UnmarshalIdent j data = Some (ID r, Token r))"

lemma codecs_okD:
  assumes "codecs_ok c j"
  shows "MarshalPKIXPublicKey c pub = Some der \<Longrightarrow> ParsePKIXPublicKey c der = Some (Ecdsa pub)"
    and "MarshalECPrivateKey c key = Some der \<Longrightarrow> ParseECPrivateKey c der = Some key"
    and "MarshalIndent j r = Some data \<Longrightarrow> Unmarshal j data = Some r"
    and "MarshalIndent j r = Some data \<Longrightarrow> UnmarshalIdent j data = Some (ID r, Token r)"
  using assms by (auto simp: codecs_ok_def)

lemma decode_public_roundtrip:
  assumes "codecs_ok c j" "publicKeyToBase64 c pub = Inr s"
  shows "decodePublicKey c s = Inr pub"
  using assms(2) codecs_okD(1) [OF assms(1)]
  by (auto simp: publicKeyToBase64_def decodePublicKey_def publicKeyFromDER_def b64_roundtrip split: option.splits)

lemma decode_private_roundtrip:
  assumes "codecs_ok c j" "privateKeyToBase64 c key = Inr s"
  shows "decodePrivateKey c s = Inr key"
  using assms(2) codecs_okD(2) [OF assms(1)]
  by (auto simp: privateKeyToBase64_def decodePrivateKey_def b64_roundtrip split: option.splits)

lemma b64_encode_nonempty: "b64_encode bs = [] \<longleftrightarrow> bs = []"
  by (cases bs rule: b64_encode.cases) (simp_all add: b64_group_def)

text \<open>What a successful \<open>Register\<close> has done.\<close>

lemma Register_Inr:
  assumes "Register c env w = (Inr l, w1)"
  obtains reg key der e post where "r_create env = Response 200 (Some reg)" "r_key env = Some key"
    "r_enroll env = Response 200 (Some e)" "finish_registration c (r_moment env) reg key e = Inr l"
    "MarshalPKIXPublicKey c (PublicOf c key) = Some der"
    "w_file w1 = w_file w" "w_devices w1 = insert (c_id reg, c_token reg) (w_devices w)"
    "w_calls w1 = w_calls w @ [PostReg post, PatchReg (c_id reg) (c_token reg)
       \<lparr>eq_key = b64_encode der, eq_key_type = ''secp256r1'', eq_tun_type = ''masque''\<rparr>]"
  using assms by (auto simp: Register_def enroll_def Let_def split: response.splits option.splits if_splits)

lemma finish_registration_Inr:
  assumes "finish_registration c m reg key e = Inr l"
  shows "l_key l = key" "Token (l_reg l) = c_token reg" "ID (l_reg l) = e_id e"
    "privateKeyToBase64 c key = Inr (PrivateKeyB64 (l_reg l))"
    "buildClientCert c m (ID (l_reg l)) key = Some (l_cert l)"
    "e_peers e = p # ps \<Longrightarrow> p_key p \<noteq> [] \<Longrightarrow> pemPublicKeyToBase64 c (p_key p) = Inr (PeerPublicKey (l_reg l))"
  using assms
  by (auto simp: finish_registration_def Let_def split: list.splits sum.splits option.splits if_splits)

lemma finish_registration_endpoints:
  assumes "finish_registration c m reg key e = Inr l" "e_peers e = p # ps"
  shows "EndpointV4 (l_reg l) = endpoint_v4 (p_v4 p)" "EndpointV6 (l_reg l) = endpoint_v6 (p_v6 p)"
    "EndpointPorts (l_reg l) = p_ports p"
  using assms by (auto simp: finish_registration_def Let_def split: sum.splits option.splits if_splits)

text \<open>What was registered and written is what is read.\<close>

lemma Load_saved:
  assumes "codecs_ok c j" "finish_registration c m reg key e = Inr l" "Save j Written (l_reg l) w1 = (True, w2)"
  shows "\<exists>cert. buildClientCert c m' (ID (l_reg l)) (l_key l) = Some cert \<and>
    Load c j m' True w2 = Inr (l\<lparr>l_cert := cert\<rparr>)"
proof -
  note f = finish_registration_Inr [OF assms(2)]
  from assms(3) obtain data where d: "MarshalIndent j (l_reg l) = Some data" "w2 = w1\<lparr>w_file := Some data\<rparr>"
    by (auto simp: Save_def split: option.splits)
  from buildClientCert_again [OF f(5), of m'] obtain cert where "buildClientCert c m' (ID (l_reg l)) key = Some cert" ..
  with d show ?thesis
    using codecs_okD(3) [OF assms(1) d(1)] decode_private_roundtrip [OF assms(1) f(4)] f(1)
    by (intro exI [of _ cert]) (simp add: Load_def)
qed

lemma Load_registered:
  assumes "codecs_ok c j" "Register c env w = (Inr l, w1)" "Save j Written (l_reg l) w1 = (True, w2)"
  shows "\<exists>cert. buildClientCert c m (ID (l_reg l)) (l_key l) = Some cert \<and>
    Load c j m True w2 = Inr (l\<lparr>l_cert := cert\<rparr>)"
  using Register_Inr [OF assms(2)] Load_saved [OF assms(1) _ assms(3)] by metis

text \<open>A host:port split fails on two colons outside brackets and on brackets without a port.\<close>

lemma split_two_colons:
  assumes "s = a @ CHR '':'' # b" "CHR '':'' \<in> set a" "hd a \<noteq> CHR ''[''" "CHR '':'' \<notin> set b"
  shows "splitHostPort s = Inl TooManyColons"
proof -
  have l: "last_index_byte CHR '':'' s = Some (length a)" using assms by (simp add: last_index_byte_append)
  have "s ! 0 \<noteq> CHR ''[''" using assms by (cases a) auto
  moreover have "index_byte CHR '':'' a \<noteq> None" using assms(2) by simp
  ultimately show ?thesis using l assms(1) by (simp add: splitHostPort_def Let_def del: index_byte_None)
qed

lemma join_groups_colons: "Suc n \<le> length gs \<Longrightarrow> n \<le> count_list (join_groups gs) CHR '':''"
  by (induction gs arbitrary: n rule: join_groups.induct) (auto simp: Suc_le_eq less_Suc_eq_0_disj, fastforce)

lemma two_colons_split:
  assumes "2 \<le> count_list s c"
  shows "\<exists>u v. s = u @ c # v \<and> c \<in> set u \<and> c \<notin> set v"
proof -
  have "c \<in> set s" using assms count_list_0_iff [of s c] by force
  then obtain u v where s: "s = u @ c # v" "c \<notin> set v" by (meson split_list_last)
  then have "1 \<le> count_list u c" using assms by (simp add: count_list_append count_list_0_iff [THEN iffD2])
  then have "c \<in> set u" using count_list_0_iff [of u c] by force
  with s show ?thesis by blast
qed

lemma ipv6_string_two_colons:
  assumes "length gs = 8"
  shows "2 \<le> count_list (ipv6_string gs) CHR '':''"
proof -
  obtain s e where b: "best_run 0 gs (255, 255) = (s, e)" by fastforce
  show ?thesis
    using join_groups_colons [of 2 gs] assms b
    by (cases "s = 255") (simp_all add: ipv6_string_def count_list_append)
qed

lemma ipv6_colons:
  assumes "valid_ip a" "to4 a = None"
  shows "\<exists>u v. ip_string a = u @ CHR '':'' # v \<and> CHR '':'' \<in> set u \<and> CHR '':'' \<notin> set v"
proof -
  have l: "length a = 16" using assms by (auto simp: valid_ip_def)
  have e: "ip_string a = ipv6_string (groups_of a)" using assms l by (auto simp: ip_string_def)
  have "length (groups_of a) = 8" using l groups_of_length [of a] by simp
  from two_colons_split [OF ipv6_string_two_colons [OF this]] e show ?thesis by simp
qed

lemma ipv6_endpoint:
  assumes "valid_ip a" "to4 a = None"
  shows "splitHostPort (ip_string a) = Inl TooManyColons"
proof -
  from ipv6_colons [OF assms] obtain u v where
    s: "ip_string a = u @ CHR '':'' # v" "CHR '':'' \<in> set u" "CHR '':'' \<notin> set v" by auto
  have "hd u \<in> set (ip_string a)" using s by (cases u) auto
  then have "hd u \<noteq> CHR ''[''" using ip_string_host_ok [OF assms(1)] by (auto simp: host_ok_def)
  with split_two_colons [OF s(1,2) _ s(3)] show ?thesis .
qed

lemma ip_string_nonempty: "valid_ip a \<Longrightarrow> ip_string a \<noteq> []"
  using parseIP_ip_string [of a] to16_Some_iff [of a]
  by (auto simp: parseIP_def parse_addr_def)

lemma split_bracketed_bare:
  assumes "host_ok h" "CHR '':'' \<in> set h"
  shows "splitHostPort (''['' @ h @ '']'') = Inl MissingPort"
proof -
  have "index_byte CHR '']'' (CHR ''['' # h @ [CHR '']'']) = Some (length h + 1)"
    using assms(1) index_byte_append [of "CHR '']''" "CHR ''['' # h" "[]"] by (simp add: host_ok_def)
  moreover obtain i where "last_index_byte CHR '':'' (CHR ''['' # h @ [CHR '']'']) = Some i"
    using assms(2) last_index_byte_None [of "CHR '':''" "CHR ''['' # h @ [CHR '']'']"]
    by (cases "last_index_byte CHR '':'' (CHR ''['' # h @ [CHR '']''])") auto
  ultimately show ?thesis by (simp add: splitHostPort_def del: last_index_byte.simps index_byte.simps)
qed

lemma ipv4_endpoint:
  assumes "valid_ip b" "to4 b \<noteq> None"
  shows "splitHostPort (ip_string b) = Inl MissingPort"
proof -
  obtain v where "to4 b = Some v" using assms(2) by blast
  then have "ip_string b = ipv4_string v" using assms(1) by (auto simp: ip_string_def valid_ip_def)
  then have "CHR '':'' \<notin> set (ip_string b)" by (simp add: ipv4_string_def)
  then have n: "last_index_byte CHR '':'' (ip_string b) = None" by simp
  show ?thesis unfolding splitHostPort_def n by simp
qed

section \<open>Properties\<close>

text \<open>The API may name its IPv6 endpoint bare, in brackets, or with a port: what is stored is the
  bare address in each case; an IPv4 endpoint bare or with a port likewise.\<close>
theorem endpoint_forms:
  assumes "valid_ip a" "valid_ip b" "to4 a = None" "to4 b \<noteq> None"
  shows "endpoint_v6 (ip_string a) = ip_string a \<and>
         endpoint_v6 (''['' @ ip_string a @ '']'') = ip_string a \<and>
         endpoint_v6 (joinHostPort (ip_string a) (itoa n)) = ip_string a \<and>
         endpoint_v4 (ip_string b) = ip_string b \<and>
         endpoint_v4 (joinHostPort (ip_string b) (itoa n)) = ip_string b"
proof -
  have ok: "host_ok (ip_string a)" "host_ok (ip_string b)" using ip_string_host_ok assms by blast+
  have no: "c \<in> set (ip_string a) \<Longrightarrow> c \<notin> set ''[]''" for c using ok(1) by (auto simp: host_ok_def)
  have ne: "ip_string a \<noteq> []" "ip_string b \<noteq> []" using ip_string_nonempty assms by blast+
  have colon: "CHR '':'' \<in> set (ip_string a)"
    using ipv6_colons [OF assms(1,3)] by auto
  have join: "splitHostPort (joinHostPort (ip_string h) (itoa n)) = Inr (ip_string h, itoa n)"
    if "host_ok (ip_string h)" for h using that by (simp add: split_join)
  have join_ne: "joinHostPort (ip_string h) (itoa n) \<noteq> []" for h by (simp add: joinHostPort_def)
  have "trim ''[]'' (ip_string a) = ip_string a" using no by (rule trim_none)
  moreover have "trim ''[]'' (''['' @ ip_string a @ '']'') = ip_string a"
    using no ne by (intro trim_both) auto
  ultimately show ?thesis
    using ipv6_endpoint [OF assms(1,3)] ipv4_endpoint [OF assms(2,4)] split_bracketed_bare [OF ok(1) colon]
      join ok ne join_ne by (simp add: endpoint_v6_def endpoint_v4_def)
qed

theorem endpoint_forms_witness:
  "endpoint_v6 (''['' @ ip_string [38, 6, 71, 0, 1, 3, 0, 0, 0, 0, 0, 0, 0, 0, 0, 2] @ '']'') =
     ip_string [38, 6, 71, 0, 1, 3, 0, 0, 0, 0, 0, 0, 0, 0, 0, 2]"
  using endpoint_forms [of "[38, 6, 71, 0, 1, 3, 0, 0, 0, 0, 0, 0, 0, 0, 0, 2]" "[162, 159, 198, 2]" 443]
  by (simp add: valid_ip_def to4_def)

text \<open>Concrete codecs for the witnesses: a key is its own encoding, and the JSON codec knows one
  registration.\<close>

definition demo_crypto :: "(bytes, bytes, string) crypto" where
  "demo_crypto = \<lparr>ParsePKIXPublicKey = (\<lambda>der. Some (Ecdsa der)), MarshalPKIXPublicKey = Some,
     ParseECPrivateKey = Some, ParsePKCS8PrivateKey = (\<lambda>der. None), MarshalECPrivateKey = Some, PublicOf = id,
     CreateCertificate = (\<lambda>key. Some (\<lambda>t random. CommonName t)), CertificateKey = (\<lambda>cert. Some (Ecdsa cert)),
     PemDecode = (\<lambda>s. Some (bytes_of_str s))\<rparr>"

definition demo_created :: created where
  "demo_created = \<lparr>c_id = ''dev'', c_token = ''tok''\<rparr>"

definition demo_peer :: peer where
  "demo_peer = \<lparr>p_key = ''edge'', p_v4 = ''162.159.198.2:0'', p_v6 = ''[2606:4700:103::2]:0'', p_ports = [443, 500]\<rparr>"

definition demo_enrolled :: enrolled where
  "demo_enrolled = \<lparr>e_id = ''dev'', e_key_type = ''secp256r1'', e_tun_type = ''masque'', e_account = ''acc'',
     e_peers = [demo_peer], e_addr4 = ''172.16.0.2'', e_addr6 = []\<rparr>"

definition demo_loaded :: "(bytes, string) loaded" where
  "demo_loaded = (case finish_registration demo_crypto (0, []) demo_created [1, 2, 3] demo_enrolled of
     Inr l \<Rightarrow> l | Inl _ \<Rightarrow> \<lparr>l_reg = blank, l_key = [], l_cert = []\<rparr>)"

definition demo_json :: json_codec where
  "demo_json = \<lparr>MarshalIndent = (\<lambda>r. if r = l_reg demo_loaded then Some ''{}'' else None),
     Unmarshal = (\<lambda>s. if s = ''{}'' then Some (l_reg demo_loaded) else None),
     UnmarshalIdent = (\<lambda>s. if s = ''{}'' then Some (ID (l_reg demo_loaded), Token (l_reg demo_loaded)) else None)\<rparr>"

definition demo_env :: "bytes register_env" where
  "demo_env = \<lparr>r_random = None, r_x25519 = (\<lambda>k. None), r_serial = None, r_create = Response 200 (Some demo_created), r_key = Some [1, 2, 3],
     r_enroll = Response 200 (Some demo_enrolled), r_moment = (0, [])\<rparr>"

lemma demo_ok: "codecs_ok demo_crypto demo_json"
  by (auto simp: codecs_ok_def demo_crypto_def demo_json_def split: if_splits)

lemma demo_finish: "finish_registration demo_crypto (0, []) demo_created [1, 2, 3] demo_enrolled = Inr demo_loaded"
  by (simp add: demo_loaded_def finish_registration_def demo_enrolled_def demo_peer_def Let_def
      privateKeyToBase64_def publicKeyToBase64_def pemPublicKeyToBase64_def publicKeyFromDER_def
      buildClientCert_def demo_crypto_def)

text \<open>C16: what \<open>Register\<close> returned and \<open>Save\<close> wrote is what any later start loads, with the same
  private key and a certificate made anew for the same name and key; its token belongs to a device
  the API has confirmed, and the public half of the loaded key is the one that was enrolled for
  that device.\<close>
theorem registration_survives_restart:
  assumes "codecs_ok c j" "Register c env w = (Inr l, w1)" "Save j Written (l_reg l) w1 = (True, w2)"
  shows "\<exists>l'. Load c j m True w2 = Inr l' \<and> l_reg l' = l_reg l \<and> l_key l' = l_key l \<and>
    buildClientCert c m (ID (l_reg l)) (l_key l) = Some (l_cert l') \<and>
    (\<exists>ident req. (ident, Token (l_reg l)) \<in> w_devices w2 \<and> PatchReg ident (Token (l_reg l)) req \<in> set (w_calls w2) \<and>
       publicKeyToBase64 c (PublicOf c (l_key l)) = Inr (eq_key req))"
proof -
  from Register_Inr [OF assms(2)] obtain reg key der e post where
    r: "finish_registration c (r_moment env) reg key e = Inr l" "MarshalPKIXPublicKey c (PublicOf c key) = Some der"
      "w_devices w1 = insert (c_id reg, c_token reg) (w_devices w)"
      "w_calls w1 = w_calls w @ [PostReg post, PatchReg (c_id reg) (c_token reg)
         \<lparr>eq_key = b64_encode der, eq_key_type = ''secp256r1'', eq_tun_type = ''masque''\<rparr>]"
    by metis
  note f = finish_registration_Inr [OF r(1)]
  from Load_saved [OF assms(1) r(1) assms(3), of m] obtain cert where
    load: "buildClientCert c m (ID (l_reg l)) (l_key l) = Some cert" "Load c j m True w2 = Inr (l\<lparr>l_cert := cert\<rparr>)" by blast
  from assms(3) obtain data where d: "MarshalIndent j (l_reg l) = Some data" "w2 = w1\<lparr>w_file := Some data\<rparr>"
    by (auto simp: Save_def split: option.splits)
  have "(c_id reg, Token (l_reg l)) \<in> w_devices w2" using r(3) d(2) f(2) by simp
  moreover have "PatchReg (c_id reg) (Token (l_reg l))
      \<lparr>eq_key = b64_encode der, eq_key_type = ''secp256r1'', eq_tun_type = ''masque''\<rparr> \<in> set (w_calls w2)"
    using r(4) d(2) f(2) by simp
  moreover have "publicKeyToBase64 c (PublicOf c (l_key l)) = Inr (b64_encode der)"
    using r(2) f(1) by (simp add: publicKeyToBase64_def)
  ultimately show ?thesis using load by (intro exI [of _ "l\<lparr>l_cert := cert\<rparr>"]) force
qed

definition demo_world :: world where
  "demo_world = \<lparr>w_file = None, w_devices = {}, w_calls = []\<rparr>"

text \<open>The world after the demonstration's \<open>Register\<close>.\<close>

definition demo_registered :: world where
  "demo_registered = snd (Register demo_crypto demo_env demo_world)"

lemma demo_register: "Register demo_crypto demo_env demo_world = (Inr demo_loaded, demo_registered)"
  using demo_finish
  by (simp add: demo_registered_def Register_def enroll_def Let_def demo_env_def demo_crypto_def demo_created_def)

lemma demo_save: "Save demo_json Written (l_reg demo_loaded) demo_registered = (True, demo_registered\<lparr>w_file := Some ''{}''\<rparr>)"
  by (simp add: Save_def demo_json_def)

theorem registration_survives_restart_witness:
  "\<exists>l'. Load demo_crypto demo_json (1000, [7]) True (demo_registered\<lparr>w_file := Some ''{}''\<rparr>) = Inr l' \<and>
     l_reg l' = l_reg demo_loaded \<and> l_key l' = l_key demo_loaded"
  using registration_survives_restart [OF demo_ok demo_register demo_save] by blast

text \<open>C5: the edge is pinned to the key the API handed out: the verifier that the next start builds
  from the file accepts a chain exactly if its first certificate carries that very ECDSA key.\<close>
theorem registration_pins_edge:
  assumes "codecs_ok c j" "finish_registration c m reg key e = Inr l" "e_peers e = p # ps" "p_key p \<noteq> []"
    and "PemDecode c (p_key p) = Some der" "ParsePKIXPublicKey c der = Some (Ecdsa pub)"
    and "MarshalPKIXPublicKey c pub \<noteq> Some []"
  shows "\<exists>v. PeerPublicKeyVerifier c (l_reg l) = Inr (Some v) \<and>
    (\<forall>certs. v certs = Inr () \<longleftrightarrow> certs \<noteq> [] \<and> CertificateKey c (hd certs) = Some (Ecdsa pub))"
proof -
  have "pemPublicKeyToBase64 c (p_key p) = publicKeyToBase64 c pub"
    using assms(5,6) by (simp add: pemPublicKeyToBase64_def publicKeyFromDER_def)
  with finish_registration_Inr(6) [OF assms(2,3,4)]
  have k: "publicKeyToBase64 c pub = Inr (PeerPublicKey (l_reg l))" by simp
  then have "PeerPublicKey (l_reg l) \<noteq> []"
    using assms(7) by (cases "MarshalPKIXPublicKey c pub") (auto simp: publicKeyToBase64_def b64_encode_nonempty)
  with decode_public_roundtrip [OF assms(1) k]
  have "PeerPublicKeyVerifier c (l_reg l) = Inr (Some (verify_edge c pub))" by (simp add: PeerPublicKeyVerifier_def)
  moreover have "verify_edge c pub certs = Inr () \<longleftrightarrow> certs \<noteq> [] \<and> CertificateKey c (hd certs) = Some (Ecdsa pub)" for certs
    by (auto simp: verify_edge_def split: list.splits option.splits some_key.splits)
  ultimately show ?thesis by blast
qed

theorem registration_pins_edge_witness:
  "\<exists>v. PeerPublicKeyVerifier demo_crypto (l_reg demo_loaded) = Inr (Some v) \<and>
     v [bytes_of_str ''edge''] = Inr () \<and> v [bytes_of_str ''other''] \<noteq> Inr () \<and> v [] \<noteq> Inr ()"
proof -
  have "\<exists>v. PeerPublicKeyVerifier demo_crypto (l_reg demo_loaded) = Inr (Some v) \<and>
     (\<forall>certs. v certs = Inr () \<longleftrightarrow> certs \<noteq> [] \<and> CertificateKey demo_crypto (hd certs) = Some (Ecdsa (bytes_of_str ''edge'')))"
    by (rule registration_pins_edge [OF demo_ok demo_finish, where p = demo_peer and ps = "[]" and der = "bytes_of_str ''edge''"])
      (simp_all add: demo_enrolled_def demo_peer_def demo_crypto_def)
  then obtain v where v: "PeerPublicKeyVerifier demo_crypto (l_reg demo_loaded) = Inr (Some v)"
    "\<And>certs. v certs = Inr () \<longleftrightarrow> certs \<noteq> [] \<and> CertificateKey demo_crypto (hd certs) = Some (Ecdsa (bytes_of_str ''edge''))"
    by blast
  have "CertificateKey demo_crypto cert = Some (Ecdsa cert)" for cert by (simp add: demo_crypto_def)
  with v show ?thesis by (intro exI [of _ v]) simp
qed

text \<open>The device that the file identifies.\<close>

definition identified :: "json_codec \<Rightarrow> bool \<Rightarrow> world \<Rightarrow> (string \<times> string) option" where
  "identified j readable w =
     (case w_file w of
        Some data \<Rightarrow>
          (case UnmarshalIdent j data of
             Some (ident, token) \<Rightarrow> if readable \<and> ident \<noteq> [] \<and> token \<noteq> [] then Some (ident, token) else None
           | None \<Rightarrow> None)
      | None \<Rightarrow> None)"

text \<open>C28: what deregistering does on every outcome. If the file identifies a device, the API is asked
  to delete that very device, once, unless the request cannot be built; the device is gone from
  the API exactly on a status of 200 or 204; and whatever the API answered, the file is removed and
  success reported, if it can be removed. If the file cannot be read or names no device, nothing
  is called, nothing changes, and the failure is reported.\<close>
theorem DeleteRegistration_outcome:
  "case DeleteRegistration j readable resp removable w of (r, w') \<Rightarrow>
     (case identified j readable w of
        None \<Rightarrow> r \<noteq> Inr () \<and> w' = w
      | Some (ident, token) \<Rightarrow>
          w_calls w' = w_calls w @ (if resp = NotSent then [] else [DeleteReg ident token]) \<and>
          w_devices w' = (if resp \<in> {Response 200 (), Response 204 ()} then w_devices w - {(ident, token)} else w_devices w) \<and>
          (if removable then r = Inr () \<and> w_file w' = None else r = Inl DRemoveFailed \<and> w_file w' = w_file w))"
  by (cases "w_file w"; cases resp)
    (auto simp: DeleteRegistration_def Delete_def identified_def blank_def call_def Let_def split: option.splits prod.splits)

text \<open>When the API cannot be reached, deregistering still removes the file and reports success:
  the device stays registered and no credential to remove it is left.\<close>
theorem DeleteRegistration_strands_device:
  assumes "w_file w = Some data" "UnmarshalIdent j data = Some (ident, token)" "ident \<noteq> []" "token \<noteq> []"
    and "(ident, token) \<in> w_devices w"
  shows "\<exists>w'. DeleteRegistration j True NoResponse True w = (Inr (), w') \<and> w_file w' = None \<and>
    (ident, token) \<in> w_devices w'"
  using assms by (simp add: DeleteRegistration_def Delete_def)

theorem DeleteRegistration_strands_device_witness:
  "\<exists>w'. DeleteRegistration demo_json True NoResponse True (demo_registered\<lparr>w_file := Some ''{}''\<rparr>) = (Inr (), w') \<and>
     w_file w' = None \<and> (''dev'', ''tok'') \<in> w_devices w'"
proof -
  have i: "ID (l_reg demo_loaded) = ''dev''" "Token (l_reg demo_loaded) = ''tok''"
    using finish_registration_Inr(2,3) [OF demo_finish] by (simp_all add: demo_enrolled_def demo_created_def)
  show ?thesis
    by (rule DeleteRegistration_strands_device [where data = "''{}''"])
      (simp_all add: demo_json_def i demo_registered_def Register_def enroll_def Let_def demo_env_def demo_created_def
        demo_crypto_def)
qed

text \<open>The device of the first step is left behind, with no file that could remove it, whenever the
  second step fails.\<close>
theorem Register_strands_device:
  assumes "r_create env = Response 200 (Some reg)" "\<And>b. r_enroll env \<noteq> Response 200 b"
  shows "\<exists>err w'. Register c env w = (Inl err, w') \<and> w_file w' = w_file w \<and>
    w_devices w' = insert (c_id reg, c_token reg) (w_devices w)"
  using assms by (auto simp: Register_def enroll_def Let_def split: option.splits response.splits)

theorem Register_strands_device_witness:
  "\<exists>err w'. Register demo_crypto (demo_env\<lparr>r_enroll := Response 500 None\<rparr>) demo_world = (Inl err, w') \<and>
     w_file w' = None \<and> w_devices w' = {(''dev'', ''tok'')}"
  using Register_strands_device [of "demo_env\<lparr>r_enroll := Response 500 None\<rparr>" demo_created demo_crypto demo_world]
  by (simp add: demo_env_def demo_created_def demo_world_def)

section \<open>The clamped scalar\<close>

text \<open>The little-endian number of a byte string.\<close>

definition le_number :: "bytes \<Rightarrow> nat" where
  "le_number bs = foldr (\<lambda>b n. unat b + 256 * n) bs 0"

lemma le_number_Cons [simp]: "le_number (b # bs) = unat b + 256 * le_number bs"
  by (simp add: le_number_def)

lemma le_number_Nil [simp]: "le_number [] = 0"
  by (simp add: le_number_def)

lemma le_number_snoc: "le_number (bs @ [b]) = le_number bs + 256 ^ length bs * unat b"
  by (induction bs) (simp_all add: algebra_simps)

lemma le_number_less: "le_number bs < 256 ^ length bs"
proof (induction bs)
  case (Cons b bs)
  have "unat b + 256 * le_number bs < 256 * (le_number bs + 1)" using unat_byte_less [of b] by simp
  also have "\<dots> \<le> 256 * 256 ^ length bs" using Cons by (intro mult_left_mono) simp_all
  finally show ?case by simp
qed simp

lemma clear_low: "8 dvd unat (a AND 248 :: byte)"
proof -
  have "take_bit 3 (uint (a AND 248)) = 0" by (simp add: unsigned_and_eq)
  then have "8 dvd uint (a AND 248)" by (simp add: take_bit_eq_mod mod_eq_0_iff_dvd)
  then show ?thesis by (metis int_dvd_int_iff of_nat_numeral uint_nat)
qed

lemma set_high:
  "64 \<le> unat ((z AND 127) OR 64 :: byte)" "unat ((z AND 127) OR 64 :: byte) < 128"
proof -
  have "uint (z AND 127) = take_bit 7 (uint z)" by (simp add: unsigned_and_eq take_bit_eq_mask mask_eq_exp_minus_1)
  then have "uint (z AND 127) < 2 ^ 7" using take_bit_int_less_exp [of 7 "uint z"] by simp
  then have "uint (z AND 127) OR 64 < 2 ^ 7" by (intro OR_upper) simp_all
  moreover have "64 \<le> uint (z AND 127) OR 64" using or_greater_eq [of "uint (z AND 127)" 64] by (simp add: or.commute)
  ultimately have "64 \<le> uint ((z AND 127) OR 64 :: byte)" "uint ((z AND 127) OR 64 :: byte) < 128"
    by (simp_all add: unsigned_or_eq)
  then show "64 \<le> unat ((z AND 127) OR 64 :: byte)" "unat ((z AND 127) OR 64 :: byte) < 128"
    by (simp_all only: unat_eq_nat_uint)
qed

text \<open>The scalar of the first step has the form X25519 asks for, whatever the random bytes: a
  multiple of eight between \<open>2 ^ 254\<close> and \<open>2 ^ 255\<close>.\<close>
theorem clamp_form:
  assumes "length k = 32"
  shows "8 dvd le_number (clamp k) \<and> 2 ^ 254 \<le> le_number (clamp k) \<and> le_number (clamp k) < 2 ^ 255"
proof -
  obtain a r where k1: "k = a # r" using assms by (cases k) auto
  obtain m z where k2: "r = m @ [z]" using assms k1 by (cases r rule: rev_exhaust) auto
  have m: "length m = 30" using assms k1 k2 by simp
  let ?a = "a AND 248" and ?z = "(z AND 127) OR 64"
  have "clamp k = ?a # m @ [?z]"
    using m by (simp add: clamp_def k1 k2 Let_def list_update_append nth_append numeral_eq_Suc)
  then have n: "le_number (clamp k) = unat ?a + 256 * le_number m + 256 ^ 31 * unat ?z"
    using m by (simp add: le_number_snoc algebra_simps)
  have "unat ?a + 256 * le_number m < 256 ^ 31"
    using le_number_less [of "?a # m"] m by simp
  moreover have "8 dvd 256 * le_number m" "8 dvd 256 ^ 31 * unat ?z" by simp_all
  ultimately show ?thesis
    unfolding n using clear_low [of a] set_high [of z] by (auto intro!: dvd_add)
qed

theorem clamp_form_witness:
  "2 ^ 254 \<le> le_number (clamp (replicate 32 0)) \<and> le_number (clamp (replicate 32 255)) < 2 ^ 255"
  using clamp_form [of "replicate 32 0"] clamp_form [of "replicate 32 255"] by simp

end
