(* ===== verification/Warp_Main.thy ===== *)
theory Warp_Main
  imports Registration Socks_H2
begin

text \<open>
  The command (\<open>main.go\<close>): the flags, \<open>-del\<close> and \<open>-reg\<close>, the choice of the edge addresses and of
  the backend, the accept loop with its backoff, and the self-test through the proxy. What the
  operating system, the resolver, the API and the backends answer is an argument.
\<close>

section \<open>Edge addresses\<close>

text \<open>\<open>strconv.Itoa\<close> on any int.\<close>

definition itoa_int :: "int \<Rightarrow> string" where
  "itoa_int n = (if n < 0 then CHR ''-'' # itoa (nat (- n)) else itoa (nat n))"

datatype edge_error = NotHostPort addr_error | EmptyHost | BadPort string | LookupFailed | NothingFound

definition resolveEdge :: "(string \<Rightarrow> ip list option) \<Rightarrow> string \<Rightarrow> edge_error + string list" where
  "resolveEdge lookup spec =
     (case splitHostPort spec of
        Inl err \<Rightarrow> Inl (NotHostPort err)
      | Inr (host, port) \<Rightarrow>
          if host = [] then Inl EmptyHost
          else if (case atoi port of None \<Rightarrow> True | Some n \<Rightarrow> n < 1 \<or> n > 65535) then Inl (BadPort port)
          else if parseIP host \<noteq> None then Inr [joinHostPort host port]
          else case lookup host of
            None \<Rightarrow> Inl LookupFailed
          | Some addrs \<Rightarrow>
              if addrs = [] then Inl NothingFound
              else Inr (map (\<lambda>a. joinHostPort (ip_string a) port) addrs))"

datatype fatal =
    BadTransport string | DeregisterFailed delete_error | RegistrationUnreadable load_error
  | RegisterFailed register_error | SaveFailed | NotRegistered | BadRegistration load_error
  | NoEndpoint string | BadEdge edge_error | PinFailed key_error | ConnectFailed string | ListenFailed

text \<open>The candidates for HTTP/3 and for HTTP/2.\<close>

definition select_edges :: "(string \<Rightarrow> ip list option) \<Rightarrow> string \<Rightarrow> registration \<Rightarrow> fatal + string list \<times> string list" where
  "select_edges lookup which reg =
     (if which = ''4'' \<or> which = ''6'' then
        let endpointHost = (if which = ''6'' then EndpointV6 reg else EndpointV4 reg) in
        if endpointHost = [] then Inl (NoEndpoint which)
        else
          let ports = (if EndpointPorts reg = [] then [443] else EndpointPorts reg) in
          Inr (map (\<lambda>p. joinHostPort endpointHost (itoa_int p)) ports, [joinHostPort endpointHost ''443''])
      else case resolveEdge lookup which of
        Inl err \<Rightarrow> Inl (BadEdge err)
      | Inr addrs \<Rightarrow> Inr (addrs, addrs))"

section \<open>The backend\<close>

datatype backend = H3 | H2

text \<open>An attempt to construct a backend, with its budget in seconds if it has one.\<close>

datatype attempt_act = Construct backend "nat option"

definition connect_backend :: "string \<Rightarrow> bool \<Rightarrow> bool \<Rightarrow> (fatal + backend) \<times> attempt_act list" where
  "connect_backend transport h3_ok h2_ok =
     (if transport = ''h3'' then
        (if h3_ok then Inr H3 else Inl (ConnectFailed ''h3''), [Construct H3 None])
      else if transport = ''h2'' then
        (if h2_ok then Inr H2 else Inl (ConnectFailed ''h2''), [Construct H2 (Some 30)])
      else if h3_ok then (Inr H3, [Construct H3 (Some 10)])
      else (if h2_ok then Inr H2 else Inl (ConnectFailed ''h2''),
            [Construct H3 (Some 10), Construct H2 (Some 30)]))"

section \<open>The command\<close>

record flags =
  f_user :: string
  f_pass :: string
  f_ip :: string
  f_transport :: string
  f_reg :: bool
  f_del :: bool

record 'priv environment =
  v_readable :: bool
  v_moment :: moment
  v_delete :: "unit response"
  v_removable :: bool
  v_register :: "'priv register_env"
  v_write :: write_result
  v_lookup :: "string \<Rightarrow> ip list option"
  v_h3 :: bool
  v_h2 :: bool
  v_listen :: bool

text \<open>What the flags make of the handlers' configuration.\<close>

definition socks_cfg :: "flags \<Rightarrow> socks_config" where
  "socks_cfg f = \<lparr>Username = f_user f, Password = f_pass f, AllowUDP = True\<rparr>"

text \<open>A running proxy: its backend, the candidates it was given, whether the edge is pinned, and the
  configuration it hands to the handler of each client.\<close>

record proxy =
  x_backend :: backend
  x_h3 :: "string list"
  x_h2 :: "string list"
  x_pinned :: bool
  x_socks :: socks_config

datatype outcome = Fatal fatal | Done | Serving proxy

definition warp_del :: "json_codec \<Rightarrow> 'priv environment \<Rightarrow> world \<Rightarrow> outcome \<times> world" where
  "warp_del j v w =
     (case DeleteRegistration j (v_readable v) (v_delete v) (v_removable v) w of
        (Inl err, w) \<Rightarrow> (Fatal (DeregisterFailed err), w)
      | (Inr _, w) \<Rightarrow> (Done, w))"

definition warp_reg :: "('priv, 'pub, 'cert) crypto \<Rightarrow> json_codec \<Rightarrow> 'priv environment \<Rightarrow> world \<Rightarrow> outcome \<times> world" where
  "warp_reg c j v w =
     (case Load c j (v_moment v) (v_readable v) w of
        Inr existing \<Rightarrow> (Done, w)
      | Inl err \<Rightarrow>
          if err \<noteq> FileAbsent then (Fatal (RegistrationUnreadable err), w)
          else case Register c (v_register v) w of
            (Inl err, w) \<Rightarrow> (Fatal (RegisterFailed err), w)
          | (Inr regData, w) \<Rightarrow>
              (case Save j (v_write v) (l_reg regData) w of
                 (saved, w) \<Rightarrow> (if saved then Done else Fatal SaveFailed, w)))"

definition warp_start ::
    "('priv, 'pub, 'cert) crypto \<Rightarrow> json_codec \<Rightarrow> 'priv environment \<Rightarrow> flags \<Rightarrow> string \<Rightarrow> world \<Rightarrow> outcome" where
  "warp_start c j v f transport w =
     (case Load c j (v_moment v) (v_readable v) w of
        Inl err \<Rightarrow> Fatal (if err = FileAbsent then NotRegistered else BadRegistration err)
      | Inr regData \<Rightarrow>
          (case select_edges (v_lookup v) (f_ip f) (l_reg regData) of
             Inl err \<Rightarrow> Fatal err
           | Inr (h3, h2) \<Rightarrow>
               (case PeerPublicKeyVerifier c (l_reg regData) of
                  Inl err \<Rightarrow> Fatal (PinFailed err)
                | Inr verifyEdge \<Rightarrow>
                    (case fst (connect_backend transport (v_h3 v) (v_h2 v)) of
                       Inl err \<Rightarrow> Fatal err
                     | Inr b \<Rightarrow>
                         if \<not> v_listen v then Fatal ListenFailed
                         else Serving \<lparr>x_backend = b, x_h3 = h3, x_h2 = h2, x_pinned = verifyEdge \<noteq> None,
                                x_socks = socks_cfg f\<rparr>))))"

definition warp_main ::
    "('priv, 'pub, 'cert) crypto \<Rightarrow> json_codec \<Rightarrow> 'priv environment \<Rightarrow> flags \<Rightarrow> world \<Rightarrow> outcome \<times> world" where
  "warp_main c j v f w =
     (let transport = toLower (trimSpace (f_transport f)) in
      if transport \<noteq> ''auto'' \<and> transport \<noteq> ''h3'' \<and> transport \<noteq> ''h2'' then (Fatal (BadTransport transport), w)
      else if f_del f then warp_del j v w
      else if f_reg f then warp_reg c j v w
      else (warp_start c j v f transport w, w))"

section \<open>The accept loop\<close>

text \<open>One return of \<open>Accept\<close>; for an error also whether the shutdown had begun when the code looks,
  and whether it begins during the wait. Times are in nanoseconds.\<close>

datatype accept_result = Accepted nat | AcceptTimeout bool | AcceptClosed bool | AcceptFailed bool bool

datatype accept_act = Serve nat | Backoff int

definition maxAcceptBackoff :: int where
  "maxAcceptBackoff = 1000000000"

definition next_backoff :: "int \<Rightarrow> int" where
  "next_backoff b =
     (if b = 0 then 5000000
      else let b = b * 2 in if b > maxAcceptBackoff then maxAcceptBackoff else b)"

text \<open>The actions of the loop, and whether it has ended.\<close>

fun accept_loop :: "int \<Rightarrow> accept_result list \<Rightarrow> accept_act list \<times> bool" where
  "accept_loop b [] = ([], False)"
| "accept_loop b (Accepted conn # es) = (let (acts, over) = accept_loop 0 es in (Serve conn # acts, over))"
| "accept_loop b (AcceptTimeout shutdown # es) = (if shutdown then ([], True) else accept_loop b es)"
| "accept_loop b (AcceptClosed shutdown # es) = ([], True)"
| "accept_loop b (AcceptFailed shutdown interrupted # es) =
     (if shutdown then ([], True)
      else
        let b = next_backoff b in
        if interrupted then ([Backoff b], True)
        else let (acts, over) = accept_loop b es in (Backoff b # acts, over))"

section \<open>The self-test\<close>

text \<open>The address under which the process reaches its own listener.\<close>

datatype net_addr = TCPAddr ip nat | OtherAddr string

definition isUnspecified :: "ip \<Rightarrow> bool" where
  "isUnspecified a \<longleftrightarrow> ip_equal a (v4InV6Prefix @ [0, 0, 0, 0]) \<or> ip_equal a (replicate 16 0)"

definition loopbackAddress :: "net_addr \<Rightarrow> string" where
  "loopbackAddress addr =
     (case addr of
        OtherAddr s \<Rightarrow> s
      | TCPAddr a port \<Rightarrow>
          let ip = (if a = [] \<or> isUnspecified a then
                      (if a \<noteq> [] \<and> to4 a = None then replicate 15 0 @ [1] else v4InV6Prefix @ [127, 0, 0, 1])
                    else a)
          in joinHostPort (ip_string ip) (itoa port))"

definition trace_values :: "string \<Rightarrow> (string \<times> string) list" where
  "trace_values body =
     fold (\<lambda>line vs. case cut CHR ''='' line of None \<Rightarrow> vs | Some (key, val) \<Rightarrow> (key, trimSpace val) # vs)
       (split_on (char_of (10 :: nat)) body) []"

definition trace_value :: "string \<Rightarrow> string \<Rightarrow> string" where
  "trace_value body key = (case map_of (trace_values body) key of None \<Rightarrow> [] | Some v \<Rightarrow> v)"

datatype test_error = TestSetup | TestRequest | TestRead | TestStatus nat string | NotWarp string string string

text \<open>\<open>body\<close> is what \<open>ReadAll\<close> returned of at most 64 KiB.\<close>

definition runSOCKSSelfTest :: "bool \<Rightarrow> (nat \<times> string option) option \<Rightarrow> test_error + unit" where
  "runSOCKSSelfTest setup_ok resp =
     (if \<not> setup_ok then Inl TestSetup
      else case resp of
        None \<Rightarrow> Inl TestRequest
      | Some (status, None) \<Rightarrow> Inl TestRead
      | Some (status, Some body) \<Rightarrow>
          if status \<noteq> 200 then Inl (TestStatus status (trimSpace body))
          else if trace_value body ''warp'' \<noteq> ''on'' \<and> trace_value body ''warp'' \<noteq> ''plus'' then
            Inl (NotWarp (trace_value body ''warp'') (trace_value body ''ip'') (trace_value body ''colo''))
          else Inr ())"

text \<open>At most three runs, two seconds apart: the runs made and whether one of them passed; \<open>ctx i\<close>
  says whether the shutdown begins while the code waits after run \<open>i\<close>.\<close>

fun selftest_loop :: "nat \<Rightarrow> nat \<Rightarrow> (nat \<Rightarrow> test_error + unit) \<Rightarrow> (nat \<Rightarrow> bool) \<Rightarrow> nat \<times> bool" where
  "selftest_loop 0 attempt test ctx = (attempt, False)"
| "selftest_loop (Suc n) attempt test ctx =
     (case test attempt of
        Inr _ \<Rightarrow> (Suc attempt, True)
      | Inl err \<Rightarrow> if ctx attempt then (Suc attempt, False) else selftest_loop n (Suc attempt) test ctx)"

section \<open>Lemmas\<close>

lemma warp_reg_Done:
  assumes "w_file w = None" "warp_reg c j v w = (Done, w1)"
  obtains l w0 where "Register c (v_register v) w = (Inr l, w0)" "Save j Written (l_reg l) w0 = (True, w1)"
proof -
  have "Load c j (v_moment v) (v_readable v) w = Inl FileAbsent" using assms(1) by (simp add: Load_def)
  with assms(2) obtain l w0 where r: "Register c (v_register v) w = (Inr l, w0)"
    "Save j (v_write v) (l_reg l) w0 = (True, w1)"
    by (auto simp: warp_reg_def split: prod.splits sum.splits if_splits)
  from r(2) have "v_write v = Written" by (auto simp: Save_def split: option.splits write_result.splits)
  with r that show ?thesis by simp
qed

text \<open>The failures that mean a missing or unreadable registration come from \<open>Load\<close> alone.\<close>

definition load_fatal :: "fatal \<Rightarrow> bool" where
  "load_fatal e \<longleftrightarrow> e = NotRegistered \<or> (\<exists>err. e = BadRegistration err)"

lemma connect_backend_fatal: "fst (connect_backend t a b) = Inl e \<Longrightarrow> \<not> load_fatal e"
  by (auto simp: connect_backend_def load_fatal_def split: if_splits)

lemma select_edges_fatal: "select_edges lookup which r = Inl e \<Longrightarrow> \<not> load_fatal e"
  by (auto simp: select_edges_def load_fatal_def Let_def split: if_splits sum.splits)

lemma warp_start_loaded:
  assumes "Load c j (v_moment v) (v_readable v) w = Inr l"
  shows "warp_start c j v f t w = Fatal e \<Longrightarrow> \<not> load_fatal e"
  using assms select_edges_fatal [of "v_lookup v" "f_ip f" "l_reg l" e]
    connect_backend_fatal [of t "v_h3 v" "v_h2 v" e]
  by (auto simp: warp_start_def load_fatal_def split: sum.splits prod.splits if_splits)

lemma next_backoff_bounds:
  "b = 0 \<or> 5000000 \<le> b \<and> b \<le> maxAcceptBackoff \<Longrightarrow> 5000000 \<le> next_backoff b \<and> next_backoff b \<le> maxAcceptBackoff"
  by (auto simp: next_backoff_def maxAcceptBackoff_def Let_def)

text \<open>Which returns of \<open>Accept\<close> end the loop, and which connections it has to serve.\<close>

fun ends_loop :: "accept_result \<Rightarrow> bool" where
  "ends_loop (Accepted conn) = False"
| "ends_loop (AcceptTimeout shutdown) = shutdown"
| "ends_loop (AcceptClosed shutdown) = True"
| "ends_loop (AcceptFailed shutdown interrupted) = (shutdown \<or> interrupted)"

definition accepted :: "accept_result list \<Rightarrow> nat list" where
  "accepted es = [conn. Accepted conn \<leftarrow> es]"

definition served :: "accept_act list \<Rightarrow> nat list" where
  "served acts = [conn. Serve conn \<leftarrow> acts]"

lemma accept_loop_serves:
  "served (fst (accept_loop b es)) = accepted (takeWhile (\<lambda>e. \<not> ends_loop e) es) \<and>
   (snd (accept_loop b es) \<longleftrightarrow> (\<exists>e \<in> set es. ends_loop e))"
  by (induction b es rule: accept_loop.induct)
    (auto simp: served_def accepted_def Let_def split: prod.splits)

lemma accept_loop_bounds:
  assumes "b = 0 \<or> 5000000 \<le> b \<and> b \<le> maxAcceptBackoff" "Backoff d \<in> set (fst (accept_loop b es))"
  shows "5000000 \<le> d \<and> d \<le> maxAcceptBackoff"
  using assms
proof (induction b es rule: accept_loop.induct)
  case (5 b shutdown interrupted es)
  note nb = next_backoff_bounds [OF 5(2)]
  show ?case
    using 5(3) nb 5(1) [OF _ refl] by (auto simp: Let_def split: if_splits prod.splits)
qed (auto simp: Let_def split: if_splits prod.splits)

text \<open>The wait after \<open>k\<close> errors in a row.\<close>

definition backoff_after :: "nat \<Rightarrow> int" where
  "backoff_after k = min (5000000 * 2 ^ k) maxAcceptBackoff"

lemma next_backoff_after: "next_backoff (backoff_after k) = backoff_after (Suc k)"
proof -
  have "(1 :: int) \<le> 2 ^ k" by simp
  then show ?thesis by (simp add: next_backoff_def backoff_after_def maxAcceptBackoff_def Let_def min_def)
qed

lemma accept_loop_errors:
  "accept_loop (backoff_after k) (replicate n (AcceptFailed False False)) =
     (map (\<lambda>i. Backoff (backoff_after (Suc k + i))) [0..<n], False)"
proof (induction n arbitrary: k)
  case (Suc n)
  have "[0..<Suc n] = 0 # map Suc [0..<n]" by (simp add: upt_conv_Cons map_Suc_upt del: upt_Suc)
  with Suc [of "Suc k"] show ?case by (simp add: next_backoff_after Let_def o_def del: upt_Suc)
qed simp

text \<open>The loop goes on from the state it is in; after a connection it starts afresh.\<close>

lemma accept_loop_append:
  "list_all (\<lambda>e. \<not> ends_loop e) pre \<Longrightarrow>
     \<exists>b'. fst (accept_loop b (pre @ es)) = fst (accept_loop b pre) @ fst (accept_loop b' es)"
proof (induction b pre rule: accept_loop.induct)
  case (5 b shutdown interrupted pre)
  then show ?case by (force simp: Let_def split: prod.splits)
qed (force simp: Let_def split: prod.splits)+

lemma accept_loop_resets:
  assumes "list_all (\<lambda>e. \<not> ends_loop e) pre"
  shows "fst (accept_loop b (pre @ Accepted conn # es)) = fst (accept_loop b pre) @ Serve conn # fst (accept_loop 0 es)"
  using accept_loop_append [OF assms, of b "Accepted conn # es"] by (auto simp: Let_def split: prod.splits)

text \<open>Errors, with timeouts between them that neither wait nor reset.\<close>

lemma accept_loop_timeouts:
  "fst (accept_loop b (replicate n (AcceptTimeout False) @ es)) = fst (accept_loop b es)"
  by (induction n) simp_all

lemma accept_loop_errors_0:
  "fst (accept_loop 0 (replicate n (AcceptFailed False False))) = map (\<lambda>i. Backoff (backoff_after i)) [0..<n]"
proof (cases n)
  case (Suc m)
  have "[0..<Suc m] = 0 # map Suc [0..<m]" by (simp add: upt_conv_Cons map_Suc_upt del: upt_Suc)
  moreover have "next_backoff 0 = backoff_after 0" by (simp add: next_backoff_def backoff_after_def maxAcceptBackoff_def)
  ultimately show ?thesis using Suc accept_loop_errors [of 0 m] by (simp add: Let_def o_def del: upt_Suc)
qed simp

section \<open>Properties\<close>

text \<open>C3: only an explicit request changes the registration: a start writes no file and makes no call
  to the API, and neither does \<open>-reg\<close> when a state file exists, be it readable or not.\<close>
theorem warp_only_registers_when_asked:
  assumes "\<not> f_del f" "f_reg f \<Longrightarrow> w_file w \<noteq> None"
  shows "snd (warp_main c j v f w) = w"
proof -
  have "err \<noteq> FileAbsent" if "Load c j (v_moment v) (v_readable v) w = Inl err" "f_reg f" for err
    using assms(2) [OF that(2)] that(1) by (auto simp: Load_def split: if_splits option.splits sum.splits)
  then show ?thesis using assms(1) by (auto simp: warp_main_def warp_reg_def Let_def split: sum.splits)
qed

text \<open>A concrete environment and command line.\<close>

definition demo_environment :: "bytes environment" where
  "demo_environment = \<lparr>v_readable = True, v_moment = (500, []), v_delete = NoResponse, v_removable = True, v_register = demo_env,
     v_write = Written, v_lookup = (\<lambda>name. None), v_h3 = False, v_h2 = True, v_listen = True\<rparr>"

definition demo_flags :: flags where
  "demo_flags = \<lparr>f_user = [], f_pass = [], f_ip = ''4'', f_transport = ''auto'', f_reg = False, f_del = False\<rparr>"

theorem warp_only_registers_when_asked_witness:
  "snd (warp_main demo_crypto demo_json demo_environment (demo_flags\<lparr>f_reg := True\<rparr>)
     (demo_world\<lparr>w_file := Some ''garbage''\<rparr>)) = demo_world\<lparr>w_file := Some ''garbage''\<rparr>"
  by (rule warp_only_registers_when_asked) (simp_all add: demo_flags_def)

text \<open>C18: after \<open>-reg\<close> has succeeded on a fresh directory the proxy can start: the registration is
  found and read, and a further \<open>-reg\<close> reports success without touching anything.\<close>
theorem reg_then_start:
  assumes "codecs_ok c j" "w_file w = None" "f_reg f" "\<not> f_del f"
    and "warp_main c j v f w = (Done, w1)"
    and "toLower (trimSpace (f_transport g)) \<in> {''auto'', ''h3'', ''h2''}" "\<not> f_del g" "v_readable u"
  shows "if f_reg g then warp_main c j u g w1 = (Done, w1)
    else \<exists>out. warp_main c j u g w1 = (out, w1) \<and> out \<noteq> Fatal NotRegistered \<and> (\<forall>e. out \<noteq> Fatal (BadRegistration e))"
proof -
  have "warp_reg c j v w = (Done, w1)"
    using assms(3-5) by (auto simp: warp_main_def Let_def split: if_splits)
  from warp_reg_Done [OF assms(2) this] obtain l w0 where
    "Register c (v_register v) w = (Inr l, w0)" "Save j Written (l_reg l) w0 = (True, w1)" .
  from Load_registered [OF assms(1) this, of "v_moment u"] obtain l' where
    load: "Load c j (v_moment u) True w1 = Inr l'" by blast
  show ?thesis
  proof (cases "f_reg g")
    case True
    with load assms(6-8) show ?thesis by (auto simp: warp_main_def warp_reg_def Let_def)
  next
    case False
    with load assms(6-8) warp_start_loaded [of c j u w1 l' g] show ?thesis
      by (auto simp: warp_main_def Let_def load_fatal_def)
  qed
qed

text \<open>The first \<open>-reg\<close>.\<close>

lemma demo_reg:
  "warp_main demo_crypto demo_json demo_environment (demo_flags\<lparr>f_reg := True\<rparr>) demo_world =
     (Done, demo_registered\<lparr>w_file := Some ''{}''\<rparr>)"
proof -
  have "toLower (trimSpace ''auto'') = ''auto''" by code_simp
  moreover have "Load demo_crypto demo_json m True demo_world = Inl FileAbsent" for m by (simp add: Load_def demo_world_def)
  ultimately show ?thesis using demo_register demo_save
    by (simp add: warp_main_def warp_reg_def demo_flags_def demo_environment_def)
qed

theorem reg_then_start_witness:
  "\<exists>out. warp_main demo_crypto demo_json demo_environment demo_flags (demo_registered\<lparr>w_file := Some ''{}''\<rparr>) =
      (out, demo_registered\<lparr>w_file := Some ''{}''\<rparr>) \<and> out \<noteq> Fatal NotRegistered"
proof -
  have "toLower (trimSpace ''auto'') = ''auto''" by code_simp
  then show ?thesis
    using reg_then_start [OF demo_ok _ _ _ demo_reg, of demo_flags demo_environment]
    by (auto simp: demo_world_def demo_flags_def demo_environment_def)
qed

text \<open>C19: a proxy that serves without pinning the edge has a registration that names no edge key; a
  key that cannot be read never lets it start.\<close>
theorem never_silently_unpinned:
  assumes "warp_main c j v f w = (Serving x, w')" "\<not> x_pinned x"
  shows "\<exists>l. Load c j (v_moment v) (v_readable v) w = Inr l \<and> PeerPublicKey (l_reg l) = []"
  using assms
  by (auto simp: warp_main_def warp_del_def warp_reg_def warp_start_def Let_def PeerPublicKeyVerifier_def
      split: if_splits sum.splits prod.splits)

theorem never_silently_unpinned_witness:
  "\<exists>l. Load demo_crypto \<lparr>MarshalIndent = \<lambda>r. None, Unmarshal = \<lambda>s. Some (blank\<lparr>EndpointV4 := ''e''\<rparr>),
       UnmarshalIdent = \<lambda>s. None\<rparr> (500, []) True (demo_world\<lparr>w_file := Some ''{}''\<rparr>) = Inr l \<and> PeerPublicKey (l_reg l) = []"
    (is "\<exists>l. Load _ ?j _ _ ?w = _ \<and> _")
proof -
  have t: "toLower (trimSpace ''auto'') = ''auto''" by code_simp
  have "\<exists>x. warp_main demo_crypto ?j demo_environment demo_flags ?w = (Serving x, ?w) \<and> \<not> x_pinned x"
    using t by (simp add: warp_main_def demo_flags_def demo_environment_def warp_start_def Load_def blank_def
        decodePrivateKey_def b64_decode_def trimSpace_def demo_crypto_def buildClientCert_def select_edges_def
        PeerPublicKeyVerifier_def connect_backend_def Let_def)
  then obtain x where "warp_main demo_crypto ?j demo_environment demo_flags ?w = (Serving x, ?w)" "\<not> x_pinned x" by blast
  from never_silently_unpinned [OF this] show ?thesis by (simp add: demo_environment_def)
qed

text \<open>C20: the accept loop serves every connection it accepts, in order, until the shutdown or the
  loss of the listener, which are the only things that end it. After an error it waits: 5 ms after
  the first one since the start or since the last connection, twice as long after each further
  one, up to one second, timeouts in between making no difference; never more than a second and
  never less than 5 ms.\<close>
theorem accept_loop_behaviour:
  assumes "list_all (\<lambda>e. \<not> ends_loop e) pre"
  shows "served (fst (accept_loop 0 es)) = accepted (takeWhile (\<lambda>e. \<not> ends_loop e) es) \<and>
    (snd (accept_loop 0 es) \<longleftrightarrow> (\<exists>e \<in> set es. ends_loop e)) \<and>
    {d. Backoff d \<in> set (fst (accept_loop 0 es))} \<subseteq> {5000000..1000000000} \<and>
    fst (accept_loop 0 (replicate n (AcceptFailed False False))) =
      map (\<lambda>i. Backoff (min (5000000 * 2 ^ i) 1000000000)) [0..<n] \<and>
    fst (accept_loop 0 (pre @ Accepted conn # replicate n (AcceptFailed False False))) =
      fst (accept_loop 0 pre) @ Serve conn # map (\<lambda>i. Backoff (min (5000000 * 2 ^ i) 1000000000)) [0..<n] \<and>
    fst (accept_loop b (replicate k (AcceptTimeout False) @ es)) = fst (accept_loop b es)"
  using accept_loop_serves [of 0 es] accept_loop_bounds [of 0 _ es] accept_loop_errors_0 [of n]
    accept_loop_resets [OF assms, of 0 conn "replicate n (AcceptFailed False False)"] accept_loop_timeouts [of b k es]
  by (auto simp: backoff_after_def maxAcceptBackoff_def)

theorem accept_loop_behaviour_witness:
  "fst (accept_loop 0 ([AcceptFailed False False, AcceptFailed False False] @ Accepted 7 # replicate 2 (AcceptFailed False False))) =
     [Backoff 5000000, Backoff 10000000] @ [Serve 7, Backoff 5000000, Backoff 10000000]"
proof -
  have "list_all (\<lambda>e. \<not> ends_loop e) [AcceptFailed False False, AcceptFailed False False]" by simp
  from accept_loop_behaviour [OF this, of "[]" 2 7 0 0] show ?thesis
    by (simp add: next_backoff_def maxAcceptBackoff_def Let_def upt_conv_Cons)
qed

text \<open>A \<open>-reg\<close> whose write is cut short leaves a device registered that the program cannot remove: the
  next \<open>-reg\<close> refuses the unreadable file and suggests \<open>-del\<close>, but \<open>-del\<close> cannot read it either.\<close>
theorem interrupted_save_blocks:
  assumes "w_file w = None" "Register c (v_register v) w = (Inr l, w1)"
    and "MarshalIndent j (l_reg l) = Some data" "v_write v = Truncated n"
    and "Unmarshal j (take n data) = None" "UnmarshalIdent j (take n data) = None" "v_readable u"
  shows "\<exists>w2 ident err. warp_reg c j v w = (Fatal SaveFailed, w2) \<and> (ident, Token (l_reg l)) \<in> w_devices w2 \<and>
    warp_reg c j u w2 = (Fatal (RegistrationUnreadable BadJSON), w2) \<and>
    warp_del j u w2 = (Fatal (DeregisterFailed err), w2)"
proof -
  let ?w2 = "w1\<lparr>w_file := Some (take n data)\<rparr>"
  obtain reg key e m where fin: "finish_registration c m reg key e = Inr l"
    and dev: "w_devices w1 = insert (c_id reg, c_token reg) (w_devices w)"
    by (rule Register_Inr [OF assms(2)])
  have "Load c j (v_moment v) (v_readable v) w = Inl FileAbsent" using assms(1) by (simp add: Load_def)
  then have "warp_reg c j v w = (Fatal SaveFailed, ?w2)"
    using assms(2-4) by (simp add: warp_reg_def Save_def)
  moreover have "warp_reg c j u ?w2 = (Fatal (RegistrationUnreadable BadJSON), ?w2)"
    using assms(5,7) by (simp add: warp_reg_def Load_def)
  moreover have "warp_del j u ?w2 = (Fatal (DeregisterFailed DBadJSON), ?w2)"
    using assms(6,7) by (simp add: warp_del_def DeleteRegistration_def)
  moreover have "(c_id reg, Token (l_reg l)) \<in> w_devices ?w2" using dev finish_registration_Inr(2) [OF fin] by simp
  ultimately show ?thesis by blast
qed

theorem interrupted_save_blocks_witness:
  "\<exists>w2 ident. warp_reg demo_crypto demo_json (demo_environment\<lparr>v_write := Truncated 1\<rparr>) demo_world = (Fatal SaveFailed, w2) \<and>
     (ident, ''tok'') \<in> w_devices w2 \<and>
     warp_reg demo_crypto demo_json demo_environment w2 = (Fatal (RegistrationUnreadable BadJSON), w2)"
proof -
  have t: "Token (l_reg demo_loaded) = ''tok''"
    using finish_registration_Inr(2) [OF demo_finish] by (simp add: demo_created_def)
  have "\<exists>w2 ident err. warp_reg demo_crypto demo_json (demo_environment\<lparr>v_write := Truncated 1\<rparr>) demo_world = (Fatal SaveFailed, w2) \<and>
      (ident, Token (l_reg demo_loaded)) \<in> w_devices w2 \<and>
      warp_reg demo_crypto demo_json demo_environment w2 = (Fatal (RegistrationUnreadable BadJSON), w2) \<and>
      warp_del demo_json demo_environment w2 = (Fatal (DeregisterFailed err), w2)"
    by (rule interrupted_save_blocks [where data = "''{}''" and n = 1 and ?w1.0 = demo_registered])
      (simp_all add: demo_world_def demo_environment_def demo_json_def demo_register [unfolded demo_world_def])
  with t show ?thesis by metis
qed

text \<open>C21: an explicit edge address that is accepted gives at least one candidate, and every candidate
  is a literal IP address with the requested port, between 1 and 65535: dialling it needs no
  further name lookup.\<close>
theorem resolveEdge_candidates:
  assumes "resolveEdge lookup spec = Inr out" "\<forall>name addrs. lookup name = Some addrs \<longrightarrow> list_all valid_ip addrs"
  shows "out \<noteq> [] \<and> (\<exists>host port n. splitHostPort spec = Inr (host, port) \<and> atoi port = Some n \<and> 1 \<le> n \<and> n \<le> 65535 \<and>
    (\<forall>s \<in> set out. \<exists>lit. splitHostPort s = Inr (lit, port) \<and> parseIP lit \<noteq> None))"
proof -
  obtain host port where sp: "splitHostPort spec = Inr (host, port)"
    using assms(1) by (auto simp: resolveEdge_def split: sum.splits)
  have ok: "port_ok port" using net.split_fine [OF sp] by simp
  obtain n where n: "atoi port = Some n" "1 \<le> n" "n \<le> 65535"
    using assms(1) sp by (auto simp: resolveEdge_def split: if_splits option.splits)
  show ?thesis
  proof (cases "parseIP host = None")
    case False
    with assms(1) sp n have "out = [joinHostPort host port]" by (auto simp: resolveEdge_def split: if_splits)
    with net.rejoin [OF sp] False sp n show ?thesis by auto
  next
    case True
    with assms(1) sp n obtain addrs where a: "lookup host = Some addrs" "addrs \<noteq> []"
      "out = map (\<lambda>a. joinHostPort (ip_string a) port) addrs"
      by (auto simp: resolveEdge_def split: if_splits option.splits)
    have "splitHostPort (joinHostPort (ip_string x) port) = Inr (ip_string x, port) \<and> parseIP (ip_string x) \<noteq> None"
      if "x \<in> set addrs" for x
    proof -
      have v: "valid_ip x" using assms(2) a(1) that by (simp add: list_all_iff)
      then have "parseIP (ip_string x) \<noteq> None"
        using parseIP_ip_string [OF v] to16_Some_iff [of x] by auto
      with net.split_of_join [OF ip_string_host_ok [OF v] ok] show ?thesis by simp
    qed
    with a sp n show ?thesis by auto
  qed
qed

theorem resolveEdge_candidates_witness:
  "\<exists>lit. splitHostPort (joinHostPort (ip_string [192, 0, 2, 1]) ''443'') = Inr (lit, ''443'') \<and> parseIP lit \<noteq> None"
proof -
  define l :: "string \<Rightarrow> ip list option" where "l name = Some [[192, 0, 2, 1]]" for name
  have sp: "splitHostPort ''edge.test:443'' = Inr (''edge.test'', ''443'')" by code_simp
  have "atoi ''443'' = Some 443" "parseIP ''edge.test'' = None" by code_simp+
  with sp have r: "resolveEdge l ''edge.test:443'' = Inr [joinHostPort (ip_string [192, 0, 2, 1]) ''443'']"
    by (simp add: resolveEdge_def l_def)
  have "\<forall>name addrs. l name = Some addrs \<longrightarrow> list_all valid_ip addrs"
    by (auto simp: l_def valid_ip_def)
  from resolveEdge_candidates [OF r this] sp show ?thesis by auto
qed

text \<open>The address under which the self-test reaches the proxy splits into a literal address and
  the listener's port: the loopback address of the listener's family if the listener accepts on
  every interface, its own address otherwise.\<close>
theorem loopbackAddress_dialable:
  assumes "a = [] \<or> valid_ip a"
  shows "\<exists>host. splitHostPort (loopbackAddress (TCPAddr a port)) = Inr (host, itoa port) \<and>
    parseIP host =
      (if a = [] \<or> isUnspecified a \<and> to4 a \<noteq> None then Some (v4InV6Prefix @ [127, 0, 0, 1])
       else if isUnspecified a then Some (replicate 15 0 @ [1])
       else to16 a)"
proof -
  have dial: "splitHostPort (joinHostPort (ip_string x) (itoa port)) = Inr (ip_string x, itoa port) \<and>
      parseIP (ip_string x) = to16 x" if "valid_ip x" for x
    using that net.split_of_join [OF ip_string_host_ok [OF that], of "itoa port"] parseIP_ip_string by simp
  have v: "valid_ip (v4InV6Prefix @ [127, 0, 0, 1])" "valid_ip (replicate 15 0 @ [1])"
    by (simp_all add: valid_ip_def)
  have t: "to16 (v4InV6Prefix @ [127, 0, 0, 1]) = Some (v4InV6Prefix @ [127, 0, 0, 1])"
    "to16 (replicate 15 0 @ [1]) = Some (replicate 15 0 @ [1])"
    by (simp_all add: to16_def)
  show ?thesis
    using assms dial [OF v(1)] dial [OF v(2)] dial [of a] t
    by (auto simp: loopbackAddress_def Let_def)
qed

theorem loopbackAddress_dialable_witness:
  "\<exists>host. splitHostPort (loopbackAddress (TCPAddr (replicate 16 0) 40000)) = Inr (host, itoa 40000) \<and>
     parseIP host = Some (replicate 15 0 @ [1])"
  using loopbackAddress_dialable [of "replicate 16 0" 40000]
  by (simp add: valid_ip_def isUnspecified_def to4_def)

end
