(* ===== verification/Warp_Proxy.thy ===== *)
theory Warp_Proxy
  imports Warp_Main Socks_H2 Socks_H3 Edge_Dial
begin

text \<open>
  The parts put together: the interface \<open>socksBackend\<close> through which \<open>main.go\<close> serves its clients,
  with what both backends promise behind it, and properties of the running command: what its flags
  protect, and which edge it dials after a registration.
\<close>

section \<open>The interface of a backend\<close>

text \<open>A conversation that does nothing but answer the client and close.\<close>

definition turned_away :: "action list \<Rightarrow> bool" where
  "turned_away acts \<longleftrightarrow> (\<exists>as. acts = SetDeadline # as @ [CloseConn] \<and> list_all is_reply as)"

text \<open>What a backend promises: with credentials configured, only a client that presents them is not
  turned away; a UDP association needs to be allowed; the connection gets a deadline first and is
  closed last; and a client that offers both methods is asked for credentials exactly if they are
  configured. How credentials are presented differs between the backends.\<close>

locale socks_backend =
  fixes handle :: "socks_config \<Rightarrow> bytes list \<Rightarrow> action list"
    and presents :: "string \<Rightarrow> string \<Rightarrow> bytes list \<Rightarrow> bool"
  assumes admits: "\<not> turned_away (handle cfg segs) \<Longrightarrow> require_auth cfg \<Longrightarrow> presents (Username cfg) (Password cfg) segs"
    and short: "presents user pass segs \<Longrightarrow> length user < 256 \<and> length pass < 256"
    and udp_allowed: "UDPAssociate \<in> set (handle cfg segs) \<Longrightarrow> AllowUDP cfg"
    and closes: "hd (handle cfg segs) = SetDeadline \<and> last (handle cfg segs) = CloseConn"
    and greets: "length ms < 256 \<Longrightarrow> {0x00, 0x02} \<subseteq> set ms \<Longrightarrow>
      \<exists>acts. handle cfg (greeting ms # segs) = SetDeadline # Sent [0x05, if require_auth cfg then 0x02 else 0x00] # acts"
begin

lemma outsider: "require_auth cfg \<Longrightarrow> \<not> presents (Username cfg) (Password cfg) segs \<Longrightarrow> turned_away (handle cfg segs)"
  using admits by blast

text \<open>Credentials that do not fit the format admit nobody.\<close>

lemma locked_out:
  "require_auth cfg \<Longrightarrow> 256 \<le> length (Username cfg) \<or> 256 \<le> length (Password cfg) \<Longrightarrow>
     turned_away (handle cfg segs)"
  using short [of "Username cfg" "Password cfg" segs] outsider [of cfg segs] by linarith

text \<open>Whatever an action is that reaches beyond the client, it is done for a client that knows the
  credentials.\<close>

lemma reaches_out:
  assumes "a \<in> set (handle cfg segs)" "\<not> is_reply a" "a \<noteq> SetDeadline" "a \<noteq> CloseConn" "require_auth cfg"
  shows "presents (Username cfg) (Password cfg) segs"
proof (rule admits [OF _ assms(5)])
  show "\<not> turned_away (handle cfg segs)" using assms(1-4) by (auto simp: turned_away_def list_all_iff)
qed

end

text \<open>To the HTTP/2 handler: the bytes are a greeting that offers the method and then these
  credentials, in the form of RFC 1929. To the HTTP/3 handler: the first read starts with the
  version, the second one with the credentials.\<close>

definition h2_presents :: "string \<Rightarrow> string \<Rightarrow> bytes list \<Rightarrow> bool" where
  "h2_presents user pass segs \<longleftrightarrow> length user < 256 \<and> length pass < 256 \<and>
     (\<exists>ms rest. ms \<noteq> [] \<and> length ms < 256 \<and> 0x02 \<in> set ms \<and>
        concat segs = greeting ms @ auth_request (bytes_of_str user) (bytes_of_str pass) @ rest)"

definition h3_presents :: "string \<Rightarrow> string \<Rightarrow> bytes list \<Rightarrow> bool" where
  "h3_presents user pass segs \<longleftrightarrow> length user < 256 \<and> length pass < 256 \<and>
     (\<exists>g junk rest. length g \<ge> 2 \<and> g ! 0 = 0x05 \<and>
        pieces segs = g # (auth_request (bytes_of_str user) (bytes_of_str pass) @ junk) # rest)"

lemma h3_admits_presents:
  "h3_admits cfg (pieces segs) rest \<Longrightarrow> require_auth cfg \<Longrightarrow> h3_presents (Username cfg) (Password cfg) segs"
  unfolding h3_admits_def h3_presents_def by auto

lemma negotiation_presents:
  "negotiable cfg ms \<Longrightarrow> concat segs = negotiation cfg ms @ rest \<Longrightarrow> require_auth cfg \<Longrightarrow>
     h2_presents (Username cfg) (Password cfg) segs"
  unfolding negotiable_def negotiation_def h2_presents_def by auto

abbreviation h2_log :: "(string \<Rightarrow> dial_error option) \<Rightarrow> socks_config \<Rightarrow> bytes list \<Rightarrow> action list" where
  "h2_log dial cfg segs \<equiv> c_log (h2_handleSOCKS5 cfg dial (quiet_conn segs))"

text \<open>The answer to the greeting is the first thing a backend sends: what it does later only adds to
  the log.\<close>

definition grows :: "conn \<Rightarrow> conn \<Rightarrow> bool" where
  "grows c d \<longleftrightarrow> (\<exists>acts. c_log d = c_log c @ acts)"

named_theorems grow_intros "operations that only add to the log"

lemma grows_refl [grow_intros]: "grows c c" by (simp add: grows_def)

lemma grows_log [grow_intros]: "grows c d \<Longrightarrow> grows c (log a d)" by (auto simp: grows_def)

lemma grows_trans: "grows c d \<Longrightarrow> grows d e \<Longrightarrow> grows c e" by (auto simp: grows_def)

lemma grows_replies: "replies_only m \<Longrightarrow> m c = (r, d) \<Longrightarrow> grows c d"
  by (erule (1) replies_onlyE) (auto simp: grows_def)

lemma grows_handlers [grow_intros]:
  "grows c (h2_connect dial t c)" "grows c (h2_reply b c)" "grows c (h3_connect env t c)" "grows c (h3_reply b c)"
proof -
  show "grows c (h2_connect dial t c)" by (cases rule: h2_connect_log [of dial t c]) (auto simp: grows_def)
  show "grows c (h3_connect env t c)" by (cases rule: h3_connect_log [of env t c]) (auto simp: grows_def)
  show "grows c (h2_reply b c)" unfolding grows_def by (meson h2_reply_log)
  show "grows c (h3_reply b c)" unfolding grows_def by (meson h3_reply_log)
qed

lemma log_of_negotiation: "grows (snd (negotiateSOCKS5 cfg (log SetDeadline c))) (h2_handleSOCKS5 cfg dial c)"
proof -
  obtain r c1 where n: "negotiateSOCKS5 cfg (log SetDeadline c) = (r, c1)" by fastforce
  obtain q c2 where q: "readSOCKS5Request c1 = (q, c2)" by fastforce
  have g: "grows c1 c2" by (rule grows_replies [OF replies_only_readSOCKS5Request q])
  show ?thesis
  proof (cases r)
    case Inl
    with n show ?thesis by (simp add: h2_handleSOCKS5_def grow_intros)
  next
    case Inr
    with n q show ?thesis
      by (cases q) (auto simp: h2_handleSOCKS5_def intro!: grow_intros grows_trans [OF g])
  qed
qed

lemma h2_greets:
  assumes "length ms < 256" "{0x00, 0x02} \<subseteq> set ms"
  shows "\<exists>acts. h2_log dial cfg (greeting ms # segs) =
    SetDeadline # Sent [0x05, if require_auth cfg then 0x02 else 0x00] # acts"
proof -
  let ?c = "log SetDeadline (quiet_conn (greeting ms # segs))" and ?sel = "if require_auth cfg then 0x02 else 0x00 :: byte"
  have "stream ?c = [0x05, word_of_nat (length ms)] @ (ms @ concat segs)" by (simp add: greeting_def stream_def)
  from readFull_complete [OF this, of 2] obtain c1 where
    1: "readFull 2 ?c = (Inr [0x05, word_of_nat (length ms)], c1)" "stream c1 = ms @ concat segs"
      "c_log c1 = [SetDeadline]" "c_wok c1 = (\<lambda>_. True)" by auto
  from readFull_complete [OF 1(2), of "length ms"] obtain c2 where
    2: "readFull (length ms) c1 = (Inr ms, c2)" "c_log c2 = [SetDeadline]" "c_wok c2 = (\<lambda>_. True)"
    using 1(3,4) by auto
  have n: "unat (word_of_nat (length ms) :: byte) = length ms" using assms(1) by (simp add: unat_of_nat take_bit_nat_eq_self)
  moreover have "length ms \<noteq> 0" using assms(2) by auto
  ultimately have ne: "(word_of_nat (length ms) :: byte) \<noteq> 0" by (metis unat_0)
  let ?c3 = "log (Sent [0x05, ?sel]) (c2\<lparr>c_tries := Suc (c_tries c2)\<rparr>)"
  have w: "writeConn [0x05, ?sel] c2 = (Inr (), ?c3)" using 2(3) by (simp add: writeConn_Inr)
  have "negotiateSOCKS5 cfg ?c = (if \<not> require_auth cfg then opret () else negotiate_auth cfg) ?c3"
    using 1(1) 2(1) n ne w assms(2) unfolding negotiateSOCKS5_def Let_def
    by (cases "require_auth cfg") (simp_all add: opbind_step require_auth_def)
  moreover obtain r c4 where r: "(if \<not> require_auth cfg then opret () else negotiate_auth cfg) ?c3 = (r, c4)" by fastforce
  moreover have "replies_only (if \<not> require_auth cfg then opret () else negotiate_auth cfg)"
    by (auto intro: reply_intros)
  then have "grows ?c3 c4" using r by (rule grows_replies)
  ultimately show ?thesis
    using log_of_negotiation [of cfg "quiet_conn (greeting ms # segs)" dial] 2(2) by (auto simp: grows_def)
qed

interpretation h2_backend: socks_backend "h2_log dial" h2_presents for dial
proof unfold_locales
  fix cfg segs
  let ?l = "h2_log dial cfg segs"
  have "(turned_away ?l \<or> (require_auth cfg \<longrightarrow> h2_presents (Username cfg) (Password cfg) segs)) \<and>
      (UDPAssociate \<in> set ?l \<longrightarrow> AllowUDP cfg) \<and> hd ?l = SetDeadline \<and> last ?l = CloseConn"
  proof (cases rule: h2_handleSOCKS5_cases [of cfg dial "quiet_conn segs"])
    case (rejected as)
    then show ?thesis by (auto simp: turned_away_def)
  next
    case (udp ms a port rest)
    with negotiation_presents [of cfg ms segs] show ?thesis by simp
  next
    case (connect ms a port t c1)
    have "UDPAssociate \<notin> set ?l \<and> hd ?l = SetDeadline \<and> last ?l = CloseConn"
      using connect by (cases rule: h2_connect_log [of dial t c1]) auto
    with connect negotiation_presents [of cfg ms segs] show ?thesis by simp
  qed
  then show "\<not> turned_away ?l \<Longrightarrow> require_auth cfg \<Longrightarrow> h2_presents (Username cfg) (Password cfg) segs"
    "UDPAssociate \<in> set ?l \<Longrightarrow> AllowUDP cfg" "hd ?l = SetDeadline \<and> last ?l = CloseConn" by blast+
qed (use h2_greets in \<open>auto simp: h2_presents_def\<close>)

lemma h3_log_of_negotiation:
  "grows (snd (opbind (h3_negotiate cfg) (\<lambda>_. h3_read) (log SetDeadline c))) (snd (h3_handleSOCKS5 cfg env c))"
proof -
  obtain r c1 where n: "opbind (h3_negotiate cfg) (\<lambda>_. h3_read) (log SetDeadline c) = (r, c1)" by fastforce
  then show ?thesis
    by (auto simp: h3_handleSOCKS5_def Let_def intro!: grow_intros split: sum.splits stop.splits gores.splits)
qed

lemma h3_greets:
  assumes "length ms < 256"
  shows "\<exists>acts. h3_log cfg env (greeting ms # segs) =
    SetDeadline # Sent [0x05, if require_auth cfg then 0x02 else 0x00] # acts"
proof -
  let ?c = "log SetDeadline (quiet_conn (greeting ms # segs))" and ?sel = "if require_auth cfg then 0x02 else 0x00 :: byte"
  let ?g = "opbind (if require_auth cfg then opbind h3_read (\<lambda>authData. h3_check cfg (h3_parse_auth authData)) else opret ())
    (\<lambda>_. h3_read)"
  have "reads ?c = greeting ms # pieces segs" using assms by (simp add: pieces_step greeting_def)
  then obtain c1 where 1: "h3_read ?c = (Inr (greeting ms), c1)" "c_log c1 = [SetDeadline]" "c_wok c1 = (\<lambda>_. True)"
    using h3_read_piece [of ?c "greeting ms" "pieces segs"] by auto
  let ?c3 = "log (Sent [0x05, ?sel]) (c1\<lparr>c_tries := Suc (c_tries c1)\<rparr>)"
  have "opbind (h3_negotiate cfg) (\<lambda>_. h3_read) ?c = ?g ?c3"
    using 1 by (cases "require_auth cfg")
      (simp_all add: h3_negotiate_def opbind_def oplift_def conn_write_def opret_def greeting_def)
  moreover obtain r c4 where r: "?g ?c3 = (r, c4)" by fastforce
  moreover have "replies_only ?g" by (auto intro!: reply_intros)
  then have "grows ?c3 c4" using r by (rule grows_replies)
  ultimately show ?thesis
    using h3_log_of_negotiation [of cfg "quiet_conn (greeting ms # segs)" env] 1(2) by (auto simp: grows_def)
qed

interpretation h3_backend: socks_backend "\<lambda>cfg. h3_log cfg env" h3_presents for env
proof unfold_locales
  fix cfg segs
  let ?l = "h3_log cfg env segs"
  have "(turned_away ?l \<or> (require_auth cfg \<longrightarrow> h3_presents (Username cfg) (Password cfg) segs)) \<and>
      (UDPAssociate \<in> set ?l \<longrightarrow> AllowUDP cfg) \<and> hd ?l = SetDeadline \<and> last ?l = CloseConn"
  proof (cases rule: h3_handleSOCKS5_cases [of cfg env "quiet_conn segs"])
    case (rejected as)
    then show ?thesis by (auto simp: turned_away_def)
  next
    case (panicked as rq rest)
    then show ?thesis by (auto simp: turned_away_def)
  next
    case (udp as rq rest)
    with h3_admits_presents [of cfg segs] show ?thesis by simp
  next
    case (connect as rq rest t h c1)
    have "UDPAssociate \<notin> set ?l \<and> hd ?l = SetDeadline \<and> last ?l = CloseConn"
      using connect by (cases rule: h3_connect_log [of env t c1]) auto
    with connect h3_admits_presents [of cfg segs] show ?thesis by simp
  qed
  then show "\<not> turned_away ?l \<Longrightarrow> require_auth cfg \<Longrightarrow> h3_presents (Username cfg) (Password cfg) segs"
    "UDPAssociate \<in> set ?l \<Longrightarrow> AllowUDP cfg" "hd ?l = SetDeadline \<and> last ?l = CloseConn" by blast+
qed (use h3_greets in \<open>auto simp: h3_presents_def\<close>)

section \<open>The proxy serves a client\<close>

text \<open>\<open>proxyClient.HandleSOCKS5\<close> on the backend that \<open>main\<close> has chosen, with its configuration.\<close>

definition backend_handle ::
    "backend \<Rightarrow> (string \<Rightarrow> dial_error option) \<Rightarrow> h3_env \<Rightarrow> socks_config \<Rightarrow> bytes list \<Rightarrow> action list" where
  "backend_handle b dial env cfg segs =
     (case b of H3 \<Rightarrow> h3_log cfg env segs | H2 \<Rightarrow> h2_log dial cfg segs)"

definition presents_to :: "backend \<Rightarrow> string \<Rightarrow> string \<Rightarrow> bytes list \<Rightarrow> bool" where
  "presents_to b = (case b of H3 \<Rightarrow> h3_presents | H2 \<Rightarrow> h2_presents)"

definition proxy_handle ::
    "proxy \<Rightarrow> (string \<Rightarrow> dial_error option) \<Rightarrow> h3_env \<Rightarrow> bytes list \<Rightarrow> action list" where
  "proxy_handle x dial env segs = backend_handle (x_backend x) dial env (x_socks x) segs"

interpretation proxy: socks_backend "backend_handle b dial env" "presents_to b" for b dial env
proof (cases b)
  case H3
  then have "backend_handle b dial env = (\<lambda>cfg. h3_log cfg env)" "presents_to b = h3_presents"
    by (simp_all add: backend_handle_def presents_to_def fun_eq_iff)
  then show "socks_backend (backend_handle b dial env) (presents_to b)" using h3_backend.socks_backend_axioms by simp
next
  case H2
  then have "backend_handle b dial env = h2_log dial" "presents_to b = h2_presents"
    by (simp_all add: backend_handle_def presents_to_def fun_eq_iff)
  then show "socks_backend (backend_handle b dial env) (presents_to b)" using h2_backend.socks_backend_axioms by simp
qed

section \<open>What a serving proxy has read\<close>

lemma warp_start_Serving:
  assumes "warp_start c j v f t w = Serving x"
  shows "\<exists>l. Load c j (v_moment v) (v_readable v) w = Inr l \<and>
    select_edges (v_lookup v) (f_ip f) (l_reg l) = Inr (x_h3 x, x_h2 x) \<and>
    x_socks x = socks_cfg f"
  using assms unfolding warp_start_def by (force split: sum.splits prod.splits if_splits)

lemma warp_main_Serving:
  assumes "warp_main c j v f w = (Serving x, w')"
  shows "\<exists>l. Load c j (v_moment v) (v_readable v) w = Inr l \<and>
    select_edges (v_lookup v) (f_ip f) (l_reg l) = Inr (x_h3 x, x_h2 x) \<and>
    x_socks x = socks_cfg f"
proof (rule warp_start_Serving)
  have "warp_del j v w \<noteq> (Serving x, w')" "warp_reg c j v w \<noteq> (Serving x, w')"
    by (auto simp: warp_del_def warp_reg_def split: sum.splits prod.splits if_splits)
  with assms show "warp_start c j v f (toLower (trimSpace (f_transport f))) w = Serving x"
    by (auto simp: warp_main_def Let_def split: if_splits)
qed

lemma socks_cfg_fields [simp]:
  "Username (socks_cfg f) = f_user f" "Password (socks_cfg f) = f_pass f"
  "require_auth (socks_cfg f) \<longleftrightarrow> f_user f \<noteq> [] \<and> f_pass f \<noteq> []"
  by (simp_all add: socks_cfg_def require_auth_def)

section \<open>The endpoint the API hands out\<close>

text \<open>The forms in which the API may name the address of an edge in one family: bare or with a port,
  and for IPv6 also in brackets.\<close>

definition endpoint_names :: "string \<Rightarrow> ip \<Rightarrow> peer \<Rightarrow> bool" where
  "endpoint_names which a p \<longleftrightarrow> valid_ip a \<and>
     (which = ''4'' \<and> to4 a \<noteq> None \<and>
        (p_v4 p = ip_string a \<or> (\<exists>n. p_v4 p = joinHostPort (ip_string a) (itoa n))) \<or>
      which = ''6'' \<and> to4 a = None \<and>
        (p_v6 p = ip_string a \<or> p_v6 p = ''['' @ ip_string a @ '']'' \<or>
         (\<exists>n. p_v6 p = joinHostPort (ip_string a) (itoa n))))"

lemma endpoint_names_stored:
  assumes "endpoint_names which a p"
  shows "which = ''4'' \<and> endpoint_v4 (p_v4 p) = ip_string a \<or> which = ''6'' \<and> endpoint_v6 (p_v6 p) = ip_string a"
proof -
  have "valid_ip [127, 0, 0, 1]" "to4 [127, 0, 0, 1] \<noteq> None" "valid_ip (replicate 16 1)" "to4 (replicate 16 1) = None"
    by (simp_all add: valid_ip_def to4_def)
  then show ?thesis
    using assms endpoint_forms [of a "[127, 0, 0, 1]"] endpoint_forms [of "replicate 16 1" a]
    unfolding endpoint_names_def by metis
qed

lemma edge_splits:
  assumes "valid_ip a" "0 \<le> q"
  shows "splitHostPort (joinHostPort (ip_string a) (itoa_int q)) = Inr (ip_string a, itoa (nat q))"
    "splitHostPort (joinHostPort (ip_string a) ''443'') = Inr (ip_string a, ''443'')"
  using net.split_of_join [OF ip_string_host_ok [OF assms(1)]] assms(2)
  by (simp_all add: itoa_int_def port_ok_def)

text \<open>The candidates of a proxy whose registration has these endpoints.\<close>

lemma select_edges_literal:
  assumes "which = ''4'' \<and> EndpointV4 r = ip_string a \<or> which = ''6'' \<and> EndpointV6 r = ip_string a" "valid_ip a"
  shows "select_edges lookup which r =
    Inr (map (\<lambda>q. joinHostPort (ip_string a) (itoa_int q)) (if EndpointPorts r = [] then [443] else EndpointPorts r),
         [joinHostPort (ip_string a) ''443''])"
  using assms ip_string_nonempty [OF assms(2)] by (auto simp: select_edges_def Let_def)

section \<open>Properties\<close>

text \<open>A command that serves: the registration of the demonstration, with both credentials.\<close>

definition demo_auth :: flags where
  "demo_auth = demo_flags\<lparr>f_user := ''u'', f_pass := ''p''\<rparr>"

abbreviation demo_saved :: world where
  "demo_saved \<equiv> demo_registered\<lparr>w_file := Some ''{}''\<rparr>"

lemma demo_names: "endpoint_names ''4'' [162, 159, 198, 2] demo_peer"
proof -
  have "joinHostPort (ip_string [162, 159, 198, 2]) (itoa 0) = ''162.159.198.2:0''" by code_simp
  then have "p_v4 demo_peer = joinHostPort (ip_string [162, 159, 198, 2]) (itoa 0)" by (simp add: demo_peer_def)
  then show ?thesis unfolding endpoint_names_def by (auto simp: valid_ip_def to4_def)
qed

lemma demo_serving:
  "\<exists>x. warp_main demo_crypto demo_json demo_environment demo_auth demo_saved = (Serving x, demo_saved) \<and> x_backend x = H2"
proof -
  have t: "toLower (trimSpace ''auto'') = ''auto''" by code_simp
  from Load_registered [OF demo_ok demo_register demo_save, of "(500, [])"] obtain l where
    l: "Load demo_crypto demo_json (500, []) True demo_saved = Inr l" "l_reg l = l_reg demo_loaded" by auto
  have "publicKeyToBase64 demo_crypto (bytes_of_str ''edge'') = Inr (PeerPublicKey (l_reg demo_loaded))"
    using finish_registration_Inr(6) [OF demo_finish, of demo_peer "[]"]
    by (simp add: demo_enrolled_def demo_peer_def pemPublicKeyToBase64_def publicKeyFromDER_def demo_crypto_def)
  from decode_public_roundtrip [OF demo_ok this]
  have p: "\<exists>k. PeerPublicKeyVerifier demo_crypto (l_reg demo_loaded) = Inr k" by (simp add: PeerPublicKeyVerifier_def)
  have "EndpointV4 (l_reg demo_loaded) = ip_string [162, 159, 198, 2]"
    using finish_registration_endpoints(1) [OF demo_finish, of demo_peer "[]"] endpoint_names_stored [OF demo_names]
    by (simp add: demo_enrolled_def)
  then obtain e where "select_edges (\<lambda>name. None) ''4'' (l_reg demo_loaded) = Inr e"
    using select_edges_literal [of "''4''" "l_reg demo_loaded"] by (simp add: valid_ip_def)
  with t l p show ?thesis
    by (cases e) (auto simp: warp_main_def demo_auth_def demo_flags_def demo_environment_def warp_start_def
        connect_backend_def)
qed

text \<open>C2: a proxy that \<open>main\<close> serves asks a client that offers both methods for credentials exactly if
  both flags are given, whichever backend was chosen. Then a client that does not present exactly
  these credentials, directly after its greeting, is answered and turned away: nothing is
  resolved, dialled, opened or relayed for it, whatever it sends afterwards.\<close>
theorem proxy_guards_its_users:
  assumes "warp_main c j v f w = (Serving x, w')"
  shows "(\<forall>ms segs. length ms < 256 \<and> {0x00, 0x02} \<subseteq> set ms \<longrightarrow>
      (\<exists>acts. proxy_handle x dial env (greeting ms # segs) =
         SetDeadline # Sent [0x05, if f_user f \<noteq> [] \<and> f_pass f \<noteq> [] then 0x02 else 0x00] # acts)) \<and>
    (f_user f \<noteq> [] \<and> f_pass f \<noteq> [] \<longrightarrow> \<not> presents_to (x_backend x) (f_user f) (f_pass f) segs \<longrightarrow>
       turned_away (proxy_handle x dial env segs))"
proof (intro conjI allI impI)
  have s: "x_socks x = socks_cfg f" using warp_main_Serving [OF assms] by blast
  show "\<exists>acts. proxy_handle x dial env (greeting ms # segs) =
         SetDeadline # Sent [0x05, if f_user f \<noteq> [] \<and> f_pass f \<noteq> [] then 0x02 else 0x00] # acts"
    if "length ms < 256 \<and> {0x00, 0x02} \<subseteq> set ms" for ms segs
    using proxy.greets [of ms "x_backend x" dial env "socks_cfg f" segs] that by (simp add: proxy_handle_def s)
  show "turned_away (proxy_handle x dial env segs)"
    if "f_user f \<noteq> [] \<and> f_pass f \<noteq> []" "\<not> presents_to (x_backend x) (f_user f) (f_pass f) segs"
    using proxy.outsider [of "socks_cfg f" "x_backend x" segs] that by (simp add: proxy_handle_def s)
qed

text \<open>A client that sends wrong credentials before the right ones.\<close>

lemma wrong_first: "\<not> h2_presents ''u'' ''p'' [[5, 1, 2], [1, 1, 117, 1, 120], [1, 1, 117, 1, 112], [5, 1, 0, 1, 10, 0, 0, 1, 0, 80]]"
proof
  assume "h2_presents ''u'' ''p'' [[5, 1, 2], [1, 1, 117, 1, 120], [1, 1, 117, 1, 112], [5, 1, 0, 1, 10, 0, 0, 1, 0, 80]]"
  then obtain ms rest where ms: "length ms < 256" "word_of_nat (length ms) = (1 :: byte)"
    "ms @ auth_request (bytes_of_str ''u'') (bytes_of_str ''p'') @ rest =
      [2, 1, 1, 117, 1, 120, 1, 1, 117, 1, 112, 5, 1, 0, 1, 10, 0, 0, 1, 0, 80]"
    by (auto simp: h2_presents_def greeting_def)
  have "length ms = unat (word_of_nat (length ms) :: byte)" using ms(1) by (simp add: unat_of_nat take_bit_nat_eq_self)
  with ms(2) have "length ms = 1" by simp
  then obtain m where "ms = [m]" by (auto simp: length_Suc_conv)
  with ms(3) show False by (simp add: auth_request_def bytes_of_str_def)
qed

theorem proxy_guards_its_users_witness:
  "\<exists>x acts. warp_main demo_crypto demo_json demo_environment demo_auth demo_saved = (Serving x, demo_saved) \<and>
     proxy_handle x (\<lambda>t. None) Socks_H3.demo_env [[5, 2, 0, 2]] = SetDeadline # Sent [5, 2] # acts \<and>
     turned_away (proxy_handle x (\<lambda>t. None) Socks_H3.demo_env
       [[5, 1, 2], [1, 1, 117, 1, 120], [1, 1, 117, 1, 112], [5, 1, 0, 1, 10, 0, 0, 1, 0, 80]])"
proof -
  from demo_serving obtain x where
    x: "warp_main demo_crypto demo_json demo_environment demo_auth demo_saved = (Serving x, demo_saved)" "x_backend x = H2" by blast
  have f: "f_user demo_auth = ''u''" "f_pass demo_auth = ''p''" by (simp_all add: demo_auth_def)
  have "greeting [0, 2] = [5, 2, 0, 2]" by (simp add: greeting_def)
  then have "\<exists>acts. proxy_handle x (\<lambda>t. None) Socks_H3.demo_env [[5, 2, 0, 2]] = SetDeadline # Sent [5, 2] # acts"
    using proxy_guards_its_users [OF x(1), of "\<lambda>t. None" Socks_H3.demo_env "[]", THEN conjunct1, rule_format, of "[0, 2]" "[]"] f
    by simp
  then show ?thesis
    using proxy_guards_its_users [OF x(1), of "\<lambda>t. None" Socks_H3.demo_env, THEN conjunct2, rule_format] wrong_first x f
    by (auto simp: presents_to_def)
qed

text \<open>C17: registering, saving and starting compose: whatever form the API gave the endpoint in, the
  proxy dials that very address, over HTTP/3 on each of the ports the API listed (443 if it
  listed none) and over HTTP/2 on 443; and a connection of the HTTP/3 dialer is one to such an
  address and port.\<close>
theorem registered_proxy_reaches_its_edge:
  assumes "codecs_ok c j" "Register c env w = (Inr l, w1)" "Save j Written (l_reg l) w1 = (True, w2)"
    and "r_enroll env = response.Response 200 (Some e)" "e_peers e = p # ps" "endpoint_names (f_ip f) a p"
    and "list_all (\<lambda>q. 0 < q \<and> q < 65536) (p_ports p)" "v_readable v"
    and "warp_main c j v f w2 = (Serving x, w3)"
  shows "let ports = (if p_ports p = [] then [443] else p_ports p) in
    parseIP (ip_string a) = to16 a \<and>
    map splitHostPort (x_h3 x) = map (\<lambda>q. Inr (ip_string a, itoa (nat q))) ports \<and>
    map splitHostPort (x_h2 x) = [Inr (ip_string a, ''443'')] \<and>
    (\<forall>d b k. h3_dial ctx d (x_h3 x) 0 = (Inr b, k) \<longrightarrow>
       (\<exists>i. \<exists>q \<in> set ports. d i (joinHostPort (ip_string a) (itoa (nat q))) = Inr b))"
proof -
  define ports where "ports = (if p_ports p = [] then [443] else p_ports p)"
  obtain reg key where fin: "finish_registration c (r_moment env) reg key e = Inr l"
    by (rule Register_Inr [OF assms(2)]) (use assms(4) that in auto)
  note stored = finish_registration_endpoints [OF fin assms(5)] endpoint_names_stored [OF assms(6)]
  have a: "valid_ip a" using assms(6) by (simp add: endpoint_names_def)
  have q: "0 \<le> q" if "q \<in> set ports" for q
    using that assms(7) by (auto simp: ports_def list_all_iff split: if_splits)
  from Load_registered [OF assms(1-3), of "v_moment v"] obtain l' where
    l': "Load c j (v_moment v) True w2 = Inr l'" "l_reg l' = l_reg l" by auto
  from warp_main_Serving [OF assms(9)] l' assms(8)
  have "select_edges (v_lookup v) (f_ip f) (l_reg l) = Inr (x_h3 x, x_h2 x)" by auto
  moreover have "f_ip f = ''4'' \<and> EndpointV4 (l_reg l) = ip_string a \<or> f_ip f = ''6'' \<and> EndpointV6 (l_reg l) = ip_string a"
    using stored by auto
  ultimately have x: "x_h3 x = map (\<lambda>q. joinHostPort (ip_string a) (itoa_int q)) ports"
    "x_h2 x = [joinHostPort (ip_string a) ''443'']"
    using select_edges_literal [OF _ a] stored(3) by (auto simp: ports_def)
  have "map splitHostPort (x_h3 x) = map (\<lambda>q. Inr (ip_string a, itoa (nat q))) ports"
    using edge_splits(1) [OF a] q by (simp add: x)
  moreover have "\<exists>i. \<exists>q \<in> set ports. d i (joinHostPort (ip_string a) (itoa (nat q))) = Inr b"
    if "h3_dial ctx d (x_h3 x) 0 = (Inr b, k)" for d b k
  proof -
    from that obtain i where i: "i < length (x_h3 x)" "d i (nth_addr (x_h3 x) 0 i) = Inr b"
      unfolding h3_dialer.success first_success_def by auto
    then have "nth_addr (x_h3 x) 0 i = joinHostPort (ip_string a) (itoa (nat (ports ! i)))" "ports ! i \<in> set ports"
      using q [of "ports ! i"] by (simp_all add: nth_addr_def x itoa_int_def)
    with i(2) show ?thesis by metis
  qed
  moreover have "parseIP (ip_string a) = to16 a \<and> map splitHostPort (x_h2 x) = [Inr (ip_string a, ''443'')]"
    using parseIP_ip_string [OF a] edge_splits(2) [OF a, of 0] x(2) by simp
  ultimately show ?thesis unfolding Let_def ports_def [symmetric] by blast
qed

theorem registered_proxy_reaches_its_edge_witness:
  "\<exists>x. warp_main demo_crypto demo_json demo_environment demo_auth demo_saved = (Serving x, demo_saved) \<and>
     map splitHostPort (x_h3 x) = [Inr (''162.159.198.2'', ''443''), Inr (''162.159.198.2'', ''500'')]"
proof -
  from demo_serving obtain x where
    x: "warp_main demo_crypto demo_json demo_environment demo_auth demo_saved = (Serving x, demo_saved)" by blast
  have n: "ip_string [162, 159, 198, 2] = ''162.159.198.2''" "itoa 443 = ''443''" "itoa 500 = ''500''" by code_simp+
  have f: "f_ip demo_auth = ''4''" "v_readable demo_environment" "e_peers demo_enrolled = [demo_peer]"
    "p_ports demo_peer = [443, 500]" "r_enroll Registration.demo_env = response.Response 200 (Some demo_enrolled)"
    by (simp_all add: demo_auth_def demo_flags_def demo_environment_def demo_enrolled_def demo_peer_def Registration.demo_env_def)
  have "map splitHostPort (x_h3 x) = map (\<lambda>q. Inr (ip_string [162, 159, 198, 2], itoa (nat q))) [443, 500]"
    using registered_proxy_reaches_its_edge [OF demo_ok demo_register demo_save f(5,3) _ _ f(2) x,
        unfolded Let_def, THEN conjunct2, THEN conjunct1] demo_names f by simp
  with x n show ?thesis by auto
qed

end
