(* ===== verification/Spec2Isabelle.thy ===== *)
theory Spec2Isabelle
  imports Socks_H2 Socks_H3 Udp_Relay Dns_Resolver Edge_Dial Masque_Client Doh_Conn Dns_Flight
    Doh_Dial Tunnel_Relay H2_Setup H2_Client Registration Warp_Main Warp_Proxy
begin

text \<open>
  A model of the proxy \<open>warp\<close> and the proofs of what it promises. The program registers a device
  with the WARP API, connects to a Cloudflare edge over HTTP/3 or HTTP/2, and serves SOCKS5 clients
  through that connection.

  \<^bold>\<open>The parts and their theories.\<close>

  \<^item> \<open>Warp_Prelude\<close>, \<open>Go_Net\<close>, \<open>Go_IP\<close>, \<open>Go_IP_Text\<close>, \<open>Go_Strings\<close>: what the code uses of Go and its
    standard library. Go's results with panics (\<open>gores\<close>), bytes and big-endian numbers,
    \<open>strconv.Itoa\<close> and \<open>Atoi\<close>; \<open>net.JoinHostPort\<close> and \<open>SplitHostPort\<close> with the interface
    \<open>host_port\<close>; textual IP addresses with the round trip of printing and parsing;
    \<open>strings.TrimSpace\<close> and its kin; base64.
  \<^item> \<open>Socks_Wire\<close>: the SOCKS5 formats of \<open>tunnel/masque.go\<close> and \<open>tunnel/udp.go\<close>
    (\<open>parseSOCKS5Addr\<close>, \<open>parseUDPRequest\<close>, \<open>appendUDPReply\<close> and the replies), with every
    bound check; the parsers are characterised by the grammar they accept.
  \<^item> \<open>Net_Conn\<close>: a connection as the segments its peer sends and a log of what was done with it; the
    operations on it fail, panic or return.
  \<^item> \<open>Socks_H2\<close> (\<open>tunnel/h2_socks.go\<close>) and \<open>Socks_H3\<close> (\<open>HandleSOCKS5\<close> and
    \<open>connectThroughEdge\<close> of \<open>tunnel/masque.go\<close>): the two handlers of a client. They show whom the
    handlers admit, what they dial and answer, and that they release what they open.
  \<^item> \<open>Tunnel_Relay\<close>: the copy loops at the end of both handlers, as step relations on bytes and on the
    room that each peer grants for them: what each delivers, when it ends, and on what it can hang.
  \<^item> \<open>Udp_Relay\<close> (\<open>tunnel/udp.go\<close>, \<open>tunnel/h2_udp.go\<close>): UDP associations of both backends, by
    events and outputs, each with its own loops and deadlines; the interface \<open>pinned_relay\<close> says that
    an association serves one client, and both are instances.
  \<^item> \<open>Dns_Resolver\<close>: DNS over HTTPS, from the answer's records up to \<open>resolveTarget\<close>, and the
    cache, which refines the map of the latest unexpired resolutions (interface \<open>ttl_cache\<close>).
  \<^item> \<open>Dns_Flight\<close>: the same lookups by any number of goroutines, one flight per name.
  \<^item> \<open>Doh_Dial\<close>, \<open>Doh_Conn\<close>: one dial of the shared DoH connection, and its life among concurrent
    callers, reconnections and \<open>Close\<close>.
  \<^item> \<open>Edge_Dial\<close>: the address loops of both clients, with the interface \<open>edge_dialer\<close>, and a single
    HTTP/3 attempt.
  \<^item> \<open>Masque_Client\<close>: the QUIC connection of the HTTP/3 client: \<open>currentConnection\<close>, \<open>reconnect\<close> and
    \<open>Close\<close>, and \<open>openRequestStream\<close> run by any number of goroutines at once (\<open>ocall\<close> is a step of
    one of them, \<open>ostep\<close> a step of the whole).
  \<^item> \<open>H2_Setup\<close>, \<open>H2_Client\<close> (\<open>tunnel/h2.go\<close>): the constructor and one attempt of the HTTP/2 client;
    its supervisor, pumps, \<open>waitCurrent\<close> and \<open>Close\<close>.
  \<^item> \<open>Custody\<close>: reachable states of a step relation, and the interface \<open>custody\<close> of a component
    that owns connections; the clients of \<open>Masque_Client\<close>, \<open>Doh_Conn\<close> and \<open>H2_Client\<close> are its
    instances.
  \<^item> \<open>Registration\<close> (\<open>registration/registration.go\<close>): \<open>Register\<close>, \<open>Save\<close>, \<open>Load\<close>,
    \<open>DeleteRegistration\<close> over a world with the state file, the devices known to the API and the
    calls made, and the verifier that pins the edge. The client certificate is made anew at every
    start, from the moment and random bytes of that start.
  \<^item> \<open>Warp_Main\<close> (\<open>main.go\<close>): the command, from its flags to the accept loop, and the self-test.
  \<^item> \<open>Warp_Proxy\<close>: the parts together. The Go interface \<open>socksBackend\<close> is the locale \<open>socks_backend\<close>,
    with both handlers as instances, each with its own notion of presenting credentials; what the
    credentials on the command line protect, and which edge a freshly registered proxy dials.

  \<^bold>\<open>How the code is read.\<close> Code that runs in one goroutine is a function: its inputs are its
  arguments and the answers of the environment, its outputs a result and a log, a list of calls or
  the changed state. Code that several goroutines run at once is an inductive step relation on a
  record: a step is what one of them does within a critical section, between two channel
  operations, or in one blocking call, so that every interleaving of the code is a run of the
  model. Contexts and timers are steps that may happen at any time, which covers every deadline;
  where the duration matters (the back-off of the accept loop, the TTL bounds, idle deadlines) it
  is an integer of nanoseconds.

  \<^bold>\<open>Kinds of properties.\<close> Safety (nobody is served who is not admitted, the edge is pinned,
  nothing is registered unasked), accounting for every connection and stream, functional behaviour
  of whole conversations, refinement of the cache, equivalence under any segmentation of the
  client's bytes, round trips of the wire formats and of the registration, progress (waiters are
  woken, \<open>Close\<close> and the relays end: proved by measures that the steps decrease, \<open>h_weight\<close>,
  \<open>x_weight\<close> and \<open>steps_left\<close>, over the steps that need nothing of the environment, \<open>unblocked\<close> and
  \<open>handler_step\<close>), well-formed results, and bounds. Some theorems show what the code gets wrong: the panic of
  \<open>parseSOCKS5Addr\<close>, the truncation of the HTTP/2 relay, the HTTP/3 relay that hangs in a \<open>Write\<close> to an
  edge that takes nothing (\<open>h3_relay_can_hang\<close>), devices left registered, a DoH connection overwritten. Termination of the recursive definitions is by structure or by a measure; no fuel is
  used.

  \<^bold>\<open>Parameters.\<close> Code outside the repository is an argument: the DNS message codec, HTTP/2 and QUIC
  transports, CONNECT-IP and the userspace network stack. So are, of the standard library, TLS,
  X.509, ECDSA, PEM and JSON; \<open>codecs_ok\<close> says that keys and registrations read back as they were
  written, and is satisfied by \<open>demo_crypto\<close> and \<open>demo_json\<close>.

  \<^bold>\<open>Not modelled.\<close> Log lines and error texts, the usage text, flag parsing, QUIC and TLS settings,
  constant request headers, the pool of UDP buffers, white space outside ASCII, and the container
  image.
\<close>

end
